(* ===== verification/Go_Prelude.thy ===== *)
theory Go_Prelude
  imports Main
    "HOL-Library.Word"
    "HOL-Library.AList"
    "HOL-Library.Sublist"
    "HOL-Library.Char_ord"
    "HOL-Library.List_Lexorder"
    "HOL-Library.Product_Lexorder"
    "HOL-Library.Multiset"
begin

text \<open>
  What the components share: Go's fixed-width integers, its maps (as association lists
  in iteration order, with no key twice), its buffered channels, and the generic lemmas
  on them.  A Go map iterates in an unspecified order; here the order is the order of
  the list, and a theorem about every list is a theorem about every iteration order.
\<close>

section \<open>Integers\<close>

type_synonym u8 = "8 word"
type_synonym u16 = "16 word"
type_synonym u32 = "32 word"
type_synonym u64 = "64 word"

text \<open>
  Two collections: \<open>go_defs\<close> holds the definitions a component unfolds in its own
  proofs, \<open>go_inv\<close> the preservation lemmas of its invariant.
\<close>

named_theorems go_defs
named_theorems go_inv

lemma unat_succ: "(n :: 'a::len word) \<noteq> -1 \<Longrightarrow> unat (n + 1) = Suc (unat n)"
  by (simp add: add.commute add_eq_0_iff unatSuc)

lemma less_succ: "(n :: 'a::len word) \<noteq> -1 \<Longrightarrow> n < n + 1"
  by (simp add: word_less_nat_alt unat_succ)

lemma not_le_succ: "(n :: 'a::len word) \<noteq> -1 \<Longrightarrow> m \<le> n \<Longrightarrow> m \<noteq> n + 1"
  using less_succ [of n] by auto

section \<open>Maps\<close>

type_synonym ('k, 'v) gomap = "('k \<times> 'v) list"

abbreviation mget :: "('k, 'v) gomap \<Rightarrow> 'k \<Rightarrow> 'v option" where
  "mget m k \<equiv> map_of m k"

abbreviation mput :: "'k \<Rightarrow> 'v \<Rightarrow> ('k, 'v) gomap \<Rightarrow> ('k, 'v) gomap" where
  "mput k v m \<equiv> AList.update k v m"

abbreviation mdel :: "'k \<Rightarrow> ('k, 'v) gomap \<Rightarrow> ('k, 'v) gomap" where
  "mdel k m \<equiv> AList.delete k m"

abbreviation mlen :: "('k, 'v) gomap \<Rightarrow> nat" where
  "mlen m \<equiv> length m"

definition mhas :: "('k, 'v) gomap \<Rightarrow> 'k \<Rightarrow> bool" where
  "mhas m k = (case map_of m k of None \<Rightarrow> False | Some _ \<Rightarrow> True)"

definition gomap_ok :: "('k, 'v) gomap \<Rightarrow> bool" where
  "gomap_ok m = distinct (map fst m)"

lemma mhas_iff: "mhas m k \<longleftrightarrow> map_of m k \<noteq> None"
  by (simp add: mhas_def split: option.splits)

lemma mhas_dom: "mhas m k \<longleftrightarrow> k \<in> fst ` set m"
  by (simp add: mhas_iff dom_map_of_conv_image_fst [symmetric] domIff)

lemma mget_put: "mget (mput k v m) k' = (if k' = k then Some v else mget m k')"
  by (simp add: update_conv)

lemma mget_del: "mget (mdel k m) k' = (if k' = k then None else mget m k')"
  by (simp add: delete_conv')

lemma mhas_put [simp]: "mhas (mput k v m) k' \<longleftrightarrow> k' = k \<or> mhas m k'"
  by (simp add: mhas_iff mget_put)

lemma mhas_del [simp]: "mhas (mdel k m) k' \<longleftrightarrow> k' \<noteq> k \<and> mhas m k'"
  by (simp add: mhas_iff mget_del)

lemma mhas_Nil [simp]: "\<not> mhas [] k"
  by (simp add: mhas_iff)

lemma gomap_ok_Nil [simp, intro]: "gomap_ok []"
  by (simp add: gomap_ok_def)

lemma gomap_ok_put [simp, intro]: "gomap_ok m \<Longrightarrow> gomap_ok (mput k v m)"
  by (simp add: gomap_ok_def distinct_update)

lemma gomap_ok_del [simp, intro]: "gomap_ok m \<Longrightarrow> gomap_ok (mdel k m)"
  by (simp add: gomap_ok_def distinct_delete)

lemma gomap_ok_filter: "gomap_ok m \<Longrightarrow> gomap_ok (filter P m)"
  by (simp add: gomap_ok_def distinct_map_filter)

lemma mlen_put: "mlen (mput k v m) = (if mhas m k then mlen m else Suc (mlen m))"
  by (induction m) (auto simp: mhas_def)

lemma mlen_put_le: "mlen (mput k v m) \<le> Suc (mlen m)"
  by (simp add: mlen_put)

lemma mlen_put_ge: "mlen m \<le> mlen (mput k v m)"
  by (simp add: mlen_put)

lemma mlen_del_le: "mlen (mdel k m) \<le> mlen m"
  by (rule length_delete_le)

lemma mget_in_set: "gomap_ok m \<Longrightarrow> mget m k = Some v \<longleftrightarrow> (k, v) \<in> set m"
  by (simp add: gomap_ok_def)

lemma set_mdel: "set (mdel k m) = {p \<in> set m. fst p \<noteq> k}"
  by (auto simp: AList.delete_eq)

lemma set_mput:
  "gomap_ok m \<Longrightarrow> set (mput k v m) = insert (k, v) {p \<in> set m. fst p \<noteq> k}"
proof (induction m)
  case Nil
  then show ?case by simp
next
  case (Cons p m)
  have "fst p = k \<Longrightarrow> {q \<in> set m. fst q \<noteq> k} = set m"
    using Cons.prems by (auto simp: gomap_ok_def) (metis fst_conv image_eqI)
  then show ?case
    using Cons by (auto simp: gomap_ok_def)
qed

lemma fst_set_mput: "fst ` set (mput k v m) = insert k (fst ` set m)"
  by (simp add: dom_update)

lemma fst_set_mdel: "fst ` set (mdel k m) = fst ` set m - {k}"
  by (auto simp: set_mdel)

lemma mput_new: "\<not> mhas m k \<Longrightarrow> mput k v m = m @ [(k, v)]"
  by (induction m) (auto simp: mhas_def split: if_splits)

lemma mdel_mput_new: "\<not> mhas m k \<Longrightarrow> mdel k (mput k v m) = m"
  by (simp add: mhas_dom delete_update_same)

lemma gomap_ok_mget_filter:
  "gomap_ok m \<Longrightarrow>
   mget (filter (\<lambda>(k, v). P k v) m) k = (case mget m k of None \<Rightarrow> None
      | Some v \<Rightarrow> if P k v then Some v else None)"
proof (induction m)
  case Nil
  then show ?case by simp
next
  case (Cons p m)
  obtain a b where p: "p = (a, b)" by (cases p)
  have "a = k \<Longrightarrow> map_of m k = None"
    using Cons.prems p by (simp add: gomap_ok_def map_of_eq_None_iff)
  then show ?case
    using Cons p by (auto simp: gomap_ok_def split: option.splits)
qed

section \<open>Buffered channels\<close>

text \<open>
  A \<open>chan T\<close> with a buffer: a non-blocking send (a \<open>select\<close> with a \<open>default\<close>) either
  appends to the buffer or reports that the buffer is full; sending on a closed channel
  and closing one twice are panics.  A receive on a closed channel drains the buffer
  first.
\<close>

datatype go_panic = SendOnClosed | CloseOfClosed

record 'a chan =
  chanCap :: nat
  chanBuf :: "'a list"
  chanClosed :: bool

datatype 'a recv = Received 'a | RecvClosed | WouldBlock

definition make_chan :: "nat \<Rightarrow> 'a chan" where
  "make_chan n = \<lparr>chanCap = n, chanBuf = [], chanClosed = False\<rparr>"

definition chan_try_send :: "'a chan \<Rightarrow> 'a \<Rightarrow> go_panic + (bool \<times> 'a chan)" where
  "chan_try_send c x =
     (if chanClosed c then Inl SendOnClosed
      else if length (chanBuf c) < chanCap c then Inr (True, c\<lparr>chanBuf := chanBuf c @ [x]\<rparr>)
      else Inr (False, c))"

definition chan_close :: "'a chan \<Rightarrow> go_panic + 'a chan" where
  "chan_close c = (if chanClosed c then Inl CloseOfClosed else Inr (c\<lparr>chanClosed := True\<rparr>))"

definition chan_recv :: "'a chan \<Rightarrow> 'a recv \<times> 'a chan" where
  "chan_recv c =
     (case chanBuf c of
        x # xs \<Rightarrow> (Received x, c\<lparr>chanBuf := xs\<rparr>)
      | [] \<Rightarrow> if chanClosed c then (RecvClosed, c) else (WouldBlock, c))"

section \<open>Bounded tables\<close>

text \<open>
  Several components keep a map that an operation may only grow below a fixed limit.
  What they share is proved once: an invariant that gives distinct keys and the bound, and
  that every step keeps, holds throughout a run.
\<close>

locale bounded_table =
  fixes step :: "'s \<Rightarrow> 's \<Rightarrow> bool"
    and inv :: "'s \<Rightarrow> bool"
    and tbl :: "'s \<Rightarrow> ('k, 'v) gomap"
    and limit :: nat
  assumes step_inv: "inv s \<Longrightarrow> step s t \<Longrightarrow> inv t"
    and inv_ok: "inv s \<Longrightarrow> gomap_ok (tbl s)"
    and inv_bound: "inv s \<Longrightarrow> mlen (tbl s) \<le> limit"
begin

lemma run_inv: "step\<^sup>*\<^sup>* s t \<Longrightarrow> inv s \<Longrightarrow> inv t"
  by (induction rule: rtranclp_induct) (auto intro: step_inv)

lemma run_bound: "step\<^sup>*\<^sup>* s t \<Longrightarrow> inv s \<Longrightarrow> mlen (tbl t) \<le> limit"
  using run_inv inv_bound by blast

lemma run_ok: "step\<^sup>*\<^sup>* s t \<Longrightarrow> inv s \<Longrightarrow> gomap_ok (tbl t)"
  using run_inv inv_ok by blast

end

text \<open>A table that no step ever shrinks: once full, it stays full.\<close>

locale growing_table = bounded_table +
  assumes step_grows: "inv s \<Longrightarrow> step s t \<Longrightarrow> mlen (tbl s) \<le> mlen (tbl t)"
begin

lemma run_grows: "step\<^sup>*\<^sup>* s t \<Longrightarrow> inv s \<Longrightarrow> mlen (tbl s) \<le> mlen (tbl t)"
proof (induction rule: rtranclp_induct)
  case base
  then show ?case by simp
next
  case (step t u)
  then have "mlen (tbl t) \<le> mlen (tbl u)"
    using run_inv step_grows by blast
  with step show ?case by simp
qed

lemma full_stays_full:
  assumes "step\<^sup>*\<^sup>* s t" and "inv s" and "mlen (tbl s) = limit"
  shows "mlen (tbl t) = limit"
  using run_grows [OF assms(1,2)] run_bound [OF assms(1,2)] assms(3) by simp

end

end
