(* ===== verification/Go_Text.thy ===== *)
theory Go_Text
  imports Go_Prelude
begin

text \<open>
  The parts of Go's \<open>strings\<close>, \<open>strconv\<close>, \<open>unicode/utf8\<close>, \<open>encoding/base64\<close> and
  \<open>time\<close> packages the program relies on.  A Go string is a byte sequence: here a
  \<open>char list\<close>, one \<open>char\<close> a byte, compared bytewise.
\<close>

section \<open>Prefixes and suffixes\<close>

definition has_prefix :: "string \<Rightarrow> string \<Rightarrow> bool" where
  "has_prefix s p = (take (length p) s = p)"

definition has_suffix :: "string \<Rightarrow> string \<Rightarrow> bool" where
  "has_suffix s p = (length p \<le> length s \<and> drop (length s - length p) s = p)"

definition trim_prefix :: "string \<Rightarrow> string \<Rightarrow> string" where
  "trim_prefix s p = (if has_prefix s p then drop (length p) s else s)"

definition trim_suffix :: "string \<Rightarrow> string \<Rightarrow> string" where
  "trim_suffix s p = (if has_suffix s p then take (length s - length p) s else s)"

lemma has_prefix_append [simp]: "has_prefix (p @ s) p"
  by (simp add: has_prefix_def)

lemma has_suffix_append [simp]: "has_suffix (s @ p) p"
  by (simp add: has_suffix_def)

lemma trim_prefix_append [simp]: "trim_prefix (p @ s) p = s"
  by (simp add: trim_prefix_def)

lemma trim_suffix_append [simp]: "trim_suffix (s @ p) p = s"
  by (simp add: trim_suffix_def)

lemma has_prefixE: "has_prefix s p \<Longrightarrow> \<exists>r. s = p @ r"
  by (metis append_take_drop_id has_prefix_def)

lemma has_suffixE: "has_suffix s p \<Longrightarrow> \<exists>r. s = r @ p"
  by (metis append_take_drop_id has_suffix_def)

section \<open>Character classes\<close>

abbreviation byte_of :: "char \<Rightarrow> nat" where
  "byte_of c \<equiv> of_char c"

definition is_digit :: "char \<Rightarrow> bool" where
  "is_digit c = (48 \<le> byte_of c \<and> byte_of c \<le> 57)"

definition is_lower :: "char \<Rightarrow> bool" where
  "is_lower c = (97 \<le> byte_of c \<and> byte_of c \<le> 122)"

definition is_upper :: "char \<Rightarrow> bool" where
  "is_upper c = (65 \<le> byte_of c \<and> byte_of c \<le> 90)"

definition is_alnum :: "char \<Rightarrow> bool" where
  "is_alnum c = (is_digit c \<or> is_lower c \<or> is_upper c)"

section \<open>Decimal numbers\<close>

definition digit_val :: "char \<Rightarrow> nat" where
  "digit_val c = byte_of c - 48"

definition digit_char :: "nat \<Rightarrow> char" where
  "digit_char d = char_of (48 + d)"

definition dec_val :: "string \<Rightarrow> nat" where
  "dec_val s = foldl (\<lambda>n c. 10 * n + digit_val c) 0 s"

fun nat_to_dec :: "nat \<Rightarrow> string" where
  "nat_to_dec n = (if n < 10 then [digit_char n] else nat_to_dec (n div 10) @ [digit_char (n mod 10)])"

declare nat_to_dec.simps [simp del]

lemma byte_of_digit_char: "d < 10 \<Longrightarrow> byte_of (digit_char d) = 48 + d"
  by (simp add: digit_char_def)

lemma digit_val_char [simp]: "d < 10 \<Longrightarrow> digit_val (digit_char d) = d"
  by (simp add: digit_val_def byte_of_digit_char)

lemma is_digit_char [simp]: "d < 10 \<Longrightarrow> is_digit (digit_char d)"
  by (simp add: is_digit_def byte_of_digit_char)

lemma dec_val_snoc [simp]: "dec_val (s @ [c]) = 10 * dec_val s + digit_val c"
  by (simp add: dec_val_def)

lemma dec_val_Nil [simp]: "dec_val [] = 0"
  by (simp add: dec_val_def)

lemma dec_val_nat_to_dec [simp]: "dec_val (nat_to_dec n) = n"
proof (induction n rule: nat_to_dec.induct)
  case (1 n)
  then show ?case
    using dec_val_snoc [of "[]" "digit_char n"] by (subst nat_to_dec.simps) simp
qed

lemma nat_to_dec_digits: "list_all is_digit (nat_to_dec n)"
proof (induction n rule: nat_to_dec.induct)
  case (1 n)
  then show ?case by (subst nat_to_dec.simps) simp
qed

lemma nat_to_dec_nonempty [simp]: "nat_to_dec n \<noteq> []"
  by (subst nat_to_dec.simps) simp

lemma nat_to_dec_inject [simp]: "nat_to_dec m = nat_to_dec n \<longleftrightarrow> m = n"
  by (metis dec_val_nat_to_dec)

lemma nat_to_dec_length: "0 < k \<Longrightarrow> n < 10 ^ k \<Longrightarrow> length (nat_to_dec n) \<le> k"
proof (induction n arbitrary: k rule: nat_to_dec.induct)
  case (1 n)
  show ?case
  proof (cases "n < 10")
    case True
    then show ?thesis using "1.prems" by (subst nat_to_dec.simps) simp
  next
    case False
    with "1.prems" obtain j where k: "k = Suc j" "0 < j"
      by (cases k; cases "k - 1") auto
    have "n div 10 < 10 ^ j"
      using "1.prems" k by (simp add: less_mult_imp_div_less mult.commute)
    with "1.IH" [OF False k(2)] have "length (nat_to_dec (n div 10)) \<le> j" .
    then show ?thesis using False k by (subst nat_to_dec.simps) simp
  qed
qed

text \<open>\<open>strconv.ParseUint(value, 10, 32)\<close>.\<close>

definition parse_uint32 :: "string \<Rightarrow> u32 option" where
  "parse_uint32 s =
     (if s \<noteq> [] \<and> list_all is_digit s \<and> dec_val s < 2 ^ 32
      then Some (word_of_nat (dec_val s)) else None)"

text \<open>\<open>strconv.ParseInt(value, 10, 64)\<close>: an optional sign, digits, the int64 range.\<close>

definition parse_int64 :: "string \<Rightarrow> int option" where
  "parse_int64 s =
     (let neg = (s \<noteq> [] \<and> hd s = CHR ''-'');
          ds = (if s \<noteq> [] \<and> (hd s = CHR ''-'' \<or> hd s = CHR ''+'') then tl s else s);
          n = int (dec_val ds)
      in if ds = [] \<or> \<not> list_all is_digit ds then None
         else if neg then (if n \<le> 2 ^ 63 then Some (- n) else None)
         else (if n < 2 ^ 63 then Some n else None))"

text \<open>Decimal printing of an int64 and of an unsigned word.\<close>

definition int_to_dec :: "int \<Rightarrow> string" where
  "int_to_dec i = (if i < 0 then CHR ''-'' # nat_to_dec (nat (- i)) else nat_to_dec (nat i))"

definition word_to_dec :: "'a::len word \<Rightarrow> string" where
  "word_to_dec w = nat_to_dec (unat w)"

lemma word_to_dec_inject [simp]: "word_to_dec (v :: 'a::len word) = word_to_dec w \<longleftrightarrow> v = w"
  by (simp add: word_to_dec_def word_unat_eq_iff)

lemma parse_uint32_word_to_dec [simp]: "parse_uint32 (word_to_dec (w :: u32)) = Some w"
  using unsigned_less [of w, where 'a = nat] by (simp add: parse_uint32_def word_to_dec_def nat_to_dec_digits)

section \<open>Base64URL without padding\<close>

text \<open>
  \<open>base64.RawURLEncoding\<close>.  The decoder skips CR and LF and does not check that the
  unused low bits of the last symbol are zero, so a string is canonical only if encoding
  what it decodes to gives it back, which is what the program checks.
\<close>

definition b64_char :: "nat \<Rightarrow> char" where
  "b64_char n =
     (if n < 26 then char_of (65 + n)
      else if n < 52 then char_of (71 + n)
      else if n < 62 then char_of (n - 4)
      else if n = 62 then CHR ''-''
      else CHR ''_'')"

definition b64_val :: "char \<Rightarrow> nat option" where
  "b64_val c =
     (if is_upper c then Some (byte_of c - 65)
      else if is_lower c then Some (byte_of c - 71)
      else if is_digit c then Some (byte_of c + 4)
      else if c = CHR ''-'' then Some 62
      else if c = CHR ''_'' then Some 63
      else None)"

fun b64_encode :: "string \<Rightarrow> string" where
  "b64_encode [] = []"
| "b64_encode [a] =
     (let x = byte_of a in [b64_char (x div 4), b64_char (x mod 4 * 16)])"
| "b64_encode [a, b] =
     (let x = byte_of a; y = byte_of b
      in [b64_char (x div 4), b64_char (x mod 4 * 16 + y div 16), b64_char (y mod 16 * 4)])"
| "b64_encode (a # b # c # r) =
     (let x = byte_of a; y = byte_of b; z = byte_of c
      in b64_char (x div 4) # b64_char (x mod 4 * 16 + y div 16)
         # b64_char (y mod 16 * 4 + z div 64) # b64_char (z mod 64) # b64_encode r)"

fun b64_decode_groups :: "nat list \<Rightarrow> string option" where
  "b64_decode_groups [] = Some []"
| "b64_decode_groups [_] = None"
| "b64_decode_groups [p, q] = Some [char_of (p * 4 + q div 16)]"
| "b64_decode_groups [p, q, r] =
     Some [char_of (p * 4 + q div 16), char_of (q mod 16 * 16 + r div 4)]"
| "b64_decode_groups (p # q # r # s # rest) =
     (case b64_decode_groups rest of None \<Rightarrow> None
      | Some bs \<Rightarrow> Some (char_of (p * 4 + q div 16) # char_of (q mod 16 * 16 + r div 4)
                        # char_of (r mod 4 * 64 + s) # bs))"

fun b64_vals :: "string \<Rightarrow> nat list option" where
  "b64_vals [] = Some []"
| "b64_vals (c # cs) =
     (case b64_val c of None \<Rightarrow> None
      | Some v \<Rightarrow> (case b64_vals cs of None \<Rightarrow> None | Some vs \<Rightarrow> Some (v # vs)))"

definition b64_decode :: "string \<Rightarrow> string option" where
  "b64_decode s =
     (case b64_vals (filter (\<lambda>c. byte_of c \<noteq> 10 \<and> byte_of c \<noteq> 13) s) of
        None \<Rightarrow> None
      | Some vs \<Rightarrow> b64_decode_groups vs)"

text \<open>The check the program makes of an identifier: it is the encoding of \<open>n\<close> bytes.\<close>

definition b64_canonical :: "nat \<Rightarrow> string \<Rightarrow> bool" where
  "b64_canonical n s =
     (case b64_decode s of None \<Rightarrow> False
      | Some bs \<Rightarrow> length bs = n \<and> b64_encode bs = s)"

lemma b64_char_val [simp]: "n < 64 \<Longrightarrow> b64_val (b64_char n) = Some n"
  by (auto simp: b64_val_def b64_char_def is_upper_def is_lower_def is_digit_def)

lemma b64_char_not_eol: "n < 64 \<Longrightarrow> byte_of (b64_char n) \<noteq> 10 \<and> byte_of (b64_char n) \<noteq> 13"
  by (auto simp: b64_char_def)

lemma mult_add_div: "r < m \<Longrightarrow> (q * m + r) div m = (q :: nat)"
  by simp

lemma mult_add_mod: "r < m \<Longrightarrow> (q * m + r) mod m = (r :: nat)"
  by simp

lemma byte_div_less:
  fixes c :: char
  shows "byte_of c div 4 < 64" "byte_of c div 16 < 16" "byte_of c div 64 < 4"
  using nat_of_char_less_256 [of c] by (simp_all add: less_mult_imp_div_less)

lemma mod_mult_add_less:
  "q < k \<Longrightarrow> r < m \<Longrightarrow> k * m = l \<Longrightarrow> q * m + r < (l :: nat)"
proof -
  assume q: "q < k" and r: "r < m" and l: "k * m = l"
  have "q * m + r < Suc q * m" using r by simp
  also have "\<dots> \<le> k * m" using q by (intro mult_le_mono1) simp
  finally show ?thesis using l by simp
qed

lemma byte_join_less:
  fixes c d :: char
  shows "byte_of c mod 4 * 16 < 64" "byte_of c mod 16 * 4 < 64"
    "byte_of c mod 4 * 16 + byte_of d div 16 < 64"
    "byte_of c mod 16 * 4 + byte_of d div 64 < 64"
  using mod_mult_add_less [of "byte_of c mod 4" 4 0 16 64]
    mod_mult_add_less [of "byte_of c mod 16" 16 0 4 64]
    mod_mult_add_less [of "byte_of c mod 4" 4 "byte_of d div 16" 16 64]
    mod_mult_add_less [of "byte_of c mod 16" 16 "byte_of d div 64" 4 64]
  by (simp_all add: byte_div_less)

text \<open>What the encoder writes is within the alphabet, so the decoder reads it back.\<close>

fun b64_groups :: "string \<Rightarrow> nat list" where
  "b64_groups [] = []"
| "b64_groups [a] = [byte_of a div 4, byte_of a mod 4 * 16]"
| "b64_groups [a, b] =
     [byte_of a div 4, byte_of a mod 4 * 16 + byte_of b div 16, byte_of b mod 16 * 4]"
| "b64_groups (a # b # c # r) =
     [byte_of a div 4, byte_of a mod 4 * 16 + byte_of b div 16,
      byte_of b mod 16 * 4 + byte_of c div 64, byte_of c mod 64] @ b64_groups r"

lemma b64_encode_groups: "b64_encode bs = map b64_char (b64_groups bs)"
  by (induction bs rule: b64_encode.induct) (simp_all add: Let_def)

lemma b64_groups_bound: "n \<in> set (b64_groups bs) \<Longrightarrow> n < 64"
  by (induction bs rule: b64_groups.induct) (auto simp: byte_div_less byte_join_less)

lemma b64_vals_map: "(\<And>n. n \<in> set ns \<Longrightarrow> n < 64) \<Longrightarrow> b64_vals (map b64_char ns) = Some ns"
  by (induction ns) auto

lemma byte_join:
  fixes a b c :: char
  shows "char_of (byte_of a div 4 * 4 + (byte_of a mod 4 * 16) div 16) = a"
    "char_of (byte_of a div 4 * 4 + (byte_of a mod 4 * 16 + byte_of b div 16) div 16) = a"
    "char_of ((byte_of a mod 4 * 16 + byte_of b div 16) mod 16 * 16 + (byte_of b mod 16 * 4) div 4) = b"
    "char_of ((byte_of a mod 4 * 16 + byte_of b div 16) mod 16 * 16
       + (byte_of b mod 16 * 4 + byte_of c div 64) div 4) = b"
    "char_of ((byte_of b mod 16 * 4 + byte_of c div 64) mod 4 * 64 + byte_of c mod 64) = c"
  by (simp_all only: mult_add_div mult_add_mod byte_div_less div_mult_mod_eq char_of_char
      div_mult_self_is_m zero_less_numeral)

lemma b64_decode_groups_groups: "b64_decode_groups (b64_groups bs) = Some bs"
  by (induction bs rule: b64_groups.induct)
    (simp_all only: b64_groups.simps b64_decode_groups.simps byte_join option.case
      append_Cons append_Nil)

lemma b64_decode_encode [simp]: "b64_decode (b64_encode bs) = Some bs"
proof -
  have "filter (\<lambda>c. byte_of c \<noteq> 10 \<and> byte_of c \<noteq> 13) (b64_encode bs) = b64_encode bs"
    by (rule filter_True) (auto simp: b64_encode_groups dest: b64_groups_bound b64_char_not_eol)
  then show ?thesis
    by (simp add: b64_decode_def b64_encode_groups b64_vals_map [OF b64_groups_bound]
        b64_decode_groups_groups)
qed

lemma b64_canonical_iff: "b64_canonical n s \<longleftrightarrow> (\<exists>bs. length bs = n \<and> s = b64_encode bs)"
  by (auto simp: b64_canonical_def split: option.splits)

lemma b64_encode_inject [simp]: "b64_encode bs = b64_encode cs \<longleftrightarrow> bs = cs"
  by (metis b64_decode_encode option.inject)

lemma length_b64_encode: "length (b64_encode bs) = (4 * length bs + 2) div 3"
  by (induction bs rule: b64_encode.induct) (simp_all add: Let_def)

end
