(* ===== verification/Go_Unicode.thy ===== *)
theory Go_Unicode
  imports Go_Text
begin

text \<open>
  UTF-8 as \<open>unicode/utf8\<close> reads it, \<open>strings.TrimSpace\<close>, and \<open>time.Parse\<close> with the
  RFC 3339 layout.
\<close>

section \<open>UTF-8\<close>

text \<open>
  The size of the rune at the head of a string and whether it is well formed: a byte
  that starts no valid sequence counts as one (invalid) rune of one byte.
\<close>

definition in_range :: "nat \<Rightarrow> nat \<Rightarrow> char \<Rightarrow> bool" where
  "in_range lo hi c = (lo \<le> byte_of c \<and> byte_of c \<le> hi)"

abbreviation is_cont :: "char \<Rightarrow> bool" where
  "is_cont \<equiv> in_range 128 191"

text \<open>The range of the second byte for each first byte of a three or four byte sequence.\<close>

definition second_ok :: "char \<Rightarrow> char \<Rightarrow> bool" where
  "second_ok a b =
     (if byte_of a = 224 then in_range 160 191 b
      else if byte_of a = 237 then in_range 128 159 b
      else if byte_of a = 240 then in_range 144 191 b
      else if byte_of a = 244 then in_range 128 143 b
      else is_cont b)"

fun rune_head :: "string \<Rightarrow> nat \<times> bool" where
  "rune_head [] = (0, False)"
| "rune_head (a # s) =
     (if byte_of a < 128 then (1, True)
      else if in_range 194 223 a then
        (case s of b # _ \<Rightarrow> if is_cont b then (2, True) else (1, False) | _ \<Rightarrow> (1, False))
      else if in_range 224 239 a then
        (case s of b # c # _ \<Rightarrow> if second_ok a b \<and> is_cont c then (3, True) else (1, False)
         | _ \<Rightarrow> (1, False))
      else if in_range 240 244 a then
        (case s of b # c # d # _ \<Rightarrow>
           if second_ok a b \<and> is_cont c \<and> is_cont d then (4, True) else (1, False)
         | _ \<Rightarrow> (1, False))
      else (1, False))"

lemma rune_head_size: "s \<noteq> [] \<Longrightarrow> 1 \<le> fst (rune_head s) \<and> fst (rune_head s) \<le> 4
    \<and> fst (rune_head s) \<le> length s"
  by (cases s) (auto split: list.splits)

text \<open>\<open>utf8.RuneCountInString\<close> and \<open>utf8.Valid\<close>.\<close>

function rune_count :: "string \<Rightarrow> nat" where
  "rune_count s = (if s = [] then 0 else Suc (rune_count (drop (fst (rune_head s)) s)))"
  by pat_completeness auto
termination
  by (relation "measure length") (use rune_head_size in \<open>fastforce simp: less_eq_Suc_le\<close>)+

function utf8_valid :: "string \<Rightarrow> bool" where
  "utf8_valid s = (if s = [] then True
     else snd (rune_head s) \<and> utf8_valid (drop (fst (rune_head s)) s))"
  by pat_completeness auto
termination
  by (relation "measure length") (use rune_head_size in \<open>fastforce simp: less_eq_Suc_le\<close>)+

declare rune_count.simps [simp del] utf8_valid.simps [simp del]

lemma rune_count_bounds: "rune_count s \<le> length s \<and> length s \<le> 4 * rune_count s"
proof (induction s rule: rune_count.induct)
  case (1 s)
  show ?case
  proof (cases "s = []")
    case True
    then show ?thesis by (simp add: rune_count.simps)
  next
    case False
    let ?n = "fst (rune_head s)"
    from False rune_head_size have n: "1 \<le> ?n" "?n \<le> 4" "?n \<le> length s" by blast+
    from "1.IH" [OF False] n False show ?thesis
      by (simp add: rune_count.simps [of s]) arith
  qed
qed

lemma rune_count_eq_0 [simp]: "rune_count s = 0 \<longleftrightarrow> s = []"
  by (subst rune_count.simps) simp

lemma ascii_rune_count: "list_all (\<lambda>c. byte_of c < 128) s \<Longrightarrow> rune_count s = length s"
  by (induction s) (simp_all add: rune_count.simps)

lemma ascii_utf8_valid: "list_all (\<lambda>c. byte_of c < 128) s \<Longrightarrow> utf8_valid s"
  by (induction s) (simp_all add: utf8_valid.simps)

section \<open>White space\<close>

text \<open>
  The encodings of the runes \<open>unicode.IsSpace\<close> accepts.  No encoding is a suffix or
  prefix of another, so trimming runes is trimming these byte sequences.
\<close>

definition space_seqs :: "string list" where
  "space_seqs = map (map char_of)
     ([[9], [10], [11], [12], [13], [32], [194, 133], [194, 160], [225, 154, 128]]
      @ map (\<lambda>n. [226, 128, n]) [128..<139]
      @ [[226, 128, 168], [226, 128, 169], [226, 128, 175], [226, 129, 159],
         [227, 128, 128 :: nat]])"

lemma space_seqs_nonempty: "p \<in> set space_seqs \<Longrightarrow> p \<noteq> []"
  by (auto simp: space_seqs_def)

function trim_left_space :: "string \<Rightarrow> string" where
  "trim_left_space s =
     (case find (\<lambda>p. has_prefix s p) space_seqs of
        None \<Rightarrow> s
      | Some p \<Rightarrow> trim_left_space (drop (length p) s))"
  by pat_completeness auto
termination
proof (relation "measure length", simp)
  fix s p
  assume "find (has_prefix s) space_seqs = Some p"
  then have "p \<in> set space_seqs" and pre: "has_prefix s p"
    by (auto simp: find_Some_iff)
  then have "p \<noteq> []" by (simp add: space_seqs_nonempty)
  with has_prefixE [OF pre] show "(drop (length p) s, s) \<in> measure length" by auto
qed

function trim_right_space :: "string \<Rightarrow> string" where
  "trim_right_space s =
     (case find (\<lambda>p. has_suffix s p) space_seqs of
        None \<Rightarrow> s
      | Some p \<Rightarrow> trim_right_space (take (length s - length p) s))"
  by pat_completeness auto
termination
proof (relation "measure length", simp)
  fix s p
  assume "find (has_suffix s) space_seqs = Some p"
  then have "p \<in> set space_seqs" and pre: "has_suffix s p"
    by (auto simp: find_Some_iff)
  then have "p \<noteq> []" by (simp add: space_seqs_nonempty)
  with has_suffixE [OF pre] show "(take (length s - length p) s, s) \<in> measure length" by auto
qed

declare trim_left_space.simps [simp del] trim_right_space.simps [simp del]

definition trim_space :: "string \<Rightarrow> string" where
  "trim_space s = trim_right_space (trim_left_space s)"

lemma trim_space_Nil [simp]: "trim_space [] = []"
proof -
  have l: "find (has_prefix []) space_seqs = None" and r: "find (has_suffix []) space_seqs = None"
    using space_seqs_nonempty by (auto simp: find_None_iff has_prefix_def has_suffix_def)
  show ?thesis
    by (simp add: trim_space_def trim_left_space.simps [of "[]"] trim_right_space.simps [of "[]"] l r)
qed

text \<open>Text that starts and ends with a visible ASCII character is not trimmed.\<close>

definition visible :: "char \<Rightarrow> bool" where
  "visible c = (32 < byte_of c \<and> byte_of c < 127)"

lemma space_seqs_invisible: "p \<in> set space_seqs \<Longrightarrow> \<not> visible (hd p) \<and> \<not> visible (last p)"
  by (auto simp: space_seqs_def visible_def)

lemma trim_space_visible:
  assumes "s \<noteq> []" and "visible (hd s)" and "visible (last s)"
  shows "trim_space s = s"
proof -
  have "\<not> has_prefix s p \<and> \<not> has_suffix s p" if p: "p \<in> set space_seqs" for p
  proof -
    have ne: "p \<noteq> []" using p by (rule space_seqs_nonempty)
    have "hd p = hd s" if "has_prefix s p" using has_prefixE [OF that] ne by auto
    moreover have "last p = last s" if "has_suffix s p" using has_suffixE [OF that] ne by auto
    ultimately show ?thesis using space_seqs_invisible [OF p] assms(2,3) by auto
  qed
  then have "find (has_prefix s) space_seqs = None" "find (has_suffix s) space_seqs = None"
    by (auto simp: find_None_iff)
  then show ?thesis
    by (simp add: trim_space_def trim_left_space.simps [of s] trim_right_space.simps [of s])
qed

section \<open>RFC 3339 timestamps\<close>

text \<open>
  \<open>time.Parse(time.RFC3339, value)\<close>, as far as the program looks at its result: whether
  it succeeds and the zone offset in seconds.  The parser is lenient where Go's is: the
  hour may have one digit, the fraction of a second may follow a comma, and an offset may
  be as large as 24:60.
\<close>

definition leap_year :: "nat \<Rightarrow> bool" where
  "leap_year y = (y mod 4 = 0 \<and> (y mod 100 \<noteq> 0 \<or> y mod 400 = 0))"

definition days_in :: "nat \<Rightarrow> nat \<Rightarrow> nat" where
  "days_in m y = (if m = 2 then (if leap_year y then 29 else 28)
     else if m \<in> {4, 6, 9, 11} then 30 else 31)"

definition take_digits :: "nat \<Rightarrow> string \<Rightarrow> (nat \<times> string) option" where
  "take_digits n s =
     (if n \<le> length s \<and> list_all is_digit (take n s) then Some (dec_val (take n s), drop n s)
      else None)"

definition take_char :: "char \<Rightarrow> string \<Rightarrow> string option" where
  "take_char c s = (case s of x # r \<Rightarrow> if x = c then Some r else None | [] \<Rightarrow> None)"

text \<open>\<open>getnum(value, false)\<close>: two digits, or one when no second digit follows.\<close>

definition take_hour :: "string \<Rightarrow> (nat \<times> string) option" where
  "take_hour s = (case take_digits 2 s of Some r \<Rightarrow> Some r | None \<Rightarrow> take_digits 1 s)"

definition skip_fraction :: "string \<Rightarrow> string" where
  "skip_fraction s =
     (case s of
        c # d # r \<Rightarrow> if (c = CHR ''.'' \<or> c = CHR '','') \<and> is_digit d
                     then dropWhile is_digit r else s
      | _ \<Rightarrow> s)"

definition parse_zone :: "string \<Rightarrow> int option" where
  "parse_zone s =
     (if s = ''Z'' then Some 0
      else case s of
        [sg, h1, h2, col, m1, m2] \<Rightarrow>
          if col = CHR '':'' \<and> (sg = CHR ''+'' \<or> sg = CHR ''-'') \<and> list_all is_digit [h1, h2, m1, m2]
             \<and> dec_val [h1, h2] \<le> 24 \<and> dec_val [m1, m2] \<le> 60
          then let off = int ((dec_val [h1, h2] * 60 + dec_val [m1, m2]) * 60)
               in Some (if sg = CHR ''-'' then - off else off)
          else None
      | _ \<Rightarrow> None)"

definition parse_rfc3339_offset :: "string \<Rightarrow> int option" where
  "parse_rfc3339_offset s =
     Option.bind (take_digits 4 s) (\<lambda>(year, s).
     Option.bind (take_char (CHR ''-'') s) (\<lambda>s.
     Option.bind (take_digits 2 s) (\<lambda>(month, s).
     if month = 0 \<or> 12 < month then None else
     Option.bind (take_char (CHR ''-'') s) (\<lambda>s.
     Option.bind (take_digits 2 s) (\<lambda>(day, s).
     Option.bind (take_char (CHR ''T'') s) (\<lambda>s.
     Option.bind (take_hour s) (\<lambda>(hour, s).
     if 24 \<le> hour then None else
     Option.bind (take_char (CHR '':'') s) (\<lambda>s.
     Option.bind (take_digits 2 s) (\<lambda>(minute, s).
     if 60 \<le> minute then None else
     Option.bind (take_char (CHR '':'') s) (\<lambda>s.
     Option.bind (take_digits 2 s) (\<lambda>(second, s).
     if 60 \<le> second then None else
     Option.bind (parse_zone (skip_fraction s)) (\<lambda>off.
     if day < 1 \<or> days_in month year < day then None else Some off))))))))))))"

end
