(* ===== verification/Go_Json.thy ===== *)
theory Go_Json
  imports Go_Unicode
begin

text \<open>
  \<open>encoding/json\<close> (Go 1.22) as the program uses it: string literals, the grammar with
  the decoder's depth limit, and the compact encoder of \<open>json.Marshal\<close>.  A value keeps the
  members of an object in order with their duplicates, and a number as its literal.
\<close>

section \<open>String literals\<close>

abbreviation dquote :: char where
  "dquote \<equiv> CHR 0x22"

abbreviation bslash :: char where
  "bslash \<equiv> CHR 0x5C"

abbreviation bytes_of :: "nat list \<Rightarrow> string" where
  "bytes_of ns \<equiv> map char_of ns"

text \<open>\<open>utf8.EncodeRune\<close>: a surrogate or a value out of range is the replacement rune.\<close>

definition encode_rune :: "nat \<Rightarrow> string" where
  "encode_rune r =
     (if r < 128 then bytes_of [r]
      else if r < 2048 then bytes_of [192 + r div 64, 128 + r mod 64]
      else if (55296 \<le> r \<and> r < 57344) \<or> 1114111 < r then bytes_of [239, 191, 189]
      else if r < 65536 then bytes_of [224 + r div 4096, 128 + r div 64 mod 64, 128 + r mod 64]
      else bytes_of [240 + r div 262144, 128 + r div 4096 mod 64, 128 + r div 64 mod 64, 128 + r mod 64])"

definition replacement_rune :: nat where
  "replacement_rune = 65533"

definition hex_val :: "char \<Rightarrow> nat option" where
  "hex_val c =
     (if is_digit c then Some (byte_of c - 48)
      else if 97 \<le> byte_of c \<and> byte_of c \<le> 102 then Some (byte_of c - 87)
      else if 65 \<le> byte_of c \<and> byte_of c \<le> 70 then Some (byte_of c - 55)
      else None)"

definition hex_digit :: "nat \<Rightarrow> char" where
  "hex_digit n = (if n < 10 then char_of (48 + n) else char_of (87 + n))"

text \<open>\<open>getu4\<close>: a \<open>\u\<close> escape with four hexadecimal digits at the head.\<close>

fun getu4 :: "string \<Rightarrow> nat option" where
  "getu4 (b # u # c1 # c2 # c3 # c4 # _) =
     (if b = bslash \<and> u = CHR ''u'' then
        (case (hex_val c1, hex_val c2, hex_val c3, hex_val c4) of
           (Some h1, Some h2, Some h3, Some h4) \<Rightarrow> Some (4096 * h1 + 256 * h2 + 16 * h3 + h4)
         | _ \<Rightarrow> None)
      else None)"
| "getu4 _ = None"

definition is_surrogate :: "nat \<Rightarrow> bool" where
  "is_surrogate r = (55296 \<le> r \<and> r < 57344)"

text \<open>\<open>utf16.DecodeRune\<close> on a pair of surrogates, \<open>None\<close> where it is not one.\<close>

definition surrogate_pair :: "nat \<Rightarrow> nat option \<Rightarrow> nat option" where
  "surrogate_pair r1 r2 =
     (case r2 of None \<Rightarrow> None
      | Some r2 \<Rightarrow>
          if 55296 \<le> r1 \<and> r1 < 56320 \<and> 56320 \<le> r2 \<and> r2 < 57344
          then Some ((r1 - 55296) * 1024 + (r2 - 56320) + 65536) else None)"

definition short_escape :: "char \<Rightarrow> char option" where
  "short_escape e =
     (if e = dquote \<or> e = bslash \<or> e = CHR ''/'' then Some e
      else if e = CHR ''b'' then Some CHR 0x08
      else if e = CHR ''f'' then Some CHR 0x0C
      else if e = CHR ''n'' then Some CHR 0x0A
      else if e = CHR ''r'' then Some CHR 0x0D
      else if e = CHR ''t'' then Some CHR 0x09
      else None)"

text \<open>
  The inside of a string literal up to and with its closing quote: the decoded bytes and
  what follows.
\<close>

function unquote :: "string \<Rightarrow> (string \<times> string) option" where
  "unquote [] = None"
| "unquote (c # s) =
     (if c = dquote then Some ([], s)
      else if byte_of c < 32 then None
      else if c = bslash then
        (case getu4 (c # s) of
           Some r \<Rightarrow>
             if is_surrogate r then
               (case surrogate_pair r (getu4 (drop 5 s)) of
                  Some r' \<Rightarrow> map_option (\<lambda>(x, t). (encode_rune r' @ x, t)) (unquote (drop 11 s))
                | None \<Rightarrow> map_option (\<lambda>(x, t). (encode_rune replacement_rune @ x, t)) (unquote (drop 5 s)))
             else map_option (\<lambda>(x, t). (encode_rune r @ x, t)) (unquote (drop 5 s))
         | None \<Rightarrow>
             (case s of [] \<Rightarrow> None
              | e # s' \<Rightarrow>
                  (case short_escape e of None \<Rightarrow> None
                   | Some d \<Rightarrow> map_option (\<lambda>(x, t). (d # x, t)) (unquote s'))))
      else if byte_of c < 128 then map_option (\<lambda>(x, t). (c # x, t)) (unquote s)
      else (case rune_head (c # s) of
              (n, ok) \<Rightarrow>
                map_option (\<lambda>(x, t). ((if ok then take n (c # s) else encode_rune replacement_rune) @ x, t))
                  (unquote (drop (n - 1) s))))"
  by pat_completeness auto
termination
  by (relation "measure length") auto

declare unquote.simps(2) [simp del] rune_head.simps(2) [simp del]

lemma unquote_less: "unquote s = Some (x, t) \<Longrightarrow> length t < length s"
proof (induction s arbitrary: x t rule: length_induct)
  case (1 s)
  show ?case
  proof (cases s)
    case (Cons c s')
    have IH: "length t < Suc (length s')" if "unquote (drop n s') = Some (y, t)" for n y
    proof -
      have "length (drop n s') < length s" using Cons by simp
      with 1(1) that have "length t < length (drop n s')" by blast
      then show ?thesis by simp
    qed
    from 1(2) [unfolded Cons unquote.simps(2)] show ?thesis
      using IH [of 0] IH [of 1]
      by (auto simp: Cons split: if_splits option.splits list.splits prod.splits dest: IH)
  qed (use 1 in simp)
qed

text \<open>The escapes \<open>json.Marshal\<close> writes, HTML escapes included.\<close>

definition escape_ascii :: "char \<Rightarrow> string" where
  "escape_ascii c =
     (if c = bslash \<or> c = dquote then [bslash, c]
      else if c = CHR 0x08 then [bslash, CHR ''b'']
      else if c = CHR 0x0C then [bslash, CHR ''f'']
      else if c = CHR 0x0A then [bslash, CHR ''n'']
      else if c = CHR 0x0D then [bslash, CHR ''r'']
      else if c = CHR 0x09 then [bslash, CHR ''t'']
      else if byte_of c < 32 \<or> c = CHR ''<'' \<or> c = CHR ''>'' \<or> c = CHR ''&''
        then [bslash, CHR ''u'', CHR ''0'', CHR ''0'', hex_digit (byte_of c div 16), hex_digit (byte_of c mod 16)]
      else [c])"

function escape :: "string \<Rightarrow> string" where
  "escape [] = []"
| "escape (c # s) =
     (if byte_of c < 128 then escape_ascii c @ escape s
      else (case rune_head (c # s) of
              (n, ok) \<Rightarrow>
                (if \<not> ok then bslash # ''ufffd''
                 else if take n (c # s) = bytes_of [226, 128, 168] then bslash # ''u2028''
                 else if take n (c # s) = bytes_of [226, 128, 169] then bslash # ''u2029''
                 else take n (c # s)) @ escape (drop (n - 1) s)))"
  by pat_completeness auto
termination
  by (relation "measure length") auto

declare escape.simps(2) [simp del]

definition quote_string :: "string \<Rightarrow> string" where
  "quote_string s = dquote # escape s @ [dquote]"

text \<open>Decoding undoes encoding, on valid UTF-8.\<close>

lemma hex_digit_val: "n < 16 \<Longrightarrow> hex_val (hex_digit n) = Some n"
  by (cases "n < 10") (auto simp: hex_digit_def hex_val_def is_digit_def)

lemma unquote_char:
  "byte_of c < 128 \<Longrightarrow> \<not> byte_of c < 32 \<Longrightarrow> c \<noteq> dquote \<Longrightarrow> c \<noteq> bslash \<Longrightarrow>
   unquote (c # r) = map_option (\<lambda>(x, t). (c # x, t)) (unquote r)"
  by (simp add: unquote.simps(2))

lemma unquote_short:
  "short_escape e = Some d \<Longrightarrow>
   unquote (bslash # e # r) = map_option (\<lambda>(x, t). (d # x, t)) (unquote r)"
proof -
  assume e: "short_escape e = Some d"
  then have "e \<noteq> CHR ''u''" by (auto simp: short_escape_def)
  then have "getu4 (bslash # e # r) = None"
    by (cases "(bslash # e # r)" rule: getu4.cases) auto
  with e show ?thesis by (simp add: unquote.simps(2))
qed

lemma unquote_u4:
  "getu4 (bslash # CHR ''u'' # a # b # c # d # r) = Some v \<Longrightarrow> \<not> is_surrogate v \<Longrightarrow>
   unquote (bslash # CHR ''u'' # a # b # c # d # r)
   = map_option (\<lambda>(x, t). (encode_rune v @ x, t)) (unquote r)"
  by (simp only: unquote.simps(2)) simp

lemma unquote_escape_ascii:
  assumes "byte_of c < 128"
  shows "unquote (escape_ascii c @ r) = map_option (\<lambda>(x, t). (c # x, t)) (unquote r)"
proof (cases "byte_of c < 32 \<or> c = CHR ''<'' \<or> c = CHR ''>'' \<or> c = CHR ''&''")
  case True
  have ne: "c \<noteq> bslash" "c \<noteq> dquote" using True by auto
  let ?h = "hex_digit (byte_of c div 16)" and ?l = "hex_digit (byte_of c mod 16)"
  have "byte_of c div 16 < 16" "byte_of c mod 16 < 16" using assms by simp_all
  then have "getu4 (bslash # CHR ''u'' # CHR ''0'' # CHR ''0'' # ?h # ?l # r) = Some (byte_of c)"
    by (simp add: hex_digit_val) (simp add: hex_val_def is_digit_def)
  moreover have "\<not> is_surrogate (byte_of c)" using assms by (simp add: is_surrogate_def)
  moreover have "encode_rune (byte_of c) = [c]" using assms by (simp add: encode_rune_def)
  ultimately have u: "unquote (bslash # CHR ''u'' # CHR ''0'' # CHR ''0'' # ?h # ?l # r)
      = map_option (\<lambda>(x, t). (c # x, t)) (unquote r)"
    by (simp add: unquote_u4)
  show ?thesis
    using True ne u by (auto simp: escape_ascii_def unquote_short short_escape_def)
next
  case False
  then show ?thesis
    using assms by (auto simp: escape_ascii_def unquote_short unquote_char short_escape_def)
qed

lemma rune_head_take:
  "rune_head s = (n, True) \<Longrightarrow> rune_head (take n s @ r) = (n, True)"
  by (cases s) (auto simp: rune_head.simps(2) split: list.splits if_splits)

lemma rune_head_multi:
  "rune_head (c # s) = (n, True) \<Longrightarrow> \<not> byte_of c < 128 \<Longrightarrow> 2 \<le> n \<and> n \<le> length (c # s)"
  by (auto simp: rune_head.simps(2) split: list.splits if_splits)

lemma unquote_rune:
  assumes "rune_head (c # s) = (n, True)" and "\<not> byte_of c < 128"
  shows "unquote (take n (c # s) @ r) = map_option (\<lambda>(x, t). (take n (c # s) @ x, t)) (unquote r)"
proof -
  from rune_head_multi [OF assms] obtain m where n: "n = Suc m" "m \<le> length s"
    by (cases n) auto
  have h: "rune_head (c # take m s @ r) = (Suc m, True)"
    using rune_head_take [OF assms(1), of r] n by simp
  have "c \<noteq> dquote" "c \<noteq> bslash" using assms(2) by auto
  then show ?thesis
    using assms(2) n h by (simp add: unquote.simps(2))
qed

lemma unquote_escape:
  "utf8_valid s \<Longrightarrow> unquote (escape s @ dquote # r) = Some (s, r)"
proof (induction s rule: length_induct)
  case (1 s)
  show ?case
  proof (cases s)
    case Nil
    then show ?thesis by (simp add: unquote.simps(2))
  next
    case (Cons c s')
    obtain n ok where h: "rune_head (c # s') = (n, ok)" by fastforce
    have valid: "ok" "utf8_valid (drop n (c # s'))"
      using 1(2) Cons h by (simp_all add: utf8_valid.simps [of "c # s'"])
    show ?thesis
    proof (cases "byte_of c < 128")
      case True
      with h have "n = 1" by (simp add: rune_head.simps(2))
      with valid Cons 1(1) have "unquote (escape s' @ dquote # r) = Some (s', r)" by simp
      then show ?thesis
        using True Cons by (simp add: escape.simps(2) unquote_escape_ascii)
    next
      case False
      have n: "2 \<le> n" "n \<le> length (c # s')" using rune_head_multi [of c s' n] h valid(1) False by simp_all
      let ?t = "drop n (c # s')"
      have rest: "unquote (escape ?t @ dquote # r) = Some (?t, r)"
        using 1(1) Cons n valid(2) by simp
      have tl: "drop (n - Suc 0) s' = ?t" using n by (cases n) auto
      have s: "c # s' = take n (c # s') @ ?t" by simp
      have ls: "unquote (bslash # CHR ''u'' # CHR ''2'' # CHR ''0'' # CHR ''2'' # CHR ''8'' # x)
            = map_option (\<lambda>(x, t). (bytes_of [226, 128, 168] @ x, t)) (unquote x)"
        "unquote (bslash # CHR ''u'' # CHR ''2'' # CHR ''0'' # CHR ''2'' # CHR ''9'' # x)
            = map_option (\<lambda>(x, t). (bytes_of [226, 128, 169] @ x, t)) (unquote x)" for x
        by (subst unquote_u4, simp add: hex_val_def is_digit_def, simp add: is_surrogate_def,
            simp add: encode_rune_def)+
      have "unquote (take n (c # s') @ escape ?t @ dquote # r) = Some (take n (c # s') @ ?t, r)"
        using unquote_rune [of c s' n] h valid(1) False rest by simp
      moreover obtain p where p: "take n (c # s') = p" by blast
      ultimately have "unquote (escape (c # s') @ dquote # r) = Some (p @ ?t, r)"
        using False h valid(1) rest ls tl by (auto simp: escape.simps(2))
      then show ?thesis
        using s unfolding Cons p by simp
    qed
  qed
qed

section \<open>Values\<close>

datatype json =
    JNull
  | JBool bool
  | JNum string
  | JStr string
  | JArr "json list"
  | JObj "(string \<times> json) list"

definition is_ws :: "char \<Rightarrow> bool" where
  "is_ws c = (c = CHR '' '' \<or> c = CHR 0x09 \<or> c = CHR 0x0A \<or> c = CHR 0x0D)"

definition skip_ws :: "string \<Rightarrow> string" where
  "skip_ws s = dropWhile is_ws s"

text \<open>A number literal: an optional minus, no leading zero, an optional fraction and exponent.\<close>

definition span_digits :: "string \<Rightarrow> (string \<times> string) option" where
  "span_digits s =
     (let ds = takeWhile is_digit s in if ds = [] then None else Some (ds, dropWhile is_digit s))"

definition int_part :: "string \<Rightarrow> (string \<times> string) option" where
  "int_part s =
     (case s of [] \<Rightarrow> None
      | c # r \<Rightarrow> if c = CHR ''0'' then Some ([c], r) else span_digits s)"

definition frac_part :: "string \<Rightarrow> (string \<times> string) option" where
  "frac_part s =
     (case s of c # r \<Rightarrow>
        if c = CHR ''.'' then map_option (\<lambda>(ds, t). (c # ds, t)) (span_digits r) else Some ([], s)
      | [] \<Rightarrow> Some ([], s))"

definition exp_part :: "string \<Rightarrow> (string \<times> string) option" where
  "exp_part s =
     (case s of c # r \<Rightarrow>
        if c = CHR ''e'' \<or> c = CHR ''E'' then
          (case r of d # r' \<Rightarrow>
             if d = CHR ''+'' \<or> d = CHR ''-''
             then map_option (\<lambda>(ds, t). (c # d # ds, t)) (span_digits r')
             else map_option (\<lambda>(ds, t). (c # ds, t)) (span_digits r)
           | [] \<Rightarrow> None)
        else Some ([], s)
      | [] \<Rightarrow> Some ([], s))"

definition json_number :: "string \<Rightarrow> (string \<times> string) option" where
  "json_number s =
     (let (sign, s1) = (case s of c # r \<Rightarrow> if c = CHR ''-'' then ([c], r) else ([], s) | [] \<Rightarrow> ([], s))
      in case int_part s1 of None \<Rightarrow> None | Some (i, s2) \<Rightarrow>
         (case frac_part s2 of None \<Rightarrow> None | Some (f, s3) \<Rightarrow>
          (case exp_part s3 of None \<Rightarrow> None | Some (e, s4) \<Rightarrow> Some (sign @ i @ f @ e, s4))))"

definition json_literal :: "string \<Rightarrow> (json \<times> string) option" where
  "json_literal s =
     (if has_prefix s ''null'' then Some (JNull, drop 4 s)
      else if has_prefix s ''true'' then Some (JBool True, drop 4 s)
      else if has_prefix s ''false'' then Some (JBool False, drop 5 s)
      else map_option (\<lambda>(n, t). (JNum n, t)) (json_number s))"

lemma skip_ws_le: "length (skip_ws s) \<le> length s"
  by (simp add: skip_ws_def length_dropWhile_le)

lemma skip_ws_Cons_less: "skip_ws s = c # r \<Longrightarrow> length r < length s"
  using skip_ws_le [of s] by simp

lemma span_digits_less: "span_digits s = Some (ds, t) \<Longrightarrow> length t < length s"
proof (cases s)
  case (Cons c r)
  assume "span_digits s = Some (ds, t)"
  then have "is_digit c" "t = dropWhile is_digit r"
    using Cons by (auto simp: span_digits_def Let_def split: if_splits)
  then show ?thesis using Cons length_dropWhile_le [of is_digit r] by simp
qed (simp add: span_digits_def)

lemma json_number_less: "json_number s = Some (n, t) \<Longrightarrow> length t < length s"
proof -
  assume s: "json_number s = Some (n, t)"
  define s1 where "s1 = (case s of c # r \<Rightarrow> if c = CHR ''-'' then r else s | [] \<Rightarrow> s)"
  have "length s1 \<le> length s" by (auto simp: s1_def split: list.splits)
  moreover from s obtain i s2 f s3 e where
    p: "int_part s1 = Some (i, s2)" "frac_part s2 = Some (f, s3)" "exp_part s3 = Some (e, t)"
    by (auto simp: json_number_def s1_def split: list.splits if_splits option.splits)
  moreover have "length s2 < length s1"
    using p(1) by (auto simp: int_part_def dest: span_digits_less split: list.splits if_splits)
  moreover have "length s3 \<le> length s2"
    using p(2) by (auto simp: frac_part_def dest!: span_digits_less split: list.splits if_splits)
  moreover have "length t \<le> length s3"
    using p(3) by (auto simp: exp_part_def dest!: span_digits_less split: list.splits if_splits)
  ultimately show ?thesis by simp
qed

lemma json_literal_less: "json_literal s = Some (v, t) \<Longrightarrow> length t < length s"
  by (auto simp: json_literal_def dest!: json_number_less has_prefixE split: if_splits)

text \<open>
  The grammar.  \<open>d\<close> is how much deeper objects and arrays may nest.  The comparisons of
  lengths only make the recursion well-founded: they never fail, as
  \<open>json_value_less\<close> shows.
\<close>

function (sequential)
  json_value :: "nat \<Rightarrow> string \<Rightarrow> (json \<times> string) option"
and json_elems :: "nat \<Rightarrow> string \<Rightarrow> (json list \<times> string) option"
and json_members :: "nat \<Rightarrow> string \<Rightarrow> ((string \<times> json) list \<times> string) option"
where
  "json_value d s =
     (case skip_ws s of
        [] \<Rightarrow> None
      | c # r \<Rightarrow>
          if c = dquote then map_option (\<lambda>(x, t). (JStr x, t)) (unquote r)
          else if c = CHR ''['' then
            (if d = 0 then None
             else (case skip_ws r of
                     [] \<Rightarrow> None
                   | c' # t \<Rightarrow>
                       if c' = CHR '']'' then Some (JArr [], t)
                       else map_option (\<lambda>(vs, t). (JArr vs, t)) (json_elems (d - 1) r)))
          else if c = CHR ''{'' then
            (if d = 0 then None
             else (case skip_ws r of
                     [] \<Rightarrow> None
                   | c' # t \<Rightarrow>
                       if c' = CHR ''}'' then Some (JObj [], t)
                       else map_option (\<lambda>(ms, t). (JObj ms, t)) (json_members (d - 1) r)))
          else json_literal (c # r))"
| "json_elems d s =
     (case json_value d s of
        None \<Rightarrow> None
      | Some (v, r) \<Rightarrow>
          if length s \<le> length r then None
          else (case skip_ws r of
                  [] \<Rightarrow> None
                | c # t \<Rightarrow>
                    if c = CHR '']'' then Some ([v], t)
                    else if c = CHR '','' then map_option (\<lambda>(vs, u). (v # vs, u)) (json_elems d t)
                    else None))"
| "json_members d s =
     (case skip_ws s of
        [] \<Rightarrow> None
      | q # s1 \<Rightarrow>
          if q \<noteq> dquote then None
          else (case unquote s1 of
                  None \<Rightarrow> None
                | Some (k, s2) \<Rightarrow>
                    (case skip_ws s2 of
                       [] \<Rightarrow> None
                     | c # s3 \<Rightarrow>
                         if c \<noteq> CHR '':'' then None
                         else (case json_value d s3 of
                                 None \<Rightarrow> None
                               | Some (v, r) \<Rightarrow>
                                   if length s3 \<le> length r then None
                                   else (case skip_ws r of
                                           [] \<Rightarrow> None
                                         | e # t \<Rightarrow>
                                             if e = CHR ''}'' then Some ([(k, v)], t)
                                             else if e = CHR '','' then
                                               map_option (\<lambda>(ms, u). ((k, v) # ms, u)) (json_members d t)
                                             else None)))))"
  by pat_completeness auto
termination
  by (relation "measure (\<lambda>x. case x of Inl (d, s) \<Rightarrow> 2 * length s
       | Inr (Inl (d, s)) \<Rightarrow> 2 * length s + 1 | Inr (Inr (d, s)) \<Rightarrow> 2 * length s + 1)")
    (auto dest!: skip_ws_Cons_less unquote_less)

declare json_value.simps [simp del] json_elems.simps [simp del] json_members.simps [simp del]

lemma json_value_less:
  "json_value d s = Some (v, r) \<Longrightarrow> length r < length s"
  "json_elems d s = Some (vs, r) \<Longrightarrow> length r < length s"
  "json_members d s = Some (ms, r) \<Longrightarrow> length r < length s"
proof (induction d s and d s and d s arbitrary: v r and vs r and ms r
    rule: json_value_json_elems_json_members.induct)
  case (1 d s)
  from "1.prems" obtain c t where c: "skip_ws s = c # t"
    by (cases "skip_ws s") (simp_all add: json_value.simps [of d s])
  have lt: "length t < length s" using c by (rule skip_ws_Cons_less)
  have el: "length r < length s" if "json_elems (d - Suc 0) t = Some (vs, r)"
      "c \<noteq> dquote" "c = CHR ''[''" "d \<noteq> 0" "skip_ws t = c' # u" "c' \<noteq> CHR '']''" for vs c' u
    using "1.IH"(1) [OF c that(2-6)] that(1) lt by simp
  have me: "length r < length s" if "json_members (d - Suc 0) t = Some (ms, r)"
      "c \<noteq> dquote" "c \<noteq> CHR ''[''" "c = CHR ''{''" "d \<noteq> 0" "skip_ws t = c' # u" "c' \<noteq> CHR ''}''" for ms c' u
    using "1.IH"(2) [OF c that(2-7)] that(1) lt by simp
  from "1.prems" [unfolded json_value.simps [of d s] c list.case] show ?case
    using lt by (auto split: list.splits if_splits dest: el me skip_ws_Cons_less [of t]
        dest!: unquote_less json_literal_less)
next
  case (2 d s)
  from "2.prems" obtain v r1 c t where
    v: "json_value d s = Some (v, r1)" "\<not> length s \<le> length r1" "skip_ws r1 = c # t"
    by (auto simp: json_elems.simps [of d s] split: option.splits prod.splits if_splits list.splits)
  have lt: "length t < length s" using skip_ws_Cons_less [OF v(3)] v(2) by simp
  from "2.prems" show ?case
    using lt "2.IH"(2) [OF v(1) refl v(2,3)]
    by (auto simp: json_elems.simps [of d s] v split: if_splits)
next
  case (3 d s)
  from "3.prems" obtain s1 k s2 s3 v r1 c t where
    v: "skip_ws s = dquote # s1" "unquote s1 = Some (k, s2)" "skip_ws s2 = CHR '':'' # s3"
      "json_value d s3 = Some (v, r1)" "\<not> length s3 \<le> length r1" "skip_ws r1 = c # t"
    by (auto simp: json_members.simps [of d s] split: option.splits prod.splits if_splits list.splits)
  have lt: "length t < length s"
    using skip_ws_Cons_less [OF v(1)] unquote_less [OF v(2)] skip_ws_Cons_less [OF v(3)]
      skip_ws_Cons_less [OF v(6)] v(5) by simp
  from "3.prems" show ?case
    using lt "3.IH"(2) [OF v(1) _ v(2) refl v(3) _ v(4) refl v(5,6)]
    by (auto simp: json_members.simps [of d s] v split: if_splits)
qed

text \<open>The recursion equations without the comparisons.\<close>

lemma json_elems_eq:
  "json_elems d s =
     (case json_value d s of
        None \<Rightarrow> None
      | Some (v, r) \<Rightarrow>
          (case skip_ws r of
             [] \<Rightarrow> None
           | c # t \<Rightarrow>
               if c = CHR '']'' then Some ([v], t)
               else if c = CHR '','' then map_option (\<lambda>(vs, u). (v # vs, u)) (json_elems d t)
               else None))"
  by (subst json_elems.simps) (auto split: option.splits dest: json_value_less(1))

lemma json_members_eq:
  "json_members d s =
     (case skip_ws s of
        [] \<Rightarrow> None
      | q # s1 \<Rightarrow>
          if q \<noteq> dquote then None
          else (case unquote s1 of
                  None \<Rightarrow> None
                | Some (k, s2) \<Rightarrow>
                    (case skip_ws s2 of
                       [] \<Rightarrow> None
                     | c # s3 \<Rightarrow>
                         if c \<noteq> CHR '':'' then None
                         else (case json_value d s3 of
                                 None \<Rightarrow> None
                               | Some (v, r) \<Rightarrow>
                                   (case skip_ws r of
                                      [] \<Rightarrow> None
                                    | e # t \<Rightarrow>
                                        if e = CHR ''}'' then Some ([(k, v)], t)
                                        else if e = CHR '','' then
                                          map_option (\<lambda>(ms, u). ((k, v) # ms, u)) (json_members d t)
                                        else None)))))"
  by (subst json_members.simps) (auto split: option.splits list.splits dest: json_value_less(1))

section \<open>The encoder\<close>

fun commas :: "string list \<Rightarrow> string" where
  "commas [] = []"
| "commas [x] = x"
| "commas (x # y # xs) = x @ CHR '','' # commas (y # xs)"

fun json_print :: "json \<Rightarrow> string" where
  "json_print JNull = ''null''"
| "json_print (JBool b) = (if b then ''true'' else ''false'')"
| "json_print (JNum n) = n"
| "json_print (JStr s) = quote_string s"
| "json_print (JArr vs) = CHR ''['' # commas (map json_print vs) @ '']''"
| "json_print (JObj ms) =
     CHR ''{'' # commas (map (\<lambda>(k, v). quote_string k @ CHR '':'' # json_print v) ms) @ ''}''"

text \<open>
  What the program encodes: valid UTF-8 in strings, whole numbers, and nesting within the
  decoder's limit.
\<close>

fun json_ok :: "nat \<Rightarrow> json \<Rightarrow> bool" where
  "json_ok d JNull = True"
| "json_ok d (JBool b) = True"
| "json_ok d (JNum n) = (\<exists>i. n = int_to_dec i)"
| "json_ok d (JStr s) = utf8_valid s"
| "json_ok d (JArr vs) = (d \<noteq> 0 \<and> list_all (json_ok (d - 1)) vs)"
| "json_ok d (JObj ms) = (d \<noteq> 0 \<and> list_all (\<lambda>(k, v). utf8_valid k \<and> json_ok (d - 1) v) ms)"

definition json_stop :: "string \<Rightarrow> bool" where
  "json_stop r = (case r of [] \<Rightarrow> True
     | c # _ \<Rightarrow> c = CHR '','' \<or> c = CHR '']'' \<or> c = CHR ''}'' \<or> is_ws c)"

lemma json_stop_simps [simp]:
  "json_stop []" "json_stop (CHR '','' # r)" "json_stop (CHR '']'' # r)" "json_stop (CHR ''}'' # r)"
  "json_stop (CHR 0x0A # r)"
  by (simp_all add: json_stop_def is_ws_def)

lemma skip_ws_no: "\<not> is_ws c \<Longrightarrow> skip_ws (c # s) = c # s"
  by (simp add: skip_ws_def)

lemma not_ws [simp]:
  "\<not> is_ws dquote" "\<not> is_ws CHR ''[''" "\<not> is_ws CHR ''{''" "\<not> is_ws CHR '']''" "\<not> is_ws CHR ''}''"
  "\<not> is_ws CHR '',''" "\<not> is_ws CHR '':''" "\<not> is_ws CHR ''n''" "\<not> is_ws CHR ''t''" "\<not> is_ws CHR ''f''"
  by (simp_all add: is_ws_def)

text \<open>Numbers.\<close>

lemma nat_to_dec_hd: "n \<noteq> 0 \<Longrightarrow> hd (nat_to_dec n) \<noteq> CHR ''0''"
proof (induction n rule: nat_to_dec.induct)
  case (1 n)
  show ?case
  proof (cases "n < 10")
    case True
    with 1 have "byte_of (digit_char n) \<noteq> 48" by (simp add: byte_of_digit_char)
    then have "digit_char n \<noteq> CHR ''0''" by auto
    then show ?thesis using True by (subst nat_to_dec.simps) simp
  next
    case False
    then show ?thesis using 1 by (subst nat_to_dec.simps) (simp add: hd_append)
  qed
qed

lemma nat_to_dec_0: "nat_to_dec 0 = ''0''"
proof -
  have "byte_of (digit_char 0) = byte_of CHR ''0''" by (simp add: byte_of_digit_char)
  then have "digit_char 0 = CHR ''0''" by (simp only: of_char_eq_iff)
  then show ?thesis by (simp add: nat_to_dec.simps)
qed

lemma span_digits_dec:
  "list_all is_digit ds \<Longrightarrow> ds \<noteq> [] \<Longrightarrow> json_stop r \<Longrightarrow> span_digits (ds @ r) = Some (ds, r)"
proof -
  assume ds: "list_all is_digit ds" "ds \<noteq> []" and r: "json_stop r"
  have nd: "\<not> is_digit c" if "r = c # r'" for c r'
    using r that by (auto simp: json_stop_def is_ws_def is_digit_def)
  have "takeWhile is_digit r = []" "dropWhile is_digit r = r"
    using nd by (cases r; simp)+
  then show ?thesis
    using ds by (simp add: span_digits_def list_all_iff takeWhile_append2 dropWhile_append2)
qed

lemma int_part_dec: "json_stop r \<Longrightarrow> int_part (nat_to_dec n @ r) = Some (nat_to_dec n, r)"
proof -
  assume r: "json_stop r"
  show ?thesis
  proof (cases "n = 0")
    case True
    then show ?thesis by (simp add: int_part_def nat_to_dec_0)
  next
    case False
    obtain c cs where c: "nat_to_dec n = c # cs" by (cases "nat_to_dec n") auto
    then have "c \<noteq> CHR ''0''" using nat_to_dec_hd [OF False] by simp
    then show ?thesis
      using span_digits_dec [OF nat_to_dec_digits [of n] nat_to_dec_nonempty r] c
      by (simp add: int_part_def)
  qed
qed

lemma json_number_dec:
  assumes "json_stop r"
  shows "json_number (int_to_dec i @ r) = Some (int_to_dec i, r)"
proof -
  have fe: "frac_part r = Some ([], r)" "exp_part r = Some ([], r)"
    using assms by (auto simp: json_stop_def frac_part_def exp_part_def is_ws_def split: list.splits)
  obtain c cs where c: "nat_to_dec (nat i) = c # cs" by (cases "nat_to_dec (nat i)") auto
  have "is_digit c" using nat_to_dec_digits [of "nat i"] c by simp
  then have "c \<noteq> CHR ''-''" by (auto simp: is_digit_def)
  then show ?thesis
    using int_part_dec [OF assms, of "nat i"] int_part_dec [OF assms, of "nat (- i)"] fe c
    by (auto simp: json_number_def int_to_dec_def)
qed

lemma int_to_dec_head:
  obtains c cs where "int_to_dec i = c # cs" "c = CHR ''-'' \<or> is_digit c"
proof -
  obtain c cs where c: "nat_to_dec (nat i) = c # cs" by (cases "nat_to_dec (nat i)") auto
  moreover have "is_digit c" using nat_to_dec_digits [of "nat i"] c by simp
  ultimately show ?thesis
    using that [of c cs] that [of "CHR ''-''" "nat_to_dec (nat (- i))"]
    by (cases "i < 0") (simp_all add: int_to_dec_def)
qed

text \<open>The decoder reads back what the encoder wrote.\<close>

lemma json_print_head:
  assumes "json_ok d v"
  obtains c cs where "json_print v = c # cs" "\<not> is_ws c" "c \<noteq> CHR '']''" "c \<noteq> CHR ''}''"
proof (cases v)
  case (JNum n)
  with assms obtain i where n: "n = int_to_dec i" by auto
  obtain c cs where c: "int_to_dec i = c # cs" "c = CHR ''-'' \<or> is_digit c" by (rule int_to_dec_head)
  then have "\<not> is_ws c \<and> c \<noteq> CHR '']'' \<and> c \<noteq> CHR ''}''" by (auto simp: is_ws_def is_digit_def)
  with that c JNum n show ?thesis by simp
next
  case (JBool b)
  with that show ?thesis by (cases b) (simp_all add: is_ws_def)
qed (use that in \<open>auto simp: quote_string_def is_ws_def\<close>)

lemma json_literal_num:
  assumes "json_stop r"
  shows "json_literal (int_to_dec i @ r) = Some (JNum (int_to_dec i), r)"
proof -
  obtain c cs where c: "int_to_dec i = c # cs" "c = CHR ''-'' \<or> is_digit c" by (rule int_to_dec_head)
  then have "\<not> has_prefix (int_to_dec i @ r) ''null''" "\<not> has_prefix (int_to_dec i @ r) ''true''"
      "\<not> has_prefix (int_to_dec i @ r) ''false''"
    by (auto simp: has_prefix_def is_digit_def)
  then show ?thesis using json_number_dec [OF assms, of i] by (simp add: json_literal_def)
qed

definition json_member :: "string \<times> json \<Rightarrow> string" where
  "json_member m = quote_string (fst m) @ CHR '':'' # json_print (snd m)"

lemma json_print_obj: "json_print (JObj ms) = CHR ''{'' # commas (map json_member ms) @ ''}''"
  by (simp add: json_member_def [abs_def] case_prod_unfold)

lemma json_value_skip: "skip_ws s = c # r \<Longrightarrow> json_value d (c # r) = json_value d s"
proof -
  assume s: "skip_ws s = c # r"
  then have "\<not> is_ws c" by (auto simp: skip_ws_def dropWhile_eq_Cons_conv)
  with s show ?thesis by (simp add: json_value.simps [of d s] json_value.simps [of d "c # r"] skip_ws_no)
qed

lemma skip_ws_print: "json_ok d v \<Longrightarrow> skip_ws (json_print v @ r) = json_print v @ r"
  by (erule json_print_head) (simp add: skip_ws_no)

lemma commas_Cons: "xs \<noteq> [] \<Longrightarrow> commas (x # xs) = x @ CHR '','' # commas xs"
  by (cases xs) simp_all

lemma json_elems_print:
  assumes "vs \<noteq> []" and "\<And>v r. v \<in> set vs \<Longrightarrow> json_stop r \<Longrightarrow> json_value d (json_print v @ r) = Some (v, r)"
  shows "json_elems d (commas (map json_print vs) @ CHR '']'' # r) = Some (vs, r)"
  using assms
proof (induction vs)
  case (Cons v vs)
  show ?case
  proof (cases "vs = []")
    case True
    then show ?thesis
      using Cons.prems(2) [of v "CHR '']'' # r"] by (simp add: json_elems_eq skip_ws_no)
  next
    case False
    let ?t = "commas (map json_print vs) @ CHR '']'' # r"
    have "json_elems d ?t = Some (vs, r)"
      using Cons False by simp
    then show ?thesis
      using Cons.prems(2) [of v "CHR '','' # ?t"] False
      by (subst json_elems_eq) (simp add: commas_Cons skip_ws_no)
  qed
qed simp

lemma json_members_print:
  assumes "ms \<noteq> []" and "\<And>k v. (k, v) \<in> set ms \<Longrightarrow> utf8_valid k"
    and "\<And>k v r. (k, v) \<in> set ms \<Longrightarrow> json_stop r \<Longrightarrow> json_value d (json_print v @ r) = Some (v, r)"
  shows "json_members d (commas (map json_member ms) @ CHR ''}'' # r) = Some (ms, r)"
  using assms
proof (induction ms)
  case (Cons m ms)
  obtain k v where m: "m = (k, v)" by fastforce
  have k: "unquote (escape k @ dquote # x) = Some (k, x)" for x
    using Cons.prems(2) [of k v] m by (simp add: unquote_escape)
  show ?case
  proof (cases "ms = []")
    case True
    then show ?thesis
      using Cons.prems(3) [of k v "CHR ''}'' # r"] m k
      by (simp add: json_members_eq json_member_def quote_string_def skip_ws_no)
  next
    case False
    let ?t = "commas (map json_member ms) @ CHR ''}'' # r"
    have "json_members d ?t = Some (ms, r)"
      using Cons False by fastforce
    then show ?thesis
      using Cons.prems(3) [of k v "CHR '','' # ?t"] False m k
      by (subst json_members_eq) (simp add: commas_Cons json_member_def quote_string_def skip_ws_no)
  qed
qed simp

lemma commas_head: "xs \<noteq> [] \<Longrightarrow> hd xs = c # cs \<Longrightarrow> \<exists>t. commas xs = c # t"
  by (cases xs rule: commas.cases) auto

lemma json_value_print:
  "json_ok d v \<Longrightarrow> json_stop r \<Longrightarrow> json_value d (json_print v @ r) = Some (v, r)"
proof (induction v arbitrary: d r)
  case (JNum n)
  then obtain i where n: "n = int_to_dec i" by auto
  have "skip_ws (int_to_dec i @ r) = int_to_dec i @ r"
    using skip_ws_print [of d "JNum n" r] n JNum by simp
  moreover obtain c cs where c: "int_to_dec i = c # cs" "c = CHR ''-'' \<or> is_digit c" by (rule int_to_dec_head)
  ultimately show ?case
    using json_literal_num [OF JNum(2), of i] n by (auto simp: json_value.simps is_digit_def)
next
  case (JArr vs)
  then have d: "d \<noteq> 0" and ok: "\<And>v. v \<in> set vs \<Longrightarrow> json_ok (d - 1) v" by (auto simp: list_all_iff)
  show ?case
  proof (cases "vs = []")
    case True
    then show ?thesis using d by (simp add: json_value.simps skip_ws_no)
  next
    case False
    have e: "json_elems (d - Suc 0) (commas (map json_print vs) @ CHR '']'' # r) = Some (vs, r)"
      using False JArr.IH ok by (intro json_elems_print) auto
    obtain c cs where c: "json_print (hd vs) = c # cs" "\<not> is_ws c" "c \<noteq> CHR '']''"
      using ok False by (metis json_print_head list.set_sel(1))
    then obtain t where "commas (map json_print vs) = c # t"
      using commas_head [of "map json_print vs"] False by (auto simp: hd_map)
    then show ?thesis
      using d e c by (simp add: json_value.simps skip_ws_no)
  qed
next
  case (JObj ms)
  then have d: "d \<noteq> 0" and ok: "\<And>k v. (k, v) \<in> set ms \<Longrightarrow> utf8_valid k \<and> json_ok (d - 1) v"
    by (auto simp: list_all_iff)
  show ?case
  proof (cases "ms = []")
    case True
    then show ?thesis using d by (simp add: json_value.simps skip_ws_no)
  next
    case False
    have e: "json_members (d - Suc 0) (commas (map json_member ms) @ CHR ''}'' # r) = Some (ms, r)"
      using False JObj.IH ok by (intro json_members_print) auto
    obtain t where "commas (map json_member ms) = dquote # t"
      using commas_head [of "map json_member ms" dquote] False
      by (auto simp: hd_map json_member_def quote_string_def)
    then show ?thesis
      using d e unfolding json_print_obj by (simp add: json_value.simps skip_ws_no)
  qed
qed (auto simp: json_value.simps skip_ws_no quote_string_def unquote_escape json_literal_def has_prefix_def)

end
