(* ===== verification/Go_Json_Decode.thy ===== *)
theory Go_Json_Decode
  imports Go_Json
begin

text \<open>
  \<open>encoding/json\<close>'s decoding into structs: documents, the types of the fields the program
  has, and the lookup of a member's field.  A decoder takes the value and what the target
  holds before, and gives what it holds after, or \<open>None\<close> where \<open>Decode\<close> or \<open>Unmarshal\<close>
  returns an error: the program then drops the target.
\<close>

section \<open>Documents\<close>

text \<open>\<open>maxNestingDepth\<close>.\<close>

definition json_depth :: nat where
  "json_depth = 10000"

text \<open>\<open>Unmarshal\<close> takes a whole input that is one value and white space.\<close>

definition json_document :: "string \<Rightarrow> json option" where
  "json_document s =
     (case json_value json_depth s of
        None \<Rightarrow> None
      | Some (v, r) \<Rightarrow> if skip_ws r = [] then Some v else None)"

section \<open>Field decoders\<close>

type_synonym 'a decoder = "json \<Rightarrow> 'a \<Rightarrow> 'a option"

definition dec_string :: "string decoder" where
  "dec_string v old =
     (case v of JStr s \<Rightarrow> Some s | JNull \<Rightarrow> Some old | _ \<Rightarrow> None)"

definition dec_bool :: "bool decoder" where
  "dec_bool v old =
     (case v of JBool b \<Rightarrow> Some b | JNull \<Rightarrow> Some old | _ \<Rightarrow> None)"

text \<open>An unsigned field takes only plain digits within its range, a signed one also a sign.\<close>

definition dec_word :: "('a::len) word decoder" where
  "dec_word v old =
     (case v of
        JNum n \<Rightarrow> if n \<noteq> [] \<and> list_all is_digit n \<and> dec_val n < 2 ^ LENGTH('a)
                  then Some (word_of_nat (dec_val n)) else None
      | JNull \<Rightarrow> Some old
      | _ \<Rightarrow> None)"

definition dec_int64 :: "int decoder" where
  "dec_int64 v old =
     (case v of JNum n \<Rightarrow> parse_int64 n | JNull \<Rightarrow> Some old | _ \<Rightarrow> None)"

text \<open>A pointer: null is nil, otherwise the pointee is decoded, a new one from its zero.\<close>

definition dec_ptr :: "'a \<Rightarrow> 'a decoder \<Rightarrow> 'a option decoder" where
  "dec_ptr zero f v old =
     (if v = JNull then Some None
      else map_option Some (f v (case old of None \<Rightarrow> zero | Some x \<Rightarrow> x)))"

text \<open>
  A slice: an element is decoded into the one that is there, a further one into its zero.
  (A Go slice that was shortened by an earlier member of the same name keeps the elements
  behind its end; that takes three members of one name up to case and is not modelled.)
\<close>

fun dec_elems :: "'a \<Rightarrow> 'a decoder \<Rightarrow> json list \<Rightarrow> 'a list \<Rightarrow> 'a list option" where
  "dec_elems zero f [] old = Some []"
| "dec_elems zero f (v # vs) old =
     (case f v (case old of [] \<Rightarrow> zero | x # _ \<Rightarrow> x) of
        None \<Rightarrow> None
      | Some x \<Rightarrow> map_option (Cons x) (dec_elems zero f vs (drop 1 old)))"

definition dec_slice :: "'a \<Rightarrow> 'a decoder \<Rightarrow> 'a list option decoder" where
  "dec_slice zero f v old =
     (case v of
        JNull \<Rightarrow> Some None
      | JArr vs \<Rightarrow> map_option Some (dec_elems zero f vs (case old of None \<Rightarrow> [] | Some xs \<Rightarrow> xs))
      | _ \<Rightarrow> None)"

text \<open>A slice of which the program does not tell nil from empty.\<close>

definition dec_list :: "'a \<Rightarrow> 'a decoder \<Rightarrow> 'a list decoder" where
  "dec_list zero f v old =
     map_option (case_option [] id) (dec_slice zero f v (Some old))"

section \<open>Structs\<close>

text \<open>
  \<open>foldName\<close>: a member's name is compared up to case.  Of the other runes only the long s
  and the Kelvin sign fold to a letter of a field's name.
\<close>

definition upper_byte :: "char \<Rightarrow> char" where
  "upper_byte c = (if is_lower c then char_of (byte_of c - 32) else c)"

fun fold_name :: "string \<Rightarrow> string" where
  "fold_name [] = []"
| "fold_name (a # b # c # s) =
     (if byte_of a = 226 \<and> byte_of b = 132 \<and> byte_of c = 170 then CHR ''K'' # fold_name s
      else if byte_of a = 197 \<and> byte_of b = 191 then CHR ''S'' # fold_name (c # s)
      else upper_byte a # fold_name (b # c # s))"
| "fold_name (a # s) =
     (if byte_of a = 197 \<and> map of_char s = [191 :: nat] then ''S''
      else upper_byte a # fold_name s)"

type_synonym 's fields = "(string \<times> (json \<Rightarrow> 's \<Rightarrow> 's option)) list"

definition find_field :: "'s fields \<Rightarrow> string \<Rightarrow> (json \<Rightarrow> 's \<Rightarrow> 's option) option" where
  "find_field fs k =
     (case map_of fs k of
        Some f \<Rightarrow> Some f
      | None \<Rightarrow> map_option snd (find (\<lambda>(n, f). fold_name n = fold_name k) fs))"

text \<open>\<open>strict\<close> is \<open>DisallowUnknownFields\<close>.\<close>

fun dec_members :: "'s fields \<Rightarrow> bool \<Rightarrow> (string \<times> json) list \<Rightarrow> 's \<Rightarrow> 's option" where
  "dec_members fs strict [] s = Some s"
| "dec_members fs strict ((k, v) # ms) s =
     (case find_field fs k of
        None \<Rightarrow> if strict then None else dec_members fs strict ms s
      | Some f \<Rightarrow> (case f v s of None \<Rightarrow> None | Some s' \<Rightarrow> dec_members fs strict ms s'))"

definition dec_struct :: "'s fields \<Rightarrow> bool \<Rightarrow> 's decoder" where
  "dec_struct fs strict v s =
     (case v of JObj ms \<Rightarrow> dec_members fs strict ms s | JNull \<Rightarrow> Some s | _ \<Rightarrow> None)"

text \<open>A field of a record: decode what the record holds there and put the result back.\<close>

definition field :: "('s \<Rightarrow> 'a) \<Rightarrow> ('a \<Rightarrow> 's \<Rightarrow> 's) \<Rightarrow> 'a decoder \<Rightarrow> json \<Rightarrow> 's \<Rightarrow> 's option" where
  "field get put f v s = map_option (\<lambda>x. put x s) (f v (get s))"

section \<open>Encoding of fields\<close>

definition enc_int :: "int \<Rightarrow> json" where
  "enc_int i = JNum (int_to_dec i)"

definition enc_word :: "'a::len word \<Rightarrow> json" where
  "enc_word w = JNum (word_to_dec w)"

text \<open>The \<open>omitempty\<close> option of a string and of a pointer.\<close>

definition omit_empty :: "string \<Rightarrow> string \<Rightarrow> (string \<times> json) list" where
  "omit_empty name s = (if s = [] then [] else [(name, JStr s)])"

definition omit_nil :: "string \<Rightarrow> ('a \<Rightarrow> json) \<Rightarrow> 'a option \<Rightarrow> (string \<times> json) list" where
  "omit_nil name f x = (case x of None \<Rightarrow> [] | Some y \<Rightarrow> [(name, f y)])"

definition enc_ptr :: "('a \<Rightarrow> json) \<Rightarrow> 'a option \<Rightarrow> json" where
  "enc_ptr f x = (case x of None \<Rightarrow> JNull | Some y \<Rightarrow> f y)"

lemma word_to_dec_int: "word_to_dec w = int_to_dec (uint w)"
  by (simp add: word_to_dec_def int_to_dec_def not_less)

lemma json_ok_enc [simp]: "json_ok d (enc_int i)" "json_ok d (enc_word w)"
  by (auto simp: enc_int_def enc_word_def word_to_dec_int)

lemma dec_word_enc [simp]: "dec_word (enc_word (w :: 'a::len word)) old = Some w"
  using unsigned_less [of w, where 'a = nat]
  by (simp add: dec_word_def enc_word_def word_to_dec_def nat_to_dec_digits)

lemma parse_int64_dec: "- (2 ^ 63) \<le> i \<Longrightarrow> i < 2 ^ 63 \<Longrightarrow> parse_int64 (int_to_dec i) = Some i"
proof -
  assume i: "- (2 ^ 63) \<le> i" "i < 2 ^ 63"
  obtain c cs where c: "nat_to_dec (nat i) = c # cs" by (cases "nat_to_dec (nat i)") auto
  have d: "list_all is_digit (c # cs)" using nat_to_dec_digits [of "nat i"] c by simp
  then have ne: "c \<noteq> CHR ''-''" "c \<noteq> CHR ''+''" by (auto simp: is_digit_def)
  have v: "dec_val (c # cs) = nat i" using dec_val_nat_to_dec [of "nat i"] c by simp
  show ?thesis
    using i ne d v c nat_to_dec_digits [of "nat (- i)"] by (auto simp: parse_int64_def int_to_dec_def Let_def)
qed

lemma dec_int64_enc: "- (2 ^ 63) \<le> i \<Longrightarrow> i < 2 ^ 63 \<Longrightarrow> dec_int64 (enc_int i) old = Some i"
  by (simp add: dec_int64_def enc_int_def parse_int64_dec)

lemma dec_string_enc [simp]: "dec_string (JStr s) old = Some s"
  by (simp add: dec_string_def)

text \<open>A document is read back with the newline some writers append.\<close>

lemma json_document_print:
  "json_ok json_depth v \<Longrightarrow> json_document (json_print v) = Some v"
  "json_ok json_depth v \<Longrightarrow> json_document (json_print v @ [CHR 0x0A]) = Some v"
  using json_value_print [of json_depth v "[]"] json_value_print [of json_depth v "[CHR 0x0A]"]
  by (simp_all add: json_document_def skip_ws_def is_ws_def)

section \<open>What decoding keeps\<close>

lemma find_field_in: "find_field fs k = Some f \<Longrightarrow> \<exists>n. (n, f) \<in> set fs"
  by (auto simp: find_field_def find_Some_iff split: option.splits dest: map_of_SomeD) (metis nth_mem)

text \<open>A property every field keeps is kept by the whole struct.\<close>

lemma dec_members_keeps:
  assumes "\<And>n f v s s'. (n, f) \<in> set fs \<Longrightarrow> f v s = Some s' \<Longrightarrow> P s \<Longrightarrow> P s'"
  shows "dec_members fs strict ms s = Some s' \<Longrightarrow> P s \<Longrightarrow> P s'"
proof (induction ms arbitrary: s)
  case (Cons m ms)
  obtain k v where m: "m = (k, v)" by (cases m)
  show ?case
  proof (cases "find_field fs k")
    case None
    then show ?thesis using Cons m by (simp split: if_splits)
  next
    case (Some f)
    then obtain s1 where "f v s = Some s1" "dec_members fs strict ms s1 = Some s'"
      using Cons.prems(1) m by (auto split: option.splits)
    moreover obtain n where "(n, f) \<in> set fs" using find_field_in [OF Some] by blast
    ultimately show ?thesis using Cons assms by blast
  qed
qed simp

lemma dec_struct_keeps:
  assumes "\<And>n f v s s'. (n, f) \<in> set fs \<Longrightarrow> f v s = Some s' \<Longrightarrow> P s \<Longrightarrow> P s'"
  shows "dec_struct fs strict v s = Some s' \<Longrightarrow> P s \<Longrightarrow> P s'"
  using dec_members_keeps [of fs P, OF assms] by (auto simp: dec_struct_def split: json.splits)

lemma dec_elems_keeps:
  assumes "\<And>v x y. f v x = Some y \<Longrightarrow> P x \<Longrightarrow> P y"
  shows "dec_elems zero f vs old = Some xs \<Longrightarrow> P zero \<Longrightarrow> list_all P old \<Longrightarrow> list_all P xs"
proof (induction vs arbitrary: old xs)
  case (Cons v vs)
  then show ?case using assms by (cases old) (auto split: option.splits)
qed simp

lemma dec_int64_range: "dec_int64 v old = Some i \<Longrightarrow> old < 2 ^ 63 \<Longrightarrow> i < 2 ^ 63"
  by (auto simp: dec_int64_def parse_int64_def Let_def split: json.splits if_splits list.splits)

end
