(* ===== verification/Pcl_Messages.thy ===== *)
theory Pcl_Messages
  imports Go_Json_Decode
begin

text \<open>
  The messages of the Private Control Link (\<open>private_control.go\<close>, lines 26 to 195) and
  their validators (lines 648 to 786).  A Go pointer field is an \<open>option\<close>, a nil slice is
  told from an empty one where the code tells them apart, and int64 values are \<open>int\<close>: the
  program compares them and adds a bounded constant to the current time, so they do not
  reach the ends of the range.
\<close>

section \<open>Constants\<close>

definition privateControlSchemaVersion :: string where
  "privateControlSchemaVersion = ''private-control-link-v1''"

definition privateControlMaxFrameBytes :: nat where
  "privateControlMaxFrameBytes = 65536"

definition privateControlMaxPendingCommands :: nat where
  "privateControlMaxPendingCommands = 64"

definition privateControlLifecycleEventTypes :: "string list" where
  "privateControlLifecycleEventTypes =
     [''participant_joined'', ''participant_left'', ''talk_started'', ''talk_ended'',
      ''relay_health_changed'', ''recording_state_changed'', ''service_admission_issued'',
      ''service_admission_revoked'']"

definition privateControlLifecycleStates :: "string list" where
  "privateControlLifecycleStates =
     [''healthy'', ''degraded'', ''unhealthy'', ''starting'', ''recording'', ''stopping'',
      ''stopped'', ''failed'']"

definition privateControlErrorCodes :: "string list" where
  "privateControlErrorCodes =
     [''handshake_required'', ''identity_mismatch'', ''unsupported_message'',
      ''invalid_revocation_target'', ''invalid_revocation_deadline'', ''unauthorized'',
      ''overloaded'', ''internal_error'']"

section \<open>Identifiers\<close>

definition service_id_char :: "char \<Rightarrow> bool" where
  "service_id_char c = (is_alnum c \<or> c = CHR ''.'' \<or> c = CHR ''_'' \<or> c = CHR ''-'')"

definition privateControlServiceIDPattern :: "string \<Rightarrow> bool" where
  "privateControlServiceIDPattern s =
     (case s of [] \<Rightarrow> False
      | c # r \<Rightarrow> is_alnum c \<and> length r \<le> 127 \<and> list_all service_id_char r)"

definition privateControlReasonPattern :: "string \<Rightarrow> bool" where
  "privateControlReasonPattern s =
     (s \<noteq> [] \<and> list_all (\<lambda>c. is_upper c \<or> is_digit c \<or> c = CHR ''_'' \<or> c = CHR '':'' \<or> c = CHR ''-'') s)"

definition validManagementServiceID :: "string \<Rightarrow> bool" where
  "validManagementServiceID value = privateControlServiceIDPattern value"

text \<open>
  \<open>newPrivateControlID\<close> reads 16 random bytes: they are an argument, \<open>None\<close> where
  \<open>rand.Read\<close> fails.
\<close>

definition newPrivateControlID :: "string option \<Rightarrow> string option" where
  "newPrivateControlID raw = map_option b64_encode raw"

definition validPrivateControlID :: "string \<Rightarrow> bool" where
  "validPrivateControlID value = (length value = 22 \<and> b64_canonical 16 value)"

definition validPrivateControlGrantIDHash :: "string \<Rightarrow> bool" where
  "validPrivateControlGrantIDHash value = b64_canonical 32 value"

definition validPrivateControlUTCTimestamp :: "string \<Rightarrow> bool" where
  "validPrivateControlUTCTimestamp value =
     (case parse_rfc3339_offset value of None \<Rightarrow> False | Some off \<Rightarrow> off = 0)"

definition validPrivateControlStringLength :: "string \<Rightarrow> nat \<Rightarrow> nat \<Rightarrow> bool" where
  "validPrivateControlStringLength value minimum maximum =
     (minimum \<le> rune_count value \<and> rune_count value \<le> maximum)"

definition validServiceAdmissionRevocationReason :: "string \<Rightarrow> bool" where
  "validServiceAdmissionRevocationReason value =
     (value = ''acl_removed'' \<or> value = ''service_disabled'' \<or> value = ''grant_revoked'')"

lemma validManagementServiceID_chars:
  "validManagementServiceID s \<Longrightarrow> s \<noteq> [] \<and> length s \<le> 128 \<and> list_all service_id_char s"
  by (auto simp: validManagementServiceID_def privateControlServiceIDPattern_def
      service_id_char_def split: list.splits)

lemma validManagementServiceID_Nil [simp]: "\<not> validManagementServiceID []"
  by (simp add: validManagementServiceID_def privateControlServiceIDPattern_def)

lemma service_id_char_not_slash: "service_id_char c \<Longrightarrow> c \<noteq> CHR ''/''"
  by (auto simp: service_id_char_def is_alnum_def is_digit_def is_lower_def is_upper_def)

lemma service_id_char_not_nul: "service_id_char c \<Longrightarrow> c \<noteq> CHR 0x00"
  by (auto simp: service_id_char_def is_alnum_def is_digit_def is_lower_def is_upper_def)

text \<open>What makes an identifier valid: it encodes 16 (a grant hash 32) bytes.\<close>

lemma validPrivateControlID_iff:
  "validPrivateControlID s \<longleftrightarrow> (\<exists>bs. length bs = 16 \<and> s = b64_encode bs)"
  by (auto simp: validPrivateControlID_def b64_canonical_iff length_b64_encode)

lemma validPrivateControlGrantIDHash_iff:
  "validPrivateControlGrantIDHash s \<longleftrightarrow> (\<exists>bs. length bs = 32 \<and> s = b64_encode bs)"
  by (simp add: validPrivateControlGrantIDHash_def b64_canonical_iff)

lemma newPrivateControlID_valid:
  "newPrivateControlID (Some raw) = Some v \<Longrightarrow> length raw = 16 \<Longrightarrow> validPrivateControlID v"
  by (auto simp: newPrivateControlID_def validPrivateControlID_iff)

section \<open>Messages\<close>

record privateControlHello =
  heSchemaVersion :: string
  heType :: string
  heMessageID :: string
  heManagementServiceID :: string
  heWantLifecycleEvents :: "bool option"
  heWantAuditInputs :: "bool option"
  heWantDiagnostics :: "bool option"

record privateControlHelloAck =
  haSchemaVersion :: string
  haType :: string
  haMessageID :: string
  haInReplyTo :: string
  haSessionID :: string
  haRelayID :: string
  haLifecycleEventsAccepted :: "bool option"
  haAuditInputsAccepted :: "bool option"
  haDiagnosticsAccepted :: "bool option"

record privateControlEnvelope =
  envSchemaVersion :: string
  envType :: string
  envMessageID :: string

record privateControlGetRelayStateSnapshot =
  gsSchemaVersion :: string
  gsType :: string
  gsMessageID :: string

record privateControlSnapshotParticipant =
  spSenderID :: u32
  spState :: string

record privateControlSnapshotChannel =
  scChannelID :: u32
  scParticipants :: "privateControlSnapshotParticipant list"

record privateControlRelayStateSnapshot =
  ssSchemaVersion :: string
  ssType :: string
  ssMessageID :: string
  ssInReplyTo :: string
  ssSnapshotID :: string
  ssChunkIndex :: u16
  ssChunkCount :: u16
  ssChannels :: "privateControlSnapshotChannel list option"

record privateControlError =
  peSchemaVersion :: string
  peType :: string
  peMessageID :: string
  peInReplyTo :: string
  peCode :: string

record privateControlRevokeServiceAdmission =
  rvSchemaVersion :: string
  rvType :: string
  rvMessageID :: string
  rvChannelID :: u32
  rvServiceID :: string
  rvGrantIDHash :: string
  rvReason :: string
  rvDenyUntil :: int

record privateControlAck =
  akSchemaVersion :: string
  akType :: string
  akMessageID :: string
  akInReplyTo :: string
  akOutcome :: string
  akDenyUntil :: int
  akAffectedMembershipCount :: u32
  akTalkReleaseCount :: u32

record privateControlLifecycleEvent =
  leSchemaVersion :: string
  leType :: string
  leMessageID :: string
  leOccurredAt :: string
  leEventType :: string
  leChannelID :: "u32 option"
  leSenderID :: "u32 option"
  leServiceID :: "string option"
  leRecordingJobID :: "string option"
  leState :: "string option"
  leReason :: "string option"

section \<open>Validators\<close>

definition validPrivateControlHelloAck :: "privateControlHelloAck \<Rightarrow> string \<Rightarrow> bool" where
  "validPrivateControlHelloAck ack inReplyTo =
     (haSchemaVersion ack = privateControlSchemaVersion \<and> haType ack = ''hello_ack'' \<and>
      validPrivateControlID (haMessageID ack) \<and> haInReplyTo ack = inReplyTo \<and>
      validPrivateControlID (haSessionID ack) \<and> trim_space (haRelayID ack) \<noteq> [] \<and>
      length (haRelayID ack) \<le> 128 \<and> haLifecycleEventsAccepted ack \<noteq> None \<and>
      haAuditInputsAccepted ack \<noteq> None \<and> haDiagnosticsAccepted ack \<noteq> None)"

text \<open>
  The source's validator also takes the raw message and unmarshals it into a map from
  member names to raw values: here it is that map, \<open>None\<close> where unmarshalling fails.  The
  one thing it looks at is whether the member \<open>channel_id\<close> is there and is null.
\<close>

definition validPrivateControlLifecycleEvent ::
  "(string, json) gomap option \<Rightarrow> privateControlLifecycleEvent \<Rightarrow> bool" where
  "validPrivateControlLifecycleEvent members event =
     (if leSchemaVersion event \<noteq> privateControlSchemaVersion \<or> leType event \<noteq> ''relay_lifecycle_event''
         \<or> \<not> validPrivateControlID (leMessageID event)
         \<or> \<not> validPrivateControlUTCTimestamp (leOccurredAt event) then False
      else if leEventType event \<notin> set privateControlLifecycleEventTypes then False
      else if leSenderID event = Some 0 then False
      else if (case leServiceID event of None \<Rightarrow> False | Some s \<Rightarrow> \<not> validManagementServiceID s) then False
      else if (case leRecordingJobID event of None \<Rightarrow> False
               | Some s \<Rightarrow> \<not> validPrivateControlStringLength s 1 128) then False
      else if (case leState event of None \<Rightarrow> False
               | Some s \<Rightarrow> s \<notin> set privateControlLifecycleStates) then False
      else if (case leReason event of None \<Rightarrow> False
               | Some s \<Rightarrow> \<not> validPrivateControlStringLength s 1 128 \<or> \<not> privateControlReasonPattern s) then False
      else case members of
        None \<Rightarrow> False
      | Some ms \<Rightarrow>
          (case mget ms ''channel_id'' of
             None \<Rightarrow> False
           | Some channelJSON \<Rightarrow>
               if leEventType event = ''relay_health_changed'' then
                 (if leChannelID event \<noteq> None \<or> channelJSON \<noteq> JNull then False
                  else case leState event of None \<Rightarrow> False
                       | Some s \<Rightarrow> s \<in> {''healthy'', ''degraded'', ''unhealthy''})
               else leChannelID event \<noteq> None))"

definition validPrivateControlError :: "privateControlError \<Rightarrow> bool" where
  "validPrivateControlError response =
     (if peSchemaVersion response \<noteq> privateControlSchemaVersion \<or> peType response \<noteq> ''error''
         \<or> \<not> validPrivateControlID (peMessageID response) then False
      else if peInReplyTo response \<noteq> [] \<and> \<not> validPrivateControlID (peInReplyTo response) then False
      else peCode response \<in> set privateControlErrorCodes)"

definition validPrivateControlRevocation :: "privateControlRevokeServiceAdmission \<Rightarrow> bool" where
  "validPrivateControlRevocation message =
     (rvSchemaVersion message = privateControlSchemaVersion \<and>
      rvType message = ''revoke_service_admission'' \<and>
      validPrivateControlID (rvMessageID message) \<and> 1 \<le> rvDenyUntil message \<and>
      (rvServiceID message = [] \<or> validManagementServiceID (rvServiceID message)) \<and>
      (rvGrantIDHash message = [] \<or> validPrivateControlGrantIDHash (rvGrantIDHash message)) \<and>
      (rvServiceID message \<noteq> [] \<or> rvGrantIDHash message \<noteq> []) \<and>
      validServiceAdmissionRevocationReason (rvReason message))"

definition validPrivateControlAck :: "privateControlAck \<Rightarrow> bool" where
  "validPrivateControlAck response =
     (if akSchemaVersion response \<noteq> privateControlSchemaVersion \<or> akType response \<noteq> ''ack''
         \<or> \<not> validPrivateControlID (akMessageID response)
         \<or> \<not> validPrivateControlID (akInReplyTo response) \<or> akDenyUntil response < 1 then False
      else if akOutcome response = ''applied'' then True
      else if akOutcome response = ''already_expired''
        then akAffectedMembershipCount response = 0 \<and> akTalkReleaseCount response = 0
      else False)"

definition validPrivateControlRelayStateSnapshot :: "privateControlRelayStateSnapshot \<Rightarrow> bool" where
  "validPrivateControlRelayStateSnapshot snapshot =
     (if ssSchemaVersion snapshot \<noteq> privateControlSchemaVersion
         \<or> ssType snapshot \<noteq> ''relay_state_snapshot''
         \<or> \<not> validPrivateControlID (ssMessageID snapshot)
         \<or> \<not> validPrivateControlID (ssInReplyTo snapshot)
         \<or> \<not> validPrivateControlID (ssSnapshotID snapshot)
         \<or> ssChunkCount snapshot = 0 \<or> 64 < ssChunkCount snapshot
         \<or> ssChunkCount snapshot \<le> ssChunkIndex snapshot then False
      else case ssChannels snapshot of
        None \<Rightarrow> False
      | Some channels \<Rightarrow>
          list_all (\<lambda>channel. list_all (\<lambda>participant.
            \<not> (spSenderID participant = 0 \<or>
               (spState participant \<noteq> ''joined'' \<and> spState participant \<noteq> ''talking'' \<and>
                spState participant \<noteq> ''idle''))) (scParticipants channel)) channels)"

end
