(* ===== verification/Live_Events.thy ===== *)
theory Live_Events
  imports Pcl_Messages
begin

text \<open>
  The live event hub (\<open>management_events.go\<close>).  Subscriber channels are shared between
  the hub and the request that reads them, and the reader keeps its channel after the hub
  has dropped it: they live in a store (\<open>hubChans\<close>), a channel reference is an index into
  it, and the hub's map holds references.  A hub operation runs under the hub's mutex, so
  it is one step.
\<close>

section \<open>State and operations\<close>

definition managementLiveEventSubscriberBuffer :: nat where
  "managementLiveEventSubscriberBuffer = 32"

definition managementLiveEventMaximumSubscribers :: nat where
  "managementLiveEventMaximumSubscribers = 128"

record managementEvent =
  evSchemaVersion :: string
  evEventID :: string
  evOccurredAt :: string
  evType :: string
  evChannelID :: "u32 option"
  evSenderID :: "u32 option"
  evServiceID :: "string option"
  evRecordingJobID :: "string option"
  evState :: "string option"
  evReason :: "string option"

record managementLiveEventHub =
  hubNextEventID :: u64
  hubNextSubID :: u64
  hubSubscribers :: "(u64, nat) gomap"
  hubChans :: "managementEvent chan list"

definition newManagementLiveEventHub :: managementLiveEventHub where
  "newManagementLiveEventHub =
     \<lparr>hubNextEventID = 0, hubNextSubID = 0, hubSubscribers = [], hubChans = []\<rparr>"

text \<open>
  \<open>subscribe\<close> returns the channel and the identifier its \<open>unsubscribe\<close> closure
  captures, or nothing at the limit.
\<close>

definition subscribe ::
  "managementLiveEventHub \<Rightarrow> (nat \<times> u64) option \<times> managementLiveEventHub" where
  "subscribe h =
     (if managementLiveEventMaximumSubscribers \<le> mlen (hubSubscribers h) then (None, h)
      else
        let nid = hubNextSubID h + 1;
            ref = length (hubChans h)
        in (Some (ref, nid),
            h\<lparr>hubNextSubID := nid,
              hubChans := hubChans h @ [make_chan managementLiveEventSubscriberBuffer],
              hubSubscribers := mput nid ref (hubSubscribers h)\<rparr>))"

definition unsubscribe :: "u64 \<Rightarrow> managementLiveEventHub \<Rightarrow> go_panic + managementLiveEventHub" where
  "unsubscribe sid h =
     (case mget (hubSubscribers h) sid of
        None \<Rightarrow> Inr h
      | Some ref \<Rightarrow>
          (case chan_close (hubChans h ! ref) of
             Inl p \<Rightarrow> Inl p
           | Inr c \<Rightarrow> Inr (h\<lparr>hubSubscribers := mdel sid (hubSubscribers h),
                            hubChans := (hubChans h)[ref := c]\<rparr>)))"

text \<open>
  The loop of \<open>publish\<close> over the subscribers: a full buffer gets its subscriber removed
  and its channel closed.
\<close>

fun publish_loop ::
  "managementEvent \<Rightarrow> (u64 \<times> nat) list \<Rightarrow> managementLiveEventHub \<Rightarrow> go_panic + managementLiveEventHub"
where
  "publish_loop event [] h = Inr h"
| "publish_loop event ((sid, ref) # rest) h =
     (case chan_try_send (hubChans h ! ref) event of
        Inl p \<Rightarrow> Inl p
      | Inr (True, c) \<Rightarrow> publish_loop event rest (h\<lparr>hubChans := (hubChans h)[ref := c]\<rparr>)
      | Inr (False, c) \<Rightarrow>
          (case chan_close c of
             Inl p \<Rightarrow> Inl p
           | Inr c' \<Rightarrow>
               publish_loop event rest
                 (h\<lparr>hubSubscribers := mdel sid (hubSubscribers h),
                    hubChans := (hubChans h)[ref := c']\<rparr>)))"

definition event_of :: "u64 \<Rightarrow> privateControlLifecycleEvent \<Rightarrow> managementEvent" where
  "event_of n input =
     \<lparr>evSchemaVersion = ''management-event-v1'', evEventID = word_to_dec n,
      evOccurredAt = leOccurredAt input, evType = leEventType input,
      evChannelID = leChannelID input, evSenderID = leSenderID input,
      evServiceID = leServiceID input, evRecordingJobID = leRecordingJobID input,
      evState = leState input, evReason = leReason input\<rparr>"

definition publish ::
  "privateControlLifecycleEvent \<Rightarrow> managementLiveEventHub \<Rightarrow> go_panic + managementLiveEventHub" where
  "publish input h =
     (if hubNextEventID h = -1 then Inr h
      else
        let n = hubNextEventID h + 1
        in publish_loop (event_of n input) (hubSubscribers h) (h\<lparr>hubNextEventID := n\<rparr>))"

definition subscriberCount :: "managementLiveEventHub \<Rightarrow> nat" where
  "subscriberCount h = mlen (hubSubscribers h)"

text \<open>The reader's receive on its channel, in the loop of \<open>handleEvents\<close>.\<close>

definition receive_event ::
  "nat \<Rightarrow> managementLiveEventHub \<Rightarrow> managementEvent recv \<times> managementLiveEventHub" where
  "receive_event ref h =
     (let (r, c) = chan_recv (hubChans h ! ref) in (r, h\<lparr>hubChans := (hubChans h)[ref := c]\<rparr>))"

section \<open>Invariant\<close>

text \<open>
  Each subscriber has a channel of its own, and a channel is open exactly as long as it
  is subscribed, so no send or close meets a closed channel.  No buffer passes its
  capacity.  Subscriber identifiers are unique as long as the counter has not wrapped:
  \<open>fresh_ids\<close> is the part of the invariant that says so, and it needs fewer than \<open>2^64\<close>
  subscriptions.
\<close>

definition hub_ok :: "managementLiveEventHub \<Rightarrow> bool" where
  "hub_ok h \<longleftrightarrow>
     gomap_ok (hubSubscribers h) \<and>
     distinct (map snd (hubSubscribers h)) \<and>
     (\<forall>ref \<in> snd ` set (hubSubscribers h). ref < length (hubChans h)) \<and>
     (\<forall>ref < length (hubChans h).
        chanClosed (hubChans h ! ref) \<longleftrightarrow> ref \<notin> snd ` set (hubSubscribers h)) \<and>
     (\<forall>ref < length (hubChans h).
        chanCap (hubChans h ! ref) = managementLiveEventSubscriberBuffer \<and>
        length (chanBuf (hubChans h ! ref)) \<le> managementLiveEventSubscriberBuffer) \<and>
     mlen (hubSubscribers h) \<le> managementLiveEventMaximumSubscribers"

definition fresh_ids :: "managementLiveEventHub \<Rightarrow> bool" where
  "fresh_ids h \<longleftrightarrow>
     hubNextSubID h \<noteq> -1 \<and> (\<forall>sid \<in> fst ` set (hubSubscribers h). sid \<le> hubNextSubID h)"

lemma hub_ok_new: "hub_ok newManagementLiveEventHub"
  by (simp add: hub_ok_def newManagementLiveEventHub_def)

lemma fresh_ids_new: "fresh_ids newManagementLiveEventHub"
  by (simp add: fresh_ids_def newManagementLiveEventHub_def)

section \<open>Publishing\<close>

text \<open>What one publication does to one subscriber's channel.\<close>

definition chan_full :: "'a chan \<Rightarrow> bool" where
  "chan_full c = (chanCap c \<le> length (chanBuf c))"

definition deliver :: "'a \<Rightarrow> 'a chan \<Rightarrow> 'a chan" where
  "deliver x c =
     (if chan_full c then c\<lparr>chanClosed := True\<rparr> else c\<lparr>chanBuf := chanBuf c @ [x]\<rparr>)"

lemma deliver_simps [simp]:
  "chanCap (deliver x c) = chanCap c"
  "chanClosed (deliver x c) = (chanClosed c \<or> chan_full c)"
  "chanBuf (deliver x c) = (if chan_full c then chanBuf c else chanBuf c @ [x])"
  by (simp_all add: deliver_def)

definition deliver_to ::
  "managementEvent \<Rightarrow> u64 \<Rightarrow> nat \<Rightarrow> managementLiveEventHub \<Rightarrow> managementLiveEventHub" where
  "deliver_to ev sid ref h =
     h\<lparr>hubSubscribers := (if chan_full (hubChans h ! ref) then mdel sid (hubSubscribers h)
                          else hubSubscribers h),
       hubChans := (hubChans h)[ref := deliver ev (hubChans h ! ref)]\<rparr>"

lemma publish_loop_Cons:
  assumes "\<not> chanClosed (hubChans h ! ref)"
  shows "publish_loop ev ((sid, ref) # rest) h = publish_loop ev rest (deliver_to ev sid ref h)"
  using assms
  by (simp add: publish_loop.simps(2) chan_try_send_def chan_close_def chan_full_def deliver_def
      deliver_to_def)

declare publish_loop.simps(2) [simp del]

lemma deliver_to_simps [simp]:
  "hubNextEventID (deliver_to ev sid ref h) = hubNextEventID h"
  "hubNextSubID (deliver_to ev sid ref h) = hubNextSubID h"
  "length (hubChans (deliver_to ev sid ref h)) = length (hubChans h)"
  "ref < length (hubChans h) \<Longrightarrow>
     hubChans (deliver_to ev sid ref h) ! ref = deliver ev (hubChans h ! ref)"
  "r \<noteq> ref \<Longrightarrow> hubChans (deliver_to ev sid ref h) ! r = hubChans h ! r"
  by (simp_all add: deliver_to_def)

text \<open>
  The loop, as a whole: every listed channel gets \<open>deliver\<close>, every other channel is left
  alone, and the subscribers with a full buffer are gone.
\<close>

definition overflowing :: "managementLiveEventHub \<Rightarrow> (u64 \<times> nat) list \<Rightarrow> u64 \<Rightarrow> bool" where
  "overflowing h subs sid = (\<exists>ref. (sid, ref) \<in> set subs \<and> chan_full (hubChans h ! ref))"

lemma publish_loop_spec:
  assumes "distinct (map fst subs)" and "distinct (map snd subs)"
    and "\<forall>(sid, ref) \<in> set subs. ref < length (hubChans h) \<and> \<not> chanClosed (hubChans h ! ref)"
  shows "\<exists>h'. publish_loop ev subs h = Inr h'
      \<and> hubNextEventID h' = hubNextEventID h \<and> hubNextSubID h' = hubNextSubID h
      \<and> length (hubChans h') = length (hubChans h)
      \<and> (\<forall>ref < length (hubChans h). hubChans h' ! ref =
           (if ref \<in> snd ` set subs then deliver ev (hubChans h ! ref) else hubChans h ! ref))
      \<and> hubSubscribers h' = filter (\<lambda>(sid, ref). \<not> overflowing h subs sid) (hubSubscribers h)"
  using assms
proof (induction subs arbitrary: h)
  case Nil
  then show ?case by (simp add: overflowing_def)
next
  case (Cons p rest)
  obtain sid ref where p: "p = (sid, ref)" by (cases p)
  let ?h = "deliver_to ev sid ref h"
  from Cons.prems p have ref: "ref < length (hubChans h)" "\<not> chanClosed (hubChans h ! ref)"
    and notin: "ref \<notin> snd ` set rest" "sid \<notin> fst ` set rest"
    by auto
  have same: "hubChans ?h ! r = hubChans h ! r" if "(s, r) \<in> set rest" for s r
    using that notin by (metis deliver_to_simps(5) image_eqI snd_conv)
  with Cons.prems have "\<forall>(s, r) \<in> set rest. r < length (hubChans ?h) \<and> \<not> chanClosed (hubChans ?h ! r)"
    by fastforce
  with Cons.IH [of ?h] Cons.prems(1,2) obtain h' where
      h': "publish_loop ev rest ?h = Inr h'"
        "hubNextEventID h' = hubNextEventID h" "hubNextSubID h' = hubNextSubID h"
        "length (hubChans h') = length (hubChans h)"
    and chans: "\<forall>r < length (hubChans h). hubChans h' ! r =
           (if r \<in> snd ` set rest then deliver ev (hubChans ?h ! r) else hubChans ?h ! r)"
    and subs: "hubSubscribers h' = filter (\<lambda>(s, r). \<not> overflowing ?h rest s) (hubSubscribers ?h)"
    by auto
  have over: "overflowing h (p # rest) s \<longleftrightarrow>
      overflowing ?h rest s \<or> s = sid \<and> chan_full (hubChans h ! ref)" for s
    using same p by (auto simp: overflowing_def)
  have "hubSubscribers h' =
      filter (\<lambda>(s, r). \<not> overflowing h (p # rest) s) (hubSubscribers h)"
    by (auto simp: subs over deliver_to_def AList.delete_eq case_prod_beta intro!: filter_cong)
  moreover have "\<forall>r < length (hubChans h). hubChans h' ! r =
      (if r \<in> snd ` set (p # rest) then deliver ev (hubChans h ! r) else hubChans h ! r)"
  proof (intro allI impI)
    fix r assume "r < length (hubChans h)"
    then show "hubChans h' ! r =
      (if r \<in> snd ` set (p # rest) then deliver ev (hubChans h ! r) else hubChans h ! r)"
      using chans notin ref p by (cases "r = ref") simp_all
  qed
  moreover have "publish_loop ev (p # rest) h = Inr h'"
    using h'(1) ref p by (simp add: publish_loop_Cons)
  ultimately show ?case
    using h' by blast
qed

text \<open>Publishing never panics, keeps the invariant, and does to each channel what
  \<open>deliver\<close> says.\<close>

lemma hub_ok_refs:
  "hub_ok h \<Longrightarrow> (sid, ref) \<in> set (hubSubscribers h) \<Longrightarrow>
   ref < length (hubChans h) \<and> \<not> chanClosed (hubChans h ! ref)"
  by (force simp: hub_ok_def)

lemma publish_spec:
  assumes ok: "hub_ok h" and id: "hubNextEventID h \<noteq> -1"
  shows "\<exists>h'. publish e h = Inr h'
      \<and> hubNextEventID h' = hubNextEventID h + 1 \<and> hubNextSubID h' = hubNextSubID h
      \<and> length (hubChans h') = length (hubChans h)
      \<and> (\<forall>ref < length (hubChans h). hubChans h' ! ref =
           (if ref \<in> snd ` set (hubSubscribers h)
            then deliver (event_of (hubNextEventID h + 1) e) (hubChans h ! ref)
            else hubChans h ! ref))
      \<and> hubSubscribers h' =
          filter (\<lambda>(sid, ref). \<not> chan_full (hubChans h ! ref)) (hubSubscribers h)"
proof -
  let ?h = "h\<lparr>hubNextEventID := hubNextEventID h + 1\<rparr>"
  let ?ev = "event_of (hubNextEventID h + 1) e"
  have "\<forall>(sid, ref) \<in> set (hubSubscribers h).
      ref < length (hubChans ?h) \<and> \<not> chanClosed (hubChans ?h ! ref)"
    using hub_ok_refs [OF ok] by auto
  with publish_loop_spec [of "hubSubscribers h" ?h ?ev] ok obtain h' where
      "publish_loop ?ev (hubSubscribers h) ?h = Inr h'"
      and h': "hubNextEventID h' = hubNextEventID h + 1" "hubNextSubID h' = hubNextSubID h"
      "length (hubChans h') = length (hubChans h)"
      "\<forall>ref < length (hubChans h). hubChans h' ! ref =
         (if ref \<in> snd ` set (hubSubscribers h) then deliver ?ev (hubChans h ! ref)
          else hubChans h ! ref)"
      and subs: "hubSubscribers h' =
        filter (\<lambda>(sid, ref). \<not> overflowing ?h (hubSubscribers h) sid) (hubSubscribers h)"
    by (auto simp: hub_ok_def gomap_ok_def)
  have "overflowing ?h (hubSubscribers h) sid \<longleftrightarrow> chan_full (hubChans h ! ref)"
    if "(sid, ref) \<in> set (hubSubscribers h)" for sid ref
    using ok that by (auto simp: overflowing_def hub_ok_def gomap_ok_def dest: eq_key_imp_eq_value)
  then have "hubSubscribers h' =
      filter (\<lambda>(sid, ref). \<not> chan_full (hubChans h ! ref)) (hubSubscribers h)"
    unfolding subs by (auto intro: filter_cong)
  moreover have "publish e h = Inr h'"
    using \<open>publish_loop ?ev (hubSubscribers h) ?h = Inr h'\<close> id by (simp add: publish_def Let_def)
  ultimately show ?thesis using h' by blast
qed

lemma snd_filter: "snd ` set (filter (\<lambda>(s, r). P r) xs) = {r \<in> snd ` set xs. P r}"
  by force

lemma hub_okI:
  assumes "gomap_ok (hubSubscribers h)" and "distinct (map snd (hubSubscribers h))"
    and "mlen (hubSubscribers h) \<le> managementLiveEventMaximumSubscribers"
    and "snd ` set (hubSubscribers h) \<subseteq> {..<length (hubChans h)}"
    and "\<And>ref. ref < length (hubChans h) \<Longrightarrow>
        (chanClosed (hubChans h ! ref) \<longleftrightarrow> ref \<notin> snd ` set (hubSubscribers h))
        \<and> chanCap (hubChans h ! ref) = managementLiveEventSubscriberBuffer
        \<and> length (chanBuf (hubChans h ! ref)) \<le> managementLiveEventSubscriberBuffer"
  shows "hub_ok h"
  using assms by (auto simp: hub_ok_def)

lemma hub_okD:
  assumes "hub_ok h"
  shows "gomap_ok (hubSubscribers h)" "distinct (map snd (hubSubscribers h))"
    "mlen (hubSubscribers h) \<le> managementLiveEventMaximumSubscribers"
    "snd ` set (hubSubscribers h) \<subseteq> {..<length (hubChans h)}"
    "ref < length (hubChans h) \<Longrightarrow>
        chanClosed (hubChans h ! ref) \<longleftrightarrow> ref \<notin> snd ` set (hubSubscribers h)"
    "ref < length (hubChans h) \<Longrightarrow>
        chanCap (hubChans h ! ref) = managementLiveEventSubscriberBuffer"
    "ref < length (hubChans h) \<Longrightarrow>
        length (chanBuf (hubChans h ! ref)) \<le> managementLiveEventSubscriberBuffer"
  using assms by (auto simp: hub_ok_def)

lemma publish_ok [go_inv]:
  assumes ok: "hub_ok h" and pub: "publish e h = Inr h'"
  shows "hub_ok h'"
proof (cases "hubNextEventID h = -1")
  case True
  with ok pub show ?thesis by (simp add: publish_def)
next
  case False
  let ?ev = "event_of (hubNextEventID h + 1) e"
  from publish_spec [OF ok False, of e] pub have
      len: "length (hubChans h') = length (hubChans h)"
      and chans: "\<And>ref. ref < length (hubChans h) \<Longrightarrow> hubChans h' ! ref =
         (if ref \<in> snd ` set (hubSubscribers h) then deliver ?ev (hubChans h ! ref)
          else hubChans h ! ref)"
      and subs: "hubSubscribers h' =
        filter (\<lambda>(sid, ref). \<not> chan_full (hubChans h ! ref)) (hubSubscribers h)"
    by auto
  have snds: "snd ` set (hubSubscribers h') =
      {r \<in> snd ` set (hubSubscribers h). \<not> chan_full (hubChans h ! r)}"
    unfolding subs by (rule snd_filter)
  show ?thesis
  proof (rule hub_okI)
    show "gomap_ok (hubSubscribers h')" "distinct (map snd (hubSubscribers h'))"
      using hub_okD(1,2) [OF ok] by (simp_all add: subs gomap_ok_filter distinct_map_filter)
    show "mlen (hubSubscribers h') \<le> managementLiveEventMaximumSubscribers"
      using hub_okD(3) [OF ok] by (simp add: subs) (meson le_trans length_filter_le)
    show "snd ` set (hubSubscribers h') \<subseteq> {..<length (hubChans h')}"
      using hub_okD(4) [OF ok] snds len by auto
  next
    fix ref assume "ref < length (hubChans h')"
    with len have ref: "ref < length (hubChans h)" by simp
    show "(chanClosed (hubChans h' ! ref) \<longleftrightarrow> ref \<notin> snd ` set (hubSubscribers h'))
        \<and> chanCap (hubChans h' ! ref) = managementLiveEventSubscriberBuffer
        \<and> length (chanBuf (hubChans h' ! ref)) \<le> managementLiveEventSubscriberBuffer"
      using hub_okD(5-7) [OF ok ref] chans [OF ref] snds by (auto simp: chan_full_def)
  qed
qed

lemma publish_total:
  assumes "hub_ok h"
  shows "\<exists>h'. publish e h = Inr h'"
proof (cases "hubNextEventID h = -1")
  case True
  then show ?thesis by (simp add: publish_def)
next
  case False
  with publish_spec [OF assms False] show ?thesis by blast
qed

section \<open>Subscribing, unsubscribing and receiving\<close>

lemma subscribe_cases:
  assumes "subscribe h = (r, h')"
  obtains (refused) "r = None" "h' = h"
      "managementLiveEventMaximumSubscribers \<le> mlen (hubSubscribers h)"
  | (subscribed) "r = Some (length (hubChans h), hubNextSubID h + 1)"
      "mlen (hubSubscribers h) < managementLiveEventMaximumSubscribers"
      "hubNextEventID h' = hubNextEventID h" "hubNextSubID h' = hubNextSubID h + 1"
      "hubChans h' = hubChans h @ [make_chan managementLiveEventSubscriberBuffer]"
      "hubSubscribers h' = mput (hubNextSubID h + 1) (length (hubChans h)) (hubSubscribers h)"
  using assms by (auto simp: subscribe_def Let_def split: if_splits)

lemma fresh_id_new:
  "fresh_ids h \<Longrightarrow> \<not> mhas (hubSubscribers h) (hubNextSubID h + 1)"
  by (auto simp: fresh_ids_def mhas_dom dest: not_le_succ)

lemma subscribe_ok [go_inv]:
  assumes ok: "hub_ok h" and fresh: "fresh_ids h" and sub: "subscribe h = (r, h')"
  shows "hub_ok h'"
  using sub
proof (cases rule: subscribe_cases)
  case refused
  with ok show ?thesis by simp
next
  case subscribed
  have subs: "hubSubscribers h' =
      hubSubscribers h @ [(hubNextSubID h + 1, length (hubChans h))]"
    using subscribed(6) fresh_id_new [OF fresh] by (simp add: mput_new)
  have below: "r < length (hubChans h)" if "r \<in> snd ` set (hubSubscribers h)" for r
    using hub_okD(4) [OF ok] that by auto
  show ?thesis
  proof (rule hub_okI)
    show "gomap_ok (hubSubscribers h')"
      using hub_okD(1) [OF ok] by (simp add: subscribed)
    show "distinct (map snd (hubSubscribers h'))"
      using hub_okD(2) [OF ok] below by (auto simp: subs)
    show "mlen (hubSubscribers h') \<le> managementLiveEventMaximumSubscribers"
      using subscribed(2) by (simp add: subs)
    show "snd ` set (hubSubscribers h') \<subseteq> {..<length (hubChans h')}"
      using below by (auto simp: subs subscribed(5) intro: less_SucI)
  next
    fix ref assume "ref < length (hubChans h')"
    then consider "ref < length (hubChans h)" | "ref = length (hubChans h)"
      by (auto simp: subscribed(5) less_Suc_eq)
    then show "(chanClosed (hubChans h' ! ref) \<longleftrightarrow> ref \<notin> snd ` set (hubSubscribers h'))
        \<and> chanCap (hubChans h' ! ref) = managementLiveEventSubscriberBuffer
        \<and> length (chanBuf (hubChans h' ! ref)) \<le> managementLiveEventSubscriberBuffer"
    proof cases
      case 1
      then show ?thesis
        using hub_okD(5-7) [OF ok 1] by (auto simp: subs subscribed(5) nth_append)
    next
      case 2
      then show ?thesis by (simp add: subs subscribed(5) make_chan_def)
    qed
  qed
qed

lemma unsubscribe_total:
  assumes "hub_ok h"
  shows "\<exists>h'. unsubscribe sid h = Inr h'"
proof (cases "mget (hubSubscribers h) sid")
  case None
  then show ?thesis by (simp add: unsubscribe_def)
next
  case (Some ref)
  then have "\<not> chanClosed (hubChans h ! ref)"
    using hub_ok_refs [OF assms] by (metis map_of_SomeD)
  with Some show ?thesis by (simp add: unsubscribe_def chan_close_def)
qed

lemma unsubscribe_cases:
  assumes "hub_ok h" and "unsubscribe sid h = Inr h'"
  obtains (unknown) "mget (hubSubscribers h) sid = None" "h' = h"
  | (closed) ref where "mget (hubSubscribers h) sid = Some ref" "ref < length (hubChans h)"
      "hubNextEventID h' = hubNextEventID h" "hubNextSubID h' = hubNextSubID h"
      "hubSubscribers h' = mdel sid (hubSubscribers h)"
      "hubChans h' = (hubChans h)[ref := (hubChans h ! ref)\<lparr>chanClosed := True\<rparr>]"
proof (cases "mget (hubSubscribers h) sid")
  case None
  moreover have "h' = h" using assms(2) None by (simp add: unsubscribe_def)
  ultimately show ?thesis by (rule unknown)
next
  case (Some ref)
  then have "(sid, ref) \<in> set (hubSubscribers h)" by (rule map_of_SomeD)
  from hub_ok_refs [OF assms(1) this]
  have ref: "ref < length (hubChans h)" "\<not> chanClosed (hubChans h ! ref)"
    by simp_all
  from assms(2) Some ref(2) have "h' = h\<lparr>hubSubscribers := mdel sid (hubSubscribers h),
              hubChans := (hubChans h)[ref := (hubChans h ! ref)\<lparr>chanClosed := True\<rparr>]\<rparr>"
    by (simp add: unsubscribe_def chan_close_def)
  then show ?thesis using closed [OF Some ref(1)] by simp
qed

lemma snd_mdel:
  assumes "gomap_ok m" and "distinct (map snd m)" and "mget m k = Some r"
  shows "snd ` set (mdel k m) = snd ` set m - {r}"
proof -
  have kr: "(k, r) \<in> set m" using assms(3) by (rule map_of_SomeD)
  have one: "fst p = k \<longleftrightarrow> snd p = r" if p: "p \<in> set m" for p
  proof
    assume "fst p = k"
    with p have "(k, snd p) \<in> set m" by (metis prod.collapse)
    with assms(1,3) show "snd p = r" by (simp add: gomap_ok_def)
  next
    assume "snd p = r"
    with assms(2) kr p have "p = (k, r)" by (metis distinct_map inj_onD snd_conv)
    then show "fst p = k" by simp
  qed
  have "set (mdel k m) = {p \<in> set m. snd p \<noteq> r}"
    unfolding set_mdel using one by blast
  then show ?thesis by blast
qed

lemma unsubscribe_ok [go_inv]:
  assumes ok: "hub_ok h" and un: "unsubscribe sid h = Inr h'"
  shows "hub_ok h'"
  using ok un
proof (cases rule: unsubscribe_cases)
  case unknown
  with ok show ?thesis by simp
next
  case (closed ref)
  have snds: "snd ` set (hubSubscribers h') = snd ` set (hubSubscribers h) - {ref}"
    unfolding closed(5) by (rule snd_mdel [OF hub_okD(1,2) [OF ok] closed(1)])
  show ?thesis
  proof (rule hub_okI)
    show "gomap_ok (hubSubscribers h')"
      using hub_okD(1) [OF ok] by (simp add: closed(5))
    show "distinct (map snd (hubSubscribers h'))"
      using hub_okD(2) [OF ok] by (simp add: closed(5) AList.delete_eq distinct_map_filter)
    show "mlen (hubSubscribers h') \<le> managementLiveEventMaximumSubscribers"
      using hub_okD(3) [OF ok] mlen_del_le [of sid "hubSubscribers h"] by (simp add: closed(5))
    show "snd ` set (hubSubscribers h') \<subseteq> {..<length (hubChans h')}"
      using hub_okD(4) [OF ok] unfolding snds closed(6) length_list_update by blast
  next
    fix r assume "r < length (hubChans h')"
    with closed(6) have r: "r < length (hubChans h)" by simp
    show "(chanClosed (hubChans h' ! r) \<longleftrightarrow> r \<notin> snd ` set (hubSubscribers h'))
        \<and> chanCap (hubChans h' ! r) = managementLiveEventSubscriberBuffer
        \<and> length (chanBuf (hubChans h' ! r)) \<le> managementLiveEventSubscriberBuffer"
      using hub_okD(5-7) [OF ok r] closed(2) unfolding snds closed(6)
      by (cases "r = ref") simp_all
  qed
qed

lemma receive_cases:
  assumes "receive_event ref h = (r, h')" and "ref < length (hubChans h)"
  obtains (received) x xs where "r = Received x" "chanBuf (hubChans h ! ref) = x # xs"
      "hubNextEventID h' = hubNextEventID h" "hubNextSubID h' = hubNextSubID h"
      "hubSubscribers h' = hubSubscribers h"
      "hubChans h' = (hubChans h)[ref := (hubChans h ! ref)\<lparr>chanBuf := xs\<rparr>]"
  | (nothing) "r = RecvClosed \<or> r = WouldBlock" "h' = h" "chanBuf (hubChans h ! ref) = []"
  using assms
  by (cases "chanBuf (hubChans h ! ref)") (auto simp: receive_event_def chan_recv_def split: if_splits)

lemma receive_ok [go_inv]:
  assumes ok: "hub_ok h" and recv: "receive_event ref h = (r, h')" and ref: "ref < length (hubChans h)"
  shows "hub_ok h'"
  using recv ref
proof (cases rule: receive_cases)
  case nothing
  with ok show ?thesis by simp
next
  case (received x xs)
  show ?thesis
  proof (rule hub_okI)
    fix i assume "i < length (hubChans h')"
    then have i: "i < length (hubChans h)" by (simp add: received(6))
    show "(chanClosed (hubChans h' ! i) \<longleftrightarrow> i \<notin> snd ` set (hubSubscribers h'))
        \<and> chanCap (hubChans h' ! i) = managementLiveEventSubscriberBuffer
        \<and> length (chanBuf (hubChans h' ! i)) \<le> managementLiveEventSubscriberBuffer"
      using hub_okD(5-7) [OF ok i] received(2) ref unfolding received(5,6)
      by (cases "i = ref") simp_all
  qed (use hub_okD(1-4) [OF ok] in \<open>simp_all add: received(5,6)\<close>)
qed

section \<open>What a subscriber sees\<close>

text \<open>
  Runs of the hub, with a ghost record of the events published so far (\<open>log\<close>), of the
  length of that log when each channel was made (\<open>since\<close>), and of what each reader has
  received (\<open>got\<close>).  A run is any interleaving of the operations; it makes fewer than
  \<open>2^64 - 1\<close> subscriptions.
\<close>

inductive hub_run ::
  "managementLiveEventHub \<Rightarrow> managementEvent list \<Rightarrow> (nat \<Rightarrow> nat) \<Rightarrow> (nat \<Rightarrow> managementEvent list) \<Rightarrow> bool"
where
  start: "hub_run newManagementLiveEventHub [] (\<lambda>_. 0) (\<lambda>_. [])"
| refused: "hub_run h log since got \<Longrightarrow> subscribe h = (None, h') \<Longrightarrow> hub_run h' log since got"
| subscribed: "hub_run h log since got \<Longrightarrow> subscribe h = (Some (ref, sid), h') \<Longrightarrow>
     hubNextSubID h' \<noteq> -1 \<Longrightarrow> hub_run h' log (since(ref := length log)) got"
| unsubscribed: "hub_run h log since got \<Longrightarrow> unsubscribe sid h = Inr h' \<Longrightarrow> hub_run h' log since got"
| published: "hub_run h log since got \<Longrightarrow> publish e h = Inr h' \<Longrightarrow> hubNextEventID h \<noteq> -1 \<Longrightarrow>
     hub_run h' (log @ [event_of (hubNextEventID h + 1) e]) since got"
| exhausted: "hub_run h log since got \<Longrightarrow> publish e h = Inr h' \<Longrightarrow> hubNextEventID h = -1 \<Longrightarrow>
     hub_run h' log since got"
| received: "hub_run h log since got \<Longrightarrow> ref < length (hubChans h) \<Longrightarrow>
     receive_event ref h = (Received x, h') \<Longrightarrow> hub_run h' log since (got(ref := got ref @ [x]))"
| no_event: "hub_run h log since got \<Longrightarrow> ref < length (hubChans h) \<Longrightarrow>
     receive_event ref h = (r, h') \<Longrightarrow> r = RecvClosed \<or> r = WouldBlock \<Longrightarrow> hub_run h' log since got"

definition log_ok :: "managementLiveEventHub \<Rightarrow> managementEvent list \<Rightarrow> bool" where
  "log_ok h log \<longleftrightarrow> length log = unat (hubNextEventID h)
     \<and> (\<forall>i < length log. evEventID (log ! i) = nat_to_dec (Suc i))"

text \<open>
  What reader \<open>ref\<close> has received and what waits in its buffer is, in order and without a
  gap, a run of the log from where it subscribed, up to the end of the log while it is
  subscribed.
\<close>

definition stream_ok ::
  "managementLiveEventHub \<Rightarrow> managementEvent list \<Rightarrow> (nat \<Rightarrow> nat) \<Rightarrow> (nat \<Rightarrow> managementEvent list) \<Rightarrow> nat \<Rightarrow> bool"
where
  "stream_ok h log since got ref \<longleftrightarrow>
     (\<exists>n. since ref + n \<le> length log
        \<and> got ref @ chanBuf (hubChans h ! ref) = take n (drop (since ref) log)
        \<and> (ref \<in> snd ` set (hubSubscribers h) \<longrightarrow> since ref + n = length log))"

definition streams_ok where
  "streams_ok h log since got \<longleftrightarrow>
     hub_ok h \<and> fresh_ids h \<and> log_ok h log \<and>
     (\<forall>ref < length (hubChans h). stream_ok h log since got ref) \<and>
     (\<forall>ref \<ge> length (hubChans h). got ref = [])"

lemma fresh_ids_subset:
  "fresh_ids h \<Longrightarrow> hubNextSubID h' = hubNextSubID h \<Longrightarrow>
   fst ` set (hubSubscribers h') \<subseteq> fst ` set (hubSubscribers h) \<Longrightarrow> fresh_ids h'"
  unfolding fresh_ids_def by (simp only:) blast

lemma streams_ok_subscribed:
  assumes s: "streams_ok h log since got" and sub: "subscribe h = (Some (ref, sid), h')"
    and id: "hubNextSubID h' \<noteq> -1"
  shows "streams_ok h' log (since(ref := length log)) got"
proof -
  from s have ok: "hub_ok h" and fresh: "fresh_ids h" and log: "log_ok h log"
    and st: "\<And>r. r < length (hubChans h) \<Longrightarrow> stream_ok h log since got r"
    and none: "\<And>r. length (hubChans h) \<le> r \<Longrightarrow> got r = []"
    by (auto simp: streams_ok_def)
  from sub have new: "ref = length (hubChans h)" "sid = hubNextSubID h + 1"
      "hubNextEventID h' = hubNextEventID h" "hubNextSubID h' = hubNextSubID h + 1"
      "hubChans h' = hubChans h @ [make_chan managementLiveEventSubscriberBuffer]"
      "hubSubscribers h' = mput sid ref (hubSubscribers h)"
    by (auto elim: subscribe_cases)
  have "hubNextSubID h \<le> hubNextSubID h'"
    using fresh less_succ [of "hubNextSubID h"] by (simp add: fresh_ids_def new(4))
  then have "fresh_ids h'"
    using fresh id unfolding fresh_ids_def new(6) fst_set_mput new(2) new(4)
    by (auto intro: order_trans)
  moreover have "stream_ok h' log (since(ref := length log)) got r" if "r < length (hubChans h')" for r
  proof (cases "r = ref")
    case True
    then show ?thesis using none [of ref] new(1) by (simp add: stream_ok_def new(5) make_chan_def)
  next
    case False
    with that new have r: "r < length (hubChans h)" by simp
    have "r \<in> snd ` set (hubSubscribers h') \<longleftrightarrow> r \<in> snd ` set (hubSubscribers h)"
      using False fresh_id_new [OF fresh] unfolding new(6) new(2)
      by (simp add: mput_new)
    then show ?thesis
      using st [OF r] False r by (simp add: stream_ok_def new(5) nth_append)
  qed
  ultimately show ?thesis
    using subscribe_ok [OF ok fresh sub] log none unfolding streams_ok_def log_ok_def new(3)
    by (simp add: new(5))
qed

lemma streams_ok_unsubscribed:
  assumes s: "streams_ok h log since got" and un: "unsubscribe sid h = Inr h'"
  shows "streams_ok h' log since got"
proof -
  from s have ok: "hub_ok h" by (simp add: streams_ok_def)
  from ok un show ?thesis
  proof (cases rule: unsubscribe_cases)
    case unknown
    with s show ?thesis by simp
  next
    case (closed ref)
    have fresh: "fresh_ids h'"
      using s closed(4) by (intro fresh_ids_subset [of h h'])
        (simp_all add: streams_ok_def closed(5) fst_set_mdel)
    have sub: "snd ` set (hubSubscribers h') \<subseteq> snd ` set (hubSubscribers h)"
      unfolding closed(5) set_mdel by blast
    have buf: "chanBuf (hubChans h' ! r) = chanBuf (hubChans h ! r)" for r
      unfolding closed(6) using closed(2) by (cases "r = ref") simp_all
    have "stream_ok h' log since got r" if "stream_ok h log since got r" for r
      using that sub unfolding stream_ok_def buf by blast
    then show ?thesis
      using s unsubscribe_ok [OF ok un] fresh
      by (simp add: streams_ok_def log_ok_def closed(3,6))
  qed
qed

lemma streams_ok_published:
  assumes s: "streams_ok h log since got" and pub: "publish e h = Inr h'"
    and id: "hubNextEventID h \<noteq> -1"
  shows "streams_ok h' (log @ [event_of (hubNextEventID h + 1) e]) since got"
proof -
  let ?ev = "event_of (hubNextEventID h + 1) e"
  from s have ok: "hub_ok h" by (simp add: streams_ok_def)
  from publish_spec [OF ok id, of e] pub have
      next_id: "hubNextEventID h' = hubNextEventID h + 1" "hubNextSubID h' = hubNextSubID h"
      and len: "length (hubChans h') = length (hubChans h)"
      and chans: "\<And>ref. ref < length (hubChans h) \<Longrightarrow> hubChans h' ! ref =
         (if ref \<in> snd ` set (hubSubscribers h) then deliver ?ev (hubChans h ! ref)
          else hubChans h ! ref)"
      and subs: "hubSubscribers h' =
        filter (\<lambda>(sid, ref). \<not> chan_full (hubChans h ! ref)) (hubSubscribers h)"
    by auto
  have snds: "snd ` set (hubSubscribers h') =
      {r \<in> snd ` set (hubSubscribers h). \<not> chan_full (hubChans h ! r)}"
    unfolding subs by (rule snd_filter)
  have "fresh_ids h'"
    using s next_id(2) by (intro fresh_ids_subset [of h h']) (auto simp: streams_ok_def subs)
  moreover have "log_ok h' (log @ [?ev])"
    using s id unfolding streams_ok_def log_ok_def next_id
    by (auto simp: unat_succ nth_append less_Suc_eq event_of_def word_to_dec_def)
  moreover have "stream_ok h' (log @ [?ev]) since got r" if r: "r < length (hubChans h)" for r
  proof -
    from s r obtain n where n: "since r + n \<le> length log"
        "got r @ chanBuf (hubChans h ! r) = take n (drop (since r) log)"
        "r \<in> snd ` set (hubSubscribers h) \<longrightarrow> since r + n = length log"
      unfolding streams_ok_def stream_ok_def by blast
    show ?thesis
    proof (cases "r \<in> snd ` set (hubSubscribers h) \<and> \<not> chan_full (hubChans h ! r)")
      case True
      with n have "n = length log - since r" "since r \<le> length log" by auto
      with n True chans [OF r] have "got r @ chanBuf (hubChans h' ! r) = drop (since r) (log @ [?ev])"
        by simp
      then show ?thesis
        unfolding stream_ok_def using \<open>since r \<le> length log\<close>
        by (intro exI [of _ "Suc (length log) - since r"]) simp
    next
      case False
      then have "r \<notin> snd ` set (hubSubscribers h')" unfolding snds by blast
      moreover have "chanBuf (hubChans h' ! r) = chanBuf (hubChans h ! r)"
        using False chans [OF r] by (auto simp: deliver_def)
      ultimately show ?thesis
        unfolding stream_ok_def using n(1,2) by (intro exI [of _ n]) simp
    qed
  qed
  ultimately show ?thesis
    using s publish_ok [OF ok pub] unfolding streams_ok_def len by blast
qed

lemma streams_ok_received:
  assumes s: "streams_ok h log since got" and ref: "ref < length (hubChans h)"
    and recv: "receive_event ref h = (Received x, h')"
  shows "streams_ok h' log since (got(ref := got ref @ [x]))"
proof -
  from s have ok: "hub_ok h" by (simp add: streams_ok_def)
  from recv ref obtain xs where
      buf: "chanBuf (hubChans h ! ref) = x # xs"
      and ids: "hubNextEventID h' = hubNextEventID h" "hubNextSubID h' = hubNextSubID h"
      "hubSubscribers h' = hubSubscribers h"
      and chans: "hubChans h' = (hubChans h)[ref := (hubChans h ! ref)\<lparr>chanBuf := xs\<rparr>]"
    by (cases rule: receive_cases) simp_all
  have "stream_ok h' log since (got(ref := got ref @ [x])) r" if "stream_ok h log since got r" for r
    using that buf ref unfolding stream_ok_def chans ids by (cases "r = ref") simp_all
  then show ?thesis
    using s receive_ok [OF ok recv ref] ref
    unfolding streams_ok_def log_ok_def fresh_ids_def ids by (simp add: chans)
qed

lemma hub_run_streams_ok: "hub_run h log since got \<Longrightarrow> streams_ok h log since got"
proof (induction rule: hub_run.induct)
  case start
  show ?case
    using hub_ok_new fresh_ids_new
    by (simp add: streams_ok_def log_ok_def newManagementLiveEventHub_def)
next
  case (refused h log since got h')
  then show ?case by (auto elim: subscribe_cases)
next
  case (subscribed h log since got ref sid h')
  from subscribed.IH subscribed.hyps(2,3) show ?case by (rule streams_ok_subscribed)
next
  case (unsubscribed h log since got sid h')
  from unsubscribed.IH unsubscribed.hyps(2) show ?case by (rule streams_ok_unsubscribed)
next
  case (published h log since got e h')
  from published.IH published.hyps(2,3) show ?case by (rule streams_ok_published)
next
  case (exhausted h log since got e h')
  then show ?case by (simp add: publish_def)
next
  case (received h log since got ref x h')
  from received.IH received.hyps(2,3) show ?case by (rule streams_ok_received)
next
  case (no_event h log since got ref r h')
  from no_event.hyps(3,2) have "h' = h"
    using no_event.hyps(4) by (cases rule: receive_cases) auto
  with no_event.IH show ?case by simp
qed

text \<open>
  C7. In every run of the hub, what a subscriber has read followed by what waits in its
  buffer is exactly the events published since it subscribed, in publication order and
  with no gap, up to the moment it was dropped; as long as it is subscribed nothing
  published is missing.
\<close>

theorem subscriber_stream:
  assumes "hub_run h log since got" and "ref < length (hubChans h)"
  shows "\<exists>n. got ref @ chanBuf (hubChans h ! ref) = take n (drop (since ref) log)
     \<and> (\<not> chanClosed (hubChans h ! ref) \<longrightarrow> since ref + n = length log)"
proof -
  from hub_run_streams_ok [OF assms(1)] assms(2)
  have "stream_ok h log since got ref" and ok: "hub_ok h" by (auto simp: streams_ok_def)
  then show ?thesis
    using hub_okD(5) [OF ok assms(2)] by (auto simp: stream_ok_def)
qed

text \<open>
  No operation of the hub panics in any run: publishing never sends on a closed
  channel, and no channel is closed twice.
\<close>

theorem hub_never_panics:
  assumes "hub_run h log since got"
  shows "(\<exists>h'. publish e h = Inr h') \<and> (\<exists>h'. unsubscribe sid h = Inr h')"
  using hub_run_streams_ok [OF assms] publish_total unsubscribe_total
  by (simp add: streams_ok_def)

text \<open>A run with one subscriber and one published event, for the two theorems above.\<close>

definition sample_event :: privateControlLifecycleEvent where
  "sample_event =
     \<lparr>leSchemaVersion = privateControlSchemaVersion, leType = ''relay_lifecycle_event'',
      leMessageID = b64_encode (replicate 16 CHR 0x00), leOccurredAt = ''2026-01-18T12:30:45Z'',
      leEventType = ''participant_joined'', leChannelID = Some 100, leSenderID = Some 7,
      leServiceID = None, leRecordingJobID = None, leState = None, leReason = None\<rparr>"

definition sample_hub :: managementLiveEventHub where
  "sample_hub =
     \<lparr>hubNextEventID = 1, hubNextSubID = 1, hubSubscribers = [(1, 0)],
      hubChans = [\<lparr>chanCap = 32, chanBuf = [event_of 1 sample_event], chanClosed = False\<rparr>]\<rparr>"

lemma sample_hub_run:
  "hub_run sample_hub [event_of 1 sample_event] ((\<lambda>_. 0)(0 := 0)) (\<lambda>_. [])"
proof -
  let ?h = "\<lparr>hubNextEventID = 0, hubNextSubID = 1, hubSubscribers = [(1, 0)],
      hubChans = [\<lparr>chanCap = 32, chanBuf = [], chanClosed = False\<rparr>]\<rparr> :: managementLiveEventHub"
  have "subscribe newManagementLiveEventHub = (Some (0, 1), ?h)"
    by (simp add: subscribe_def newManagementLiveEventHub_def make_chan_def
        managementLiveEventMaximumSubscribers_def managementLiveEventSubscriberBuffer_def)
  from hub_run.subscribed [OF hub_run.start this]
  have run: "hub_run ?h [] ((\<lambda>_. 0)(0 := 0)) (\<lambda>_. [])" by simp
  have "publish sample_event ?h = Inr sample_hub"
    by (simp add: publish_def publish_loop_Cons deliver_to_def deliver_def chan_full_def
        sample_hub_def)
  from hub_run.published [OF run this] show ?thesis by simp
qed

theorem subscriber_stream_witness:
  "\<exists>n. [] @ chanBuf (hubChans sample_hub ! 0) = take n (drop 0 [event_of 1 sample_event])
     \<and> (\<not> chanClosed (hubChans sample_hub ! 0) \<longrightarrow> 0 + n = length [event_of 1 sample_event])"
  using subscriber_stream [OF sample_hub_run, of 0] by (simp add: sample_hub_def)

theorem hub_never_panics_witness:
  "(\<exists>h'. publish sample_event sample_hub = Inr h') \<and> (\<exists>h'. unsubscribe 1 sample_hub = Inr h')"
  by (rule hub_never_panics [OF sample_hub_run])

section \<open>The number of subscribers\<close>

inductive hub_step :: "managementLiveEventHub \<Rightarrow> managementLiveEventHub \<Rightarrow> bool" where
  step_subscribe: "subscribe h = (r, h') \<Longrightarrow> hub_step h h'"
| step_unsubscribe: "unsubscribe sid h = Inr h' \<Longrightarrow> hub_step h h'"
| step_publish: "publish e h = Inr h' \<Longrightarrow> hub_step h h'"
| step_receive: "receive_event ref h = (v, h') \<Longrightarrow> hub_step h h'"

definition table_kept :: "managementLiveEventHub \<Rightarrow> managementLiveEventHub \<Rightarrow> bool" where
  "table_kept h h' \<longleftrightarrow>
     (gomap_ok (hubSubscribers h) \<longrightarrow> gomap_ok (hubSubscribers h'))
     \<and> mlen (hubSubscribers h') \<le> max managementLiveEventMaximumSubscribers (mlen (hubSubscribers h))"

lemma table_kept_shrink:
  "hubSubscribers h' = hubSubscribers h \<or> hubSubscribers h' = mdel sid (hubSubscribers h) \<Longrightarrow>
   table_kept h h'"
  using mlen_del_le [of sid "hubSubscribers h"] by (auto simp: table_kept_def le_max_iff_disj)

lemma table_kept_trans: "table_kept h h' \<Longrightarrow> table_kept h' h'' \<Longrightarrow> table_kept h h''"
  by (auto simp: table_kept_def)

lemma subscribe_table: "subscribe h = (r, h') \<Longrightarrow> table_kept h h'"
  by (erule subscribe_cases) (auto simp: table_kept_def mlen_put)

lemma unsubscribe_table: "unsubscribe sid h = Inr h' \<Longrightarrow> table_kept h h'"
  by (rule table_kept_shrink [of _ _ sid])
    (auto simp: unsubscribe_def split: option.splits sum.splits)

lemma publish_loop_table: "publish_loop ev subs h = Inr h' \<Longrightarrow> table_kept h h'"
proof (induction ev subs h rule: publish_loop.induct)
  case (1 event h)
  then show ?case by (auto intro: table_kept_shrink)
next
  case (2 event sid ref rest h)
  show ?case
  proof (cases "chanClosed (hubChans h ! ref)")
    case True
    with "2.prems" show ?thesis by (simp add: publish_loop.simps(2) chan_try_send_def)
  next
    case False
    then have "table_kept (deliver_to event sid ref h) h'"
      using 2 by (auto simp: publish_loop_Cons publish_loop.simps(2) chan_try_send_def
          chan_close_def deliver_to_def deliver_def chan_full_def split: if_splits)
    moreover have "table_kept h (deliver_to event sid ref h)"
      by (rule table_kept_shrink [of _ _ sid]) (simp add: deliver_to_def)
    ultimately show ?thesis by (metis table_kept_trans)
  qed
qed

lemma publish_table: "publish e h = Inr h' \<Longrightarrow> table_kept h h'"
  by (auto simp: publish_def Let_def table_kept_def dest!: publish_loop_table split: if_splits)

lemma receive_table: "receive_event ref h = (v, h') \<Longrightarrow> table_kept h h'"
  by (rule table_kept_shrink) (auto simp: receive_event_def split: prod.splits)

lemma hub_step_table: "hub_step h h' \<Longrightarrow> table_kept h h'"
  by (cases rule: hub_step.cases)
    (auto intro: subscribe_table unsubscribe_table publish_table receive_table)

definition table_ok :: "managementLiveEventHub \<Rightarrow> bool" where
  "table_ok h \<longleftrightarrow> gomap_ok (hubSubscribers h)
     \<and> mlen (hubSubscribers h) \<le> managementLiveEventMaximumSubscribers"

interpretation hub_table: bounded_table hub_step table_ok hubSubscribers
  managementLiveEventMaximumSubscribers
  by unfold_locales (auto dest!: hub_step_table simp: table_kept_def table_ok_def)

text \<open>
  The hub never has more than 128 subscribers, whatever is done to it.
\<close>

theorem subscriber_limit:
  assumes "hub_step\<^sup>*\<^sup>* newManagementLiveEventHub h"
  shows "subscriberCount h \<le> 128"
  using hub_table.run_bound [OF assms]
  by (simp add: subscriberCount_def newManagementLiveEventHub_def table_ok_def
      managementLiveEventMaximumSubscribers_def)

theorem subscriber_limit_witness: "subscriberCount (snd (subscribe newManagementLiveEventHub)) \<le> 128"
proof -
  have "hub_step newManagementLiveEventHub (snd (subscribe newManagementLiveEventHub))"
    by (rule step_subscribe [of _ "fst (subscribe newManagementLiveEventHub)"]) simp
  then show ?thesis by (intro subscriber_limit) blast
qed

end
