(* ===== verification/Go_Csv.thy ===== *)
theory Go_Csv
  imports Go_Text
begin

text \<open>
  \<open>encoding/csv\<close>'s reader with its default settings (comma, no comment character, strict
  quotes) and a fixed number of fields per record, as \<open>readManagementCSV\<close> uses it, and
  \<open>readManagementCSV\<close> itself (\<open>management_api.go\<close>, lines 373 to 405).
\<close>

section \<open>Lines\<close>

abbreviation newline :: char where
  "newline \<equiv> CHR 0x0A"

abbreviation quote_char :: char where
  "quote_char \<equiv> CHR 0x22"

text \<open>
  \<open>readLine\<close>: a line keeps its newline, a carriage return before it is dropped, and so is
  one at the end of the input.
\<close>

definition normalize_line :: "string \<Rightarrow> string" where
  "normalize_line l =
     (if has_suffix l [CHR 0x0D, newline] then take (length l - 2) l @ [newline]
      else if has_suffix l [CHR 0x0D] then take (length l - 1) l
      else l)"

fun split_lines :: "string \<Rightarrow> string \<Rightarrow> string list" where
  "split_lines acc [] = (if acc = [] then [] else [normalize_line acc])"
| "split_lines acc (c # cs) =
     (if c = newline then normalize_line (acc @ [c]) # split_lines [] cs
      else split_lines (acc @ [c]) cs)"

definition csv_lines :: "string \<Rightarrow> string list" where
  "csv_lines data = split_lines [] data"

section \<open>Records\<close>

datatype csv_error = CsvEOF | BareQuote | BadQuote | FieldCount

text \<open>
  The fields of one record: \<open>fs\<close> are those read, \<open>acc\<close> the field being read,
  \<open>line\<close> what is left of the line and \<open>rest\<close> the lines after it, which only a quoted
  field can reach into.
\<close>

fun csv_plain :: "string list \<Rightarrow> string \<Rightarrow> string \<Rightarrow> string list \<Rightarrow> csv_error + (string list \<times> string list)"
and csv_quoted :: "string list \<Rightarrow> string \<Rightarrow> string \<Rightarrow> string list \<Rightarrow> csv_error + (string list \<times> string list)"
where
  "csv_plain fs acc [] rest = Inr (fs @ [acc], rest)"
| "csv_plain fs acc (c # cs) rest =
     (if c = CHR '','' then csv_plain (fs @ [acc]) [] cs rest
      else if c = quote_char
        then (if acc = [] then csv_quoted fs [] cs rest else Inl BareQuote)
      else if c = newline \<and> cs = [] then Inr (fs @ [acc], rest)
      else csv_plain fs (acc @ [c]) cs rest)"
| "csv_quoted fs acc [] [] = Inl BadQuote"
| "csv_quoted fs acc [] (l # ls) = csv_quoted fs acc l ls"
| "csv_quoted fs acc (c # cs) rest =
     (if c \<noteq> quote_char then csv_quoted fs (acc @ [c]) cs rest
      else (case cs of
              [] \<Rightarrow> Inr (fs @ [acc], rest)
            | d # ds \<Rightarrow>
                if d = quote_char then csv_quoted fs (acc @ [quote_char]) ds rest
                else if d = CHR '','' then csv_plain (fs @ [acc]) [] ds rest
                else if cs = [newline] then Inr (fs @ [acc], rest)
                else Inl BadQuote))"

lemma csv_rest_le:
  "csv_plain fs acc line rest = Inr (out, rest') \<Longrightarrow> length rest' \<le> length rest"
  "csv_quoted fs acc line rest = Inr (out, rest') \<Longrightarrow> length rest' \<le> length rest"
proof (induction fs acc line rest and fs acc line rest rule: csv_plain_csv_quoted.induct)
  case (5 fs acc c cs rest)
  then show ?case by (cases cs) (auto split: if_splits)
qed (auto split: if_splits)

text \<open>\<open>Read\<close>: empty lines are skipped, and a record with another number of fields is an error.\<close>

fun csv_read :: "nat \<Rightarrow> string list \<Rightarrow> csv_error + (string list \<times> string list)" where
  "csv_read n [] = Inl CsvEOF"
| "csv_read n (l # ls) =
     (if l = [] \<or> l = [newline] then csv_read n ls
      else (case csv_plain [] [] l ls of
              Inl e \<Rightarrow> Inl e
            | Inr (row, rest) \<Rightarrow>
                if length row \<noteq> n then Inl FieldCount else Inr (row, rest)))"

lemma csv_read_less: "csv_read n ls = Inr (fs, rest) \<Longrightarrow> length rest < length ls"
proof (induction n ls rule: csv_read.induct)
  case (2 n l ls)
  then show ?case
    using csv_rest_le(1) [of "[]" "[]" l ls] by (fastforce split: if_splits sum.splits)
qed simp

lemma csv_read_length: "csv_read n ls = Inr (fs, rest) \<Longrightarrow> length fs = n"
  by (induction n ls rule: csv_read.induct) (auto split: if_splits sum.splits)

section \<open>The files of the access control lists\<close>

datatype csv_file_error = FileUnreadable | CsvBad csv_error | UnexpectedHeader

function csv_rows :: "nat \<Rightarrow> string list \<Rightarrow> csv_file_error + string list list" where
  "csv_rows n ls =
     (case csv_read n ls of
        Inl CsvEOF \<Rightarrow> Inr []
      | Inl e \<Rightarrow> Inl (CsvBad e)
      | Inr (row, rest) \<Rightarrow>
          (case csv_rows n rest of Inl e \<Rightarrow> Inl e | Inr rows \<Rightarrow> Inr (row # rows)))"
  by pat_completeness auto
termination
  by (relation "measure (length \<circ> snd)") (auto dest: csv_read_less)

declare csv_rows.simps [simp del]

text \<open>
  A file is its content, \<open>None\<close> where it cannot be opened and read.  The comparison of
  the header's length is covered by the field count.
\<close>

definition readManagementCSV :: "string option \<Rightarrow> string list \<Rightarrow> csv_file_error + string list list" where
  "readManagementCSV file expectedHeader =
     (case file of
        None \<Rightarrow> Inl FileUnreadable
      | Some data \<Rightarrow>
          (case csv_read (length expectedHeader) (csv_lines data) of
             Inl e \<Rightarrow> Inl (CsvBad e)
           | Inr (header, rest) \<Rightarrow>
               if length header \<noteq> length expectedHeader \<or> header \<noteq> expectedHeader
               then Inl UnexpectedHeader
               else csv_rows (length expectedHeader) rest))"

lemma csv_rows_length: "csv_rows n ls = Inr rows \<Longrightarrow> row \<in> set rows \<Longrightarrow> length row = n"
proof (induction n ls arbitrary: rows rule: csv_rows.induct)
  case (1 n ls)
  from 1(2) [unfolded csv_rows.simps [of n ls]] 1(1,3) show ?case
    by (force split: sum.splits csv_error.splits dest: csv_read_length)
qed

lemma readManagementCSV_length:
  "readManagementCSV file header = Inr rows \<Longrightarrow> row \<in> set rows \<Longrightarrow> length row = length header"
  by (auto simp: readManagementCSV_def split: option.splits sum.splits if_splits dest: csv_rows_length)

section \<open>Round trip\<close>

text \<open>
  Fields without commas, quotes and line ends, written plainly, are read back: what the
  files of the access control lists contain in practice.
\<close>

definition plain_field :: "string \<Rightarrow> bool" where
  "plain_field f \<longleftrightarrow> list_all (\<lambda>c. c \<noteq> CHR '','' \<and> c \<noteq> quote_char \<and> c \<noteq> newline \<and> c \<noteq> CHR 0x0D) f"

fun csv_line :: "string list \<Rightarrow> string" where
  "csv_line [] = [newline]"
| "csv_line [f] = f @ [newline]"
| "csv_line (f # fs) = f @ '','' @ csv_line fs"

definition csv_text :: "string list list \<Rightarrow> string" where
  "csv_text rows = concat (map csv_line rows)"

lemma plain_field_simps [simp]:
  "plain_field []"
  "plain_field (c # f) \<longleftrightarrow> c \<noteq> CHR '','' \<and> c \<noteq> quote_char \<and> c \<noteq> newline \<and> c \<noteq> CHR 0x0D \<and> plain_field f"
  by (auto simp: plain_field_def)

lemma csv_plain_field:
  "plain_field f \<Longrightarrow> csv_plain fs acc (f @ CHR '','' # cs) rest = csv_plain (fs @ [acc @ f]) [] cs rest"
  "plain_field f \<Longrightarrow> csv_plain fs acc (f @ [newline]) rest = Inr (fs @ [acc @ f], rest)"
  by (induction f arbitrary: acc) auto

lemma csv_plain_line:
  "row \<noteq> [] \<Longrightarrow> list_all plain_field row \<Longrightarrow> csv_plain fs [] (csv_line row) rest = Inr (fs @ row, rest)"
  by (induction row arbitrary: fs rule: csv_line.induct) (auto simp: csv_plain_field)

text \<open>The body of a line: it has no line end of its own, so the line is read as one.\<close>

fun csv_body :: "string list \<Rightarrow> string" where
  "csv_body [] = []"
| "csv_body [f] = f"
| "csv_body (f # fs) = f @ '','' @ csv_body fs"

lemma csv_line_body: "csv_line row = csv_body row @ [newline]"
  by (induction row rule: csv_line.induct) auto

definition no_eol :: "string \<Rightarrow> bool" where
  "no_eol f \<longleftrightarrow> list_all (\<lambda>c. c \<noteq> newline \<and> c \<noteq> CHR 0x0D) f"

lemma no_eol_plain: "plain_field f \<Longrightarrow> no_eol f"
  by (auto simp: plain_field_def no_eol_def list_all_iff)

lemma no_eol_body: "list_all plain_field row \<Longrightarrow> no_eol (csv_body row)"
  by (induction row rule: csv_body.induct) (auto simp: no_eol_def no_eol_plain [unfolded no_eol_def])

lemma normalize_no_eol: "no_eol f \<Longrightarrow> normalize_line (f @ [newline]) = f @ [newline]"
proof -
  assume f: "no_eol f"
  have "\<not> has_suffix (f @ [newline]) [CHR 0x0D, newline]"
  proof
    assume "has_suffix (f @ [newline]) [CHR 0x0D, newline]"
    then obtain r where "f @ [newline] = r @ [CHR 0x0D, newline]" using has_suffixE by blast
    then have "f = r @ [CHR 0x0D]" by simp
    with f show False by (simp add: no_eol_def)
  qed
  moreover have "\<not> has_suffix (f @ [newline]) [CHR 0x0D]"
    by (auto dest!: has_suffixE)
  ultimately show ?thesis by (simp add: normalize_line_def)
qed

lemma split_lines_line:
  "no_eol f \<Longrightarrow> split_lines acc (f @ newline # rest) = normalize_line (acc @ f @ [newline]) # split_lines [] rest"
  by (induction f arbitrary: acc) (auto simp: no_eol_def)

lemma csv_lines_text: "list_all (list_all plain_field) rows \<Longrightarrow> csv_lines (csv_text rows) = map csv_line rows"
  by (induction rows)
    (auto simp: csv_lines_def csv_text_def csv_line_body split_lines_line no_eol_body normalize_no_eol)

lemma csv_line_not_blank: "1 < length row \<Longrightarrow> csv_line row \<noteq> [] \<and> csv_line row \<noteq> [newline]"
  by (cases row rule: csv_line.cases) (auto simp: append_eq_Cons_conv)

lemma csv_read_line:
  "list_all plain_field row \<Longrightarrow> length row = n \<Longrightarrow> 1 < n \<Longrightarrow> csv_read n (csv_line row # ls) = Inr (row, ls)"
  using csv_line_not_blank [of row] csv_plain_line [of row "[]" ls] by (cases "row = []") auto

lemma csv_rows_text:
  "list_all (\<lambda>row. list_all plain_field row \<and> length row = n) rows \<Longrightarrow> 1 < n \<Longrightarrow>
   csv_rows n (map csv_line rows) = Inr rows"
proof (induction rows)
  case Nil
  then show ?case by (subst csv_rows.simps) simp
next
  case (Cons row rows)
  then have "csv_read n (csv_line row # map csv_line rows) = Inr (row, map csv_line rows)"
    by (intro csv_read_line) auto
  then show ?case using Cons by (subst csv_rows.simps) (simp del: csv_read.simps)
qed

lemma readManagementCSV_text:
  assumes "list_all (\<lambda>row. list_all plain_field row \<and> length row = length header) rows"
    and "list_all plain_field header" and "1 < length header"
  shows "readManagementCSV (Some (csv_text (header # rows))) header = Inr rows"
proof -
  have "csv_lines (csv_text (header # rows)) = map csv_line (header # rows)"
    using assms by (intro csv_lines_text) (auto simp: list_all_iff)
  moreover have "csv_read (length header) (map csv_line (header # rows)) = Inr (header, map csv_line rows)"
    using csv_read_line [of header "length header" "map csv_line rows"] assms by simp
  ultimately show ?thesis
    using csv_rows_text [of "length header" rows] assms by (simp add: readManagementCSV_def)
qed

end
