(* ===== verification/Authorizer.thy ===== *)
theory Authorizer
  imports Live_Events Go_Csv
begin

text \<open>
  The Management API's access control (\<open>management_api.go\<close>, lines 33 to 107 and 230 to
  501, and \<open>recording_jobs.go\<close>, lines 102 to 108): the three CSV files, the authorizer
  built from them, and the decisions it makes.
\<close>

section \<open>Data\<close>

definition managementAPIHealthPermission :: string where
  "managementAPIHealthPermission = ''health.read''"

definition managementAPIRevokePermission :: string where
  "managementAPIRevokePermission = ''service_admission.revoke''"

definition managementAPIFingerprintPattern :: "string \<Rightarrow> bool" where
  "managementAPIFingerprintPattern s =
     (length s = 64 \<and> list_all (\<lambda>c. is_digit c \<or> (97 \<le> byte_of c \<and> byte_of c \<le> 102)) s)"

definition managementAPIDecimalPattern :: "string \<Rightarrow> bool" where
  "managementAPIDecimalPattern s = (s \<noteq> [] \<and> list_all is_digit s)"

definition managementAPIPermissionPattern :: "string \<Rightarrow> bool" where
  "managementAPIPermissionPattern s =
     (case s of [] \<Rightarrow> False
      | c # r \<Rightarrow> is_lower c \<and> length r \<le> 63 \<and>
          list_all (\<lambda>c. is_lower c \<or> is_digit c \<or> c = CHR ''.'' \<or> c = CHR ''_'' \<or> c = CHR ''-'') r)"

definition managementAPIKnownGlobalPermissions :: "string list" where
  "managementAPIKnownGlobalPermissions = [managementAPIHealthPermission, managementAPIRevokePermission]"

record managementAdmissionACL =
  aclRole :: string
  aclAllowListen :: bool
  aclAllowTalk :: bool
  aclAllowInterrupt :: bool
  aclInterruptPriority :: u8
  aclEnabled :: bool

type_synonym managementAdmissionKey = "u32 \<times> u32"

record managementAPIService =
  svcID :: string
  svcRole :: string
  svcEnabled :: bool
  svcChannels :: "(u32, unit) gomap"
  svcAdmissions :: "(managementAdmissionKey, managementAdmissionACL) gomap"
  svcGlobalPermissions :: "(string, unit) gomap"

text \<open>
  Both maps of the source hold the same pointers, one for each service identifier.  The
  services are stored once, under their identifier, and a fingerprint gives the identifier.
\<close>

record managementAPIAuthorizer =
  auFingerprints :: "(string, string) gomap"
  auServices :: "(string, managementAPIService) gomap"

section \<open>Fields\<close>

datatype field_error = NotBool | NotU32 | IsZero

definition parseManagementBool :: "string \<Rightarrow> field_error + bool" where
  "parseManagementBool value =
     (if value = ''true'' then Inr True
      else if value = ''false'' then Inr False
      else Inl NotBool)"

definition parseManagementU32 :: "string \<Rightarrow> bool \<Rightarrow> field_error + u32" where
  "parseManagementU32 value nonzero =
     (if \<not> managementAPIDecimalPattern value then Inl NotU32
      else (case parse_uint32 value of
              None \<Rightarrow> Inl NotU32
            | Some parsed \<Rightarrow> if nonzero \<and> parsed = 0 then Inl IsZero else Inr parsed))"

definition validManagementAPIRole :: "string \<Rightarrow> bool" where
  "validManagementAPIRole role =
     (role = ''viewer'' \<or> role = ''recorder'' \<or> role = ''operator'' \<or> role = ''auditor'' \<or> role = ''admin'')"

section \<open>Loading\<close>

datatype row_error =
    BadField field_error
  | InvalidServiceID | InvalidFingerprint | InvalidAPIRole | DuplicateService | DuplicateFingerprint
  | ServiceUnknownOrDisabled | InvalidAdmissionRole | PriorityRange | NotReceiveOnly
  | InterruptNeedsTalk | PriorityNeedsInterrupt | DuplicateTuple
  | InvalidPermission | UnsupportedPermission | DuplicatePermission

datatype acl_file = ServicesFile | ChannelACLFile | GlobalPermissionsFile

datatype load_error = FileError acl_file csv_file_error | RowError acl_file nat row_error

text \<open>One row of \<open>management-services.csv\<close>.\<close>

definition service_row ::
  "string list \<Rightarrow> managementAPIAuthorizer \<Rightarrow> row_error + managementAPIAuthorizer" where
  "service_row row a =
     (let serviceID = row ! 0; fingerprint = row ! 1; role = row ! 2
      in case parseManagementBool (row ! 3) of
           Inl e \<Rightarrow> Inl (BadField e)
         | Inr enabled \<Rightarrow>
             if \<not> validManagementServiceID serviceID then Inl InvalidServiceID
             else if \<not> managementAPIFingerprintPattern fingerprint then Inl InvalidFingerprint
             else if \<not> validManagementAPIRole role then Inl InvalidAPIRole
             else if mhas (auServices a) serviceID then Inl DuplicateService
             else if mhas (auFingerprints a) fingerprint then Inl DuplicateFingerprint
             else Inr (a\<lparr>auServices := mput serviceID
                           \<lparr>svcID = serviceID, svcRole = role, svcEnabled = enabled,
                            svcChannels = [], svcAdmissions = [], svcGlobalPermissions = []\<rparr>
                           (auServices a),
                         auFingerprints := mput fingerprint serviceID (auFingerprints a)\<rparr>))"

text \<open>The fields of a row of \<open>management-channel-acl.csv\<close> after its first one.\<close>

definition acl_fields ::
  "string list \<Rightarrow> row_error + (managementAdmissionKey \<times> managementAdmissionACL)" where
  "acl_fields row =
     (case parseManagementU32 (row ! 1) False of Inl e \<Rightarrow> Inl (BadField e) | Inr channelID \<Rightarrow>
      case parseManagementU32 (row ! 2) True of Inl e \<Rightarrow> Inl (BadField e) | Inr senderID \<Rightarrow>
      if row ! 3 \<noteq> ''recorder'' \<and> row ! 3 \<noteq> ''observer'' \<and> row ! 3 \<noteq> ''automation''
      then Inl InvalidAdmissionRole else
      case parseManagementBool (row ! 4) of Inl e \<Rightarrow> Inl (BadField e) | Inr allowListen \<Rightarrow>
      case parseManagementBool (row ! 5) of Inl e \<Rightarrow> Inl (BadField e) | Inr allowTalk \<Rightarrow>
      case parseManagementBool (row ! 6) of Inl e \<Rightarrow> Inl (BadField e) | Inr allowInterrupt \<Rightarrow>
      case parseManagementU32 (row ! 7) False of Inl e \<Rightarrow> Inl (BadField e) | Inr priority \<Rightarrow>
      if 255 < priority then Inl PriorityRange else
      case parseManagementBool (row ! 8) of Inl e \<Rightarrow> Inl (BadField e) | Inr enabled \<Rightarrow>
      if (row ! 3 = ''recorder'' \<or> row ! 3 = ''observer'')
         \<and> (\<not> allowListen \<or> allowTalk \<or> allowInterrupt \<or> priority \<noteq> 0)
      then Inl NotReceiveOnly
      else if allowInterrupt \<and> (\<not> allowTalk \<or> priority = 0) then Inl InterruptNeedsTalk
      else if \<not> allowInterrupt \<and> priority \<noteq> 0 then Inl PriorityNeedsInterrupt
      else Inr ((channelID, senderID),
             \<lparr>aclRole = row ! 3, aclAllowListen = allowListen, aclAllowTalk = allowTalk,
              aclAllowInterrupt = allowInterrupt, aclInterruptPriority = ucast priority,
              aclEnabled = enabled\<rparr>))"

text \<open>The key \<open>fmt.Sprintf("%s/%d/%d", ...)\<close> of the duplicate check.\<close>

definition acl_tuple :: "string \<Rightarrow> managementAdmissionKey \<Rightarrow> string" where
  "acl_tuple sid k = sid @ ''/'' @ word_to_dec (fst k) @ ''/'' @ word_to_dec (snd k)"

definition acl_row ::
  "string list \<Rightarrow> managementAPIAuthorizer \<times> (string, unit) gomap
   \<Rightarrow> row_error + managementAPIAuthorizer \<times> (string, unit) gomap" where
  "acl_row row s =
     (case s of (a, seenACL) \<Rightarrow>
      case mget (auServices a) (row ! 0) of None \<Rightarrow> Inl ServiceUnknownOrDisabled | Some service \<Rightarrow>
      if \<not> svcEnabled service then Inl ServiceUnknownOrDisabled else
      case acl_fields row of Inl e \<Rightarrow> Inl e | Inr (k, acl) \<Rightarrow>
      let tuple = acl_tuple (svcID service) k
      in if mhas seenACL tuple then Inl DuplicateTuple
         else
           let seenACL = mput tuple () seenACL
           in if aclEnabled acl
              then Inr (a\<lparr>auServices := mput (row ! 0)
                            (service\<lparr>svcChannels := mput (fst k) () (svcChannels service),
                                     svcAdmissions := mput k acl (svcAdmissions service)\<rparr>)
                            (auServices a)\<rparr>, seenACL)
              else Inr (a, seenACL))"

text \<open>One row of \<open>management-global-permissions.csv\<close>.\<close>

definition permission_key :: "string \<Rightarrow> string \<Rightarrow> string" where
  "permission_key sid perm = sid @ [CHR 0x00] @ perm"

definition permission_row ::
  "string list \<Rightarrow> managementAPIAuthorizer \<times> (string, unit) gomap
   \<Rightarrow> row_error + managementAPIAuthorizer \<times> (string, unit) gomap" where
  "permission_row row s =
     (case s of (a, seenPermissions) \<Rightarrow>
      case mget (auServices a) (row ! 0) of None \<Rightarrow> Inl ServiceUnknownOrDisabled | Some service \<Rightarrow>
      if \<not> svcEnabled service then Inl ServiceUnknownOrDisabled
      else if \<not> managementAPIPermissionPattern (row ! 1) then Inl InvalidPermission
      else if row ! 1 \<notin> set managementAPIKnownGlobalPermissions then Inl UnsupportedPermission
      else case parseManagementBool (row ! 2) of Inl e \<Rightarrow> Inl (BadField e) | Inr enabled \<Rightarrow>
      let key = permission_key (svcID service) (row ! 1)
      in if mhas seenPermissions key then Inl DuplicatePermission
         else
           let seenPermissions = mput key () seenPermissions
           in if enabled
              then Inr (a\<lparr>auServices := mput (row ! 0)
                            (service\<lparr>svcGlobalPermissions :=
                               mput (row ! 1) () (svcGlobalPermissions service)\<rparr>)
                            (auServices a)\<rparr>, seenPermissions)
              else Inr (a, seenPermissions))"

text \<open>The loops over the rows; row 0 is line 2 of its file.\<close>

fun row_loop ::
  "acl_file \<Rightarrow> (string list \<Rightarrow> 's \<Rightarrow> row_error + 's) \<Rightarrow> nat \<Rightarrow> string list list \<Rightarrow> 's \<Rightarrow> load_error + 's" where
  "row_loop file f n [] s = Inr s"
| "row_loop file f n (row # rows) s =
     (case f row s of
        Inl e \<Rightarrow> Inl (RowError file (n + 2) e)
      | Inr s' \<Rightarrow> row_loop file f (Suc n) rows s')"

definition servicesHeader :: "string list" where
  "servicesHeader = [''service_id'', ''certificate_sha256'', ''api_role'', ''enabled'']"

definition channelACLHeader :: "string list" where
  "channelACLHeader =
     [''service_id'', ''channel_id'', ''sender_id'', ''admission_role'', ''allow_listen'', ''allow_talk'',
      ''allow_interrupt'', ''interrupt_priority'', ''enabled'']"

definition globalPermissionsHeader :: "string list" where
  "globalPermissionsHeader = [''service_id'', ''permission'', ''enabled'']"

text \<open>The three files are given by their contents.\<close>

definition loadManagementAPIAuthorizer ::
  "string option \<Rightarrow> string option \<Rightarrow> string option \<Rightarrow> load_error + managementAPIAuthorizer" where
  "loadManagementAPIAuthorizer servicesFile channelACLFile globalPermissionsFile =
     (case readManagementCSV servicesFile servicesHeader of
        Inl e \<Rightarrow> Inl (FileError ServicesFile e) | Inr serviceRows \<Rightarrow>
      case row_loop ServicesFile service_row 0 serviceRows \<lparr>auFingerprints = [], auServices = []\<rparr> of
        Inl e \<Rightarrow> Inl e | Inr a \<Rightarrow>
      case readManagementCSV channelACLFile channelACLHeader of
        Inl e \<Rightarrow> Inl (FileError ChannelACLFile e) | Inr aclRows \<Rightarrow>
      case row_loop ChannelACLFile acl_row 0 aclRows (a, []) of
        Inl e \<Rightarrow> Inl e | Inr (a, _) \<Rightarrow>
      case readManagementCSV globalPermissionsFile globalPermissionsHeader of
        Inl e \<Rightarrow> Inl (FileError GlobalPermissionsFile e) | Inr globalRows \<Rightarrow>
      case row_loop GlobalPermissionsFile permission_row 0 globalRows (a, []) of
        Inl e \<Rightarrow> Inl e | Inr (a, _) \<Rightarrow> Inr a)"

section \<open>Decisions\<close>

text \<open>
  \<open>peer\<close> is the raw first peer certificate, \<open>None\<close> without TLS or a peer certificate;
  \<open>fingerprint\<close> is the lowercase hexadecimal SHA-256 of a certificate.
\<close>

definition serviceForRequest ::
  "(string \<Rightarrow> string) \<Rightarrow> managementAPIAuthorizer \<Rightarrow> string option \<Rightarrow> managementAPIService option" where
  "serviceForRequest fingerprint a peer =
     (case peer of None \<Rightarrow> None | Some raw \<Rightarrow>
      case mget (auFingerprints a) (fingerprint raw) of None \<Rightarrow> None | Some sid \<Rightarrow>
      case mget (auServices a) sid of None \<Rightarrow> None | Some service \<Rightarrow>
      if svcEnabled service then Some service else None)"

definition hasGlobalPermission :: "managementAPIService \<Rightarrow> string \<Rightarrow> bool" where
  "hasGlobalPermission s permission = mhas (svcGlobalPermissions s) permission"

definition canReadChannels :: "managementAPIService \<Rightarrow> bool" where
  "canReadChannels s =
     ((svcRole s = ''viewer'' \<or> svcRole s = ''recorder'' \<or> svcRole s = ''operator'') \<and> 0 < mlen (svcChannels s))"

definition canReadChannel :: "managementAPIService \<Rightarrow> u32 \<Rightarrow> bool" where
  "canReadChannel s channelID = (if \<not> canReadChannels s then False else mhas (svcChannels s) channelID)"

text \<open>The receivers that may be nil are \<open>option\<close>s.\<close>

definition canReadEventChannel :: "managementAPIService option \<Rightarrow> u32 \<Rightarrow> bool" where
  "canReadEventChannel s channelID =
     (case s of None \<Rightarrow> False
      | Some s \<Rightarrow>
          if svcRole s \<noteq> ''viewer'' \<and> svcRole s \<noteq> ''recorder'' \<and> svcRole s \<noteq> ''operator'' \<and> svcRole s \<noteq> ''auditor''
          then False else mhas (svcChannels s) channelID)"

definition canOpenEventStream :: "managementAPIService option \<Rightarrow> bool" where
  "canOpenEventStream s =
     (case s of None \<Rightarrow> False
      | Some s \<Rightarrow>
          if hasGlobalPermission s managementAPIHealthPermission then True
          else if svcRole s \<noteq> ''viewer'' \<and> svcRole s \<noteq> ''recorder'' \<and> svcRole s \<noteq> ''operator'' \<and> svcRole s \<noteq> ''auditor''
          then False else 0 < mlen (svcChannels s))"

definition canReceiveEvent :: "managementAPIService \<Rightarrow> managementEvent \<Rightarrow> bool" where
  "canReceiveEvent s event =
     (case evChannelID event of
        Some c \<Rightarrow> canReadEventChannel (Some s) c
      | None \<Rightarrow> evType event = ''relay_health_changed'' \<and> hasGlobalPermission s managementAPIHealthPermission)"

definition admissionACL ::
  "managementAPIService option \<Rightarrow> u32 \<Rightarrow> u32 \<Rightarrow> managementAdmissionACL option" where
  "admissionACL s channelID senderID =
     (case s of None \<Rightarrow> None
      | Some s \<Rightarrow>
          (case mget (svcAdmissions s) (channelID, senderID) of None \<Rightarrow> None
           | Some acl \<Rightarrow> if aclEnabled acl then Some acl else None))"

definition canManageRecordingChannel :: "managementAPIService option \<Rightarrow> u32 \<Rightarrow> bool" where
  "canManageRecordingChannel s channelID =
     (case s of None \<Rightarrow> False
      | Some s \<Rightarrow>
          if svcRole s \<noteq> ''recorder'' \<and> svcRole s \<noteq> ''operator'' then False
          else mhas (svcChannels s) channelID)"

section \<open>Keys of the duplicate checks\<close>

lemma digits_not_slash: "list_all is_digit s \<Longrightarrow> CHR ''/'' \<notin> set s"
  by (auto simp: list_all_iff is_digit_def)

lemma split_at_sep:
  assumes "x @ c # y = x' @ c # y'" and "c \<notin> set x" and "c \<notin> set x'"
  shows "x = x' \<and> y = y'"
proof -
  have "takeWhile (\<lambda>d. d \<noteq> c) (x @ c # y) = x" "takeWhile (\<lambda>d. d \<noteq> c) (x' @ c # y') = x'"
    using assms(2,3) by (auto simp: takeWhile_append)
  then show ?thesis using assms(1) by auto
qed

lemma word_to_dec_not_slash: "CHR ''/'' \<notin> set (word_to_dec w)"
  by (simp add: word_to_dec_def digits_not_slash nat_to_dec_digits)

lemma service_id_no_char:
  "validManagementServiceID s \<Longrightarrow> CHR ''/'' \<notin> set s"
  "validManagementServiceID s \<Longrightarrow> CHR 0x00 \<notin> set s"
  using validManagementServiceID_chars [of s] service_id_char_not_slash service_id_char_not_nul
  by (auto simp: list_all_iff)

lemma acl_tuple_inject:
  assumes "validManagementServiceID sid" and "validManagementServiceID sid'"
  shows "acl_tuple sid k = acl_tuple sid' k' \<longleftrightarrow> sid = sid' \<and> k = k'"
proof
  assume eq: "acl_tuple sid k = acl_tuple sid' k'"
  have 1: "sid = sid' \<and> word_to_dec (fst k) @ CHR ''/'' # word_to_dec (snd k)
      = word_to_dec (fst k') @ CHR ''/'' # word_to_dec (snd k')"
    using eq assms by (intro split_at_sep [of _ "CHR ''/''"]) (simp_all add: acl_tuple_def service_id_no_char)
  then have "word_to_dec (fst k) = word_to_dec (fst k') \<and> word_to_dec (snd k) = word_to_dec (snd k')"
    by (intro split_at_sep [of _ "CHR ''/''"]) (simp_all add: word_to_dec_not_slash)
  with 1 show "sid = sid' \<and> k = k'" by (simp add: prod_eq_iff)
qed simp

lemma permission_key_inject:
  assumes "validManagementServiceID sid" and "validManagementServiceID sid'"
  shows "permission_key sid p = permission_key sid' p' \<longleftrightarrow> sid = sid' \<and> p = p'"
  using split_at_sep [of sid "CHR 0x00" p sid' p'] assms service_id_no_char
  by (auto simp: permission_key_def)

section \<open>The loops\<close>

text \<open>A relation to the rows read so far that each row keeps holds at the end of the loop.\<close>

lemma row_loop_prefix:
  assumes "row_loop file f n rows s = Inr t" and "P xs s"
    and "\<And>xs row s t. P xs s \<Longrightarrow> f row s = Inr t \<Longrightarrow> P (xs @ [row]) t"
  shows "P (xs @ rows) t"
  using assms(1,2)
proof (induction rows arbitrary: n s xs)
  case Nil
  then show ?case by simp
next
  case (Cons row rows)
  then show ?case
    using assms(3) [of xs s row] Cons.IH [of "Suc n" _ "xs @ [row]"]
    by (auto split: sum.splits)
qed

text \<open>A row is accepted exactly when the loop before it is and the row is.\<close>

lemma row_loop_append:
  "row_loop file f n (xs @ ys) s =
     (case row_loop file f n xs s of Inl e \<Rightarrow> Inl e
      | Inr t \<Rightarrow> row_loop file f (n + length xs) ys t)"
  by (induction xs arbitrary: n s) (auto split: sum.split)

section \<open>What the rows say\<close>

definition service_entry :: "string list \<Rightarrow> managementAPIService \<Rightarrow> bool" where
  "service_entry row svc \<longleftrightarrow> row ! 0 = svcID svc \<and> row ! 2 = svcRole svc
     \<and> parseManagementBool (row ! 3) = Inr (svcEnabled svc)"

definition admission_entry :: "string list \<Rightarrow> string \<Rightarrow> managementAdmissionKey \<Rightarrow> managementAdmissionACL \<Rightarrow> bool"
where
  "admission_entry row sid k acl \<longleftrightarrow> row ! 0 = sid \<and> acl_fields row = Inr (k, acl) \<and> aclEnabled acl"

definition permission_entry :: "string list \<Rightarrow> string \<Rightarrow> string \<Rightarrow> bool" where
  "permission_entry row sid p \<longleftrightarrow> row ! 0 = sid \<and> row ! 1 = p \<and> parseManagementBool (row ! 2) = Inr True"

text \<open>A channel entry of the ACL is consistent.\<close>

definition acl_ok :: "managementAdmissionACL \<Rightarrow> bool" where
  "acl_ok acl \<longleftrightarrow>
     aclRole acl \<in> {''recorder'', ''observer'', ''automation''}
     \<and> (aclRole acl \<in> {''recorder'', ''observer''} \<longrightarrow>
          aclAllowListen acl \<and> \<not> aclAllowTalk acl \<and> \<not> aclAllowInterrupt acl)
     \<and> (aclAllowInterrupt acl \<longrightarrow> aclAllowTalk acl)
     \<and> (aclAllowInterrupt acl \<longleftrightarrow> aclInterruptPriority acl \<noteq> 0)"

lemma u8_ucast_zero:
  "\<not> 255 < (p :: u32) \<Longrightarrow> (ucast p :: u8) = 0 \<longleftrightarrow> p = 0"
  by (simp add: word_less_nat_alt word_unat_eq_iff unsigned_ucast_eq take_bit_eq_mod)

lemma acl_fields_ok:
  assumes "acl_fields row = Inr (k, acl)"
  shows "acl_ok acl" and "snd k \<noteq> 0"
proof -
  show "snd k \<noteq> 0"
    using assms by (auto simp: acl_fields_def parseManagementU32_def split: sum.splits if_splits option.splits)
  show "acl_ok acl"
    using assms u8_ucast_zero unfolding acl_fields_def
    by (auto simp: acl_ok_def split: sum.splits if_splits)
qed

section \<open>What loading builds\<close>

text \<open>The services file: one enabled or disabled service a row, named by its fingerprint.\<close>

definition fresh_service :: "string \<Rightarrow> managementAPIService \<Rightarrow> bool" where
  "fresh_service sid svc \<longleftrightarrow> svcID svc = sid \<and> validManagementServiceID sid
     \<and> validManagementAPIRole (svcRole svc)
     \<and> svcChannels svc = [] \<and> svcAdmissions svc = [] \<and> svcGlobalPermissions svc = []"

definition services_read :: "string list list \<Rightarrow> managementAPIAuthorizer \<Rightarrow> bool" where
  "services_read xs a \<longleftrightarrow>
     gomap_ok (auServices a) \<and> gomap_ok (auFingerprints a)
     \<and> (\<forall>sid svc. mget (auServices a) sid = Some svc \<longrightarrow>
          fresh_service sid svc \<and> (\<exists>row \<in> set xs. service_entry row svc))
     \<and> (\<forall>row \<in> set xs. mget (auFingerprints a) (row ! 1) = Some (row ! 0)
          \<and> (\<exists>svc. mget (auServices a) (row ! 0) = Some svc \<and> service_entry row svc))
     \<and> (\<forall>fp sid. mget (auFingerprints a) fp = Some sid \<longrightarrow>
          managementAPIFingerprintPattern fp \<and> (\<exists>row \<in> set xs. row ! 0 = sid \<and> row ! 1 = fp))
     \<and> distinct (map (\<lambda>row. row ! 0) xs) \<and> distinct (map (\<lambda>row. row ! 1) xs)"

lemma service_row_eq:
  assumes "service_row row a = Inr b"
  obtains svc where "fresh_service (row ! 0) svc" "service_entry row svc"
    "managementAPIFingerprintPattern (row ! 1)"
    "\<not> mhas (auServices a) (row ! 0)" "\<not> mhas (auFingerprints a) (row ! 1)"
    "auServices b = mput (row ! 0) svc (auServices a)"
    "auFingerprints b = mput (row ! 1) (row ! 0) (auFingerprints a)"
proof -
  from assms obtain enabled where e: "parseManagementBool (row ! 3) = Inr enabled"
    by (auto simp: service_row_def Let_def split: sum.splits)
  let ?svc = "\<lparr>svcID = row ! 0, svcRole = row ! 2, svcEnabled = enabled,
                svcChannels = [], svcAdmissions = [], svcGlobalPermissions = []\<rparr>"
  show ?thesis
    using assms e that [of ?svc]
    by (simp add: service_row_def Let_def fresh_service_def service_entry_def split: if_splits) auto
qed

lemma services_read_step:
  assumes "services_read xs a" and "service_row row a = Inr b"
  shows "services_read (xs @ [row]) b"
proof -
  from service_row_eq [OF assms(2)] obtain svc where
    svc: "fresh_service (row ! 0) svc" "service_entry row svc" "managementAPIFingerprintPattern (row ! 1)"
    and new: "\<not> mhas (auServices a) (row ! 0)" "\<not> mhas (auFingerprints a) (row ! 1)"
    and b: "auServices b = mput (row ! 0) svc (auServices a)"
      "auFingerprints b = mput (row ! 1) (row ! 0) (auFingerprints a)" .
  have old: "r ! 0 \<noteq> row ! 0 \<and> r ! 1 \<noteq> row ! 1" if "r \<in> set xs" for r
    using assms(1) that new by (auto simp: services_read_def mhas_iff)
  show ?thesis
    unfolding services_read_def
  proof (intro conjI)
    show "\<forall>sid svc. mget (auServices b) sid = Some svc \<longrightarrow>
          fresh_service sid svc \<and> (\<exists>row \<in> set (xs @ [row]). service_entry row svc)"
      using assms(1) svc by (auto simp: services_read_def b mget_put split: if_splits)
    show "\<forall>r \<in> set (xs @ [row]). mget (auFingerprints b) (r ! 1) = Some (r ! 0)
          \<and> (\<exists>svc. mget (auServices b) (r ! 0) = Some svc \<and> service_entry r svc)"
      using assms(1) svc(2) old by (auto simp: services_read_def b mget_put)
    show "\<forall>fp sid. mget (auFingerprints b) fp = Some sid \<longrightarrow>
          managementAPIFingerprintPattern fp \<and> (\<exists>r \<in> set (xs @ [row]). r ! 0 = sid \<and> r ! 1 = fp)"
      using assms(1) svc(3) by (auto simp: services_read_def b mget_put split: if_splits)
    show "distinct (map (\<lambda>row. row ! 0) (xs @ [row]))" "distinct (map (\<lambda>row. row ! 1) (xs @ [row]))"
      using assms(1) old by (simp_all add: services_read_def) force+
  qed (use assms(1) in \<open>auto simp: services_read_def b\<close>)
qed

lemma services_read_loop:
  assumes "row_loop ServicesFile service_row 0 rows \<lparr>auFingerprints = [], auServices = []\<rparr> = Inr a"
  shows "services_read rows a"
proof -
  have "services_read [] \<lparr>auFingerprints = [], auServices = []\<rparr>" by (simp add: services_read_def)
  from row_loop_prefix [OF assms, of services_read "[]", OF this services_read_step]
  show ?thesis by simp
qed

text \<open>
  The channel ACL: relative to the authorizer \<open>a0\<close> the services file gave, the loop only
  adds the channels and admissions of the enabled rows, and no row repeats a tuple.
\<close>

definition acl_key :: "string list \<Rightarrow> string \<times> managementAdmissionKey" where
  "acl_key row = (row ! 0, fst (projr (acl_fields row)))"

definition base_ok :: "managementAPIAuthorizer \<Rightarrow> bool" where
  "base_ok a0 \<longleftrightarrow> gomap_ok (auServices a0)
     \<and> (\<forall>sid svc. mget (auServices a0) sid = Some svc \<longrightarrow> fresh_service sid svc)"

definition admissions_are :: "string list list \<Rightarrow> string \<Rightarrow> managementAPIService \<Rightarrow> bool" where
  "admissions_are xs sid s \<longleftrightarrow>
     (\<forall>k acl. mget (svcAdmissions s) k = Some acl \<longleftrightarrow> (\<exists>row \<in> set xs. admission_entry row sid k acl))"

definition channels_are :: "managementAPIService \<Rightarrow> bool" where
  "channels_are s \<longleftrightarrow> (\<forall>c. mhas (svcChannels s) c \<longleftrightarrow> (\<exists>d. mhas (svcAdmissions s) (c, d)))"

definition service_acl_read :: "string list list \<Rightarrow> string \<Rightarrow> managementAPIService \<Rightarrow> managementAPIService \<Rightarrow> bool"
where
  "service_acl_read xs sid s0 s \<longleftrightarrow>
     s0 = s\<lparr>svcChannels := [], svcAdmissions := []\<rparr>
     \<and> gomap_ok (svcAdmissions s) \<and> gomap_ok (svcChannels s)
     \<and> admissions_are xs sid s \<and> channels_are s"

definition acl_row_ok :: "managementAPIAuthorizer \<Rightarrow> string list \<Rightarrow> bool" where
  "acl_row_ok a0 row \<longleftrightarrow>
     (\<exists>svc. mget (auServices a0) (row ! 0) = Some svc \<and> svcEnabled svc)
     \<and> (\<exists>k acl. acl_fields row = Inr (k, acl))"

definition acl_read ::
  "managementAPIAuthorizer \<Rightarrow> string list list \<Rightarrow> managementAPIAuthorizer \<times> (string, unit) gomap \<Rightarrow> bool"
where
  "acl_read a0 xs p \<longleftrightarrow>
     auFingerprints (fst p) = auFingerprints a0 \<and> gomap_ok (auServices (fst p))
     \<and> (\<forall>sid. rel_option (service_acl_read xs sid) (mget (auServices a0) sid) (mget (auServices (fst p)) sid))
     \<and> (\<forall>row \<in> set xs. acl_row_ok a0 row)
     \<and> (\<forall>t. mhas (snd p) t \<longleftrightarrow> (\<exists>row \<in> set xs. t = acl_tuple (row ! 0) (snd (acl_key row))))
     \<and> distinct (map acl_key xs)"

lemma acl_row_eq:
  assumes "acl_row row (a, seen) = Inr (b, seen')"
  obtains svc k acl where "mget (auServices a) (row ! 0) = Some svc" "svcEnabled svc"
    "acl_fields row = Inr (k, acl)" "\<not> mhas seen (acl_tuple (svcID svc) k)"
    "seen' = mput (acl_tuple (svcID svc) k) () seen" "auFingerprints b = auFingerprints a"
    "auServices b = (if aclEnabled acl
       then mput (row ! 0) (svc\<lparr>svcChannels := mput (fst k) () (svcChannels svc),
              svcAdmissions := mput k acl (svcAdmissions svc)\<rparr>) (auServices a)
       else auServices a)"
proof -
  from assms obtain svc where svc: "mget (auServices a) (row ! 0) = Some svc" "svcEnabled svc"
    by (auto simp: acl_row_def split: option.splits if_splits)
  moreover from assms svc obtain k acl where acl: "acl_fields row = Inr (k, acl)"
    by (auto simp: acl_row_def split: sum.splits)
  moreover have "\<not> mhas seen (acl_tuple (svcID svc) k)"
    using assms svc acl by (auto simp: acl_row_def Let_def)
  ultimately show ?thesis
    using assms that [of svc k acl] by (auto simp: acl_row_def Let_def split: if_splits)
qed

lemma service_acl_read_other:
  "service_acl_read xs sid s0 s \<Longrightarrow> (\<And>k acl. \<not> admission_entry row sid k acl) \<Longrightarrow>
   service_acl_read (xs @ [row]) sid s0 s"
  by (simp add: service_acl_read_def admissions_are_def)

lemma service_acl_read_put:
  assumes s: "service_acl_read xs (row ! 0) s0 s"
    and acl: "acl_fields row = Inr (k, acl)" "aclEnabled acl"
    and new: "\<And>r. r \<in> set xs \<Longrightarrow> acl_key r \<noteq> (row ! 0, k)"
  shows "service_acl_read (xs @ [row]) (row ! 0) s0
     (s\<lparr>svcChannels := mput (fst k) () (svcChannels s), svcAdmissions := mput k acl (svcAdmissions s)\<rparr>)"
proof -
  have entry: "admission_entry row (row ! 0) k' acl' \<longleftrightarrow> k' = k \<and> acl' = acl" for k' acl'
    using acl by (auto simp: admission_entry_def)
  have none: "\<not> admission_entry r (row ! 0) k acl'" if "r \<in> set xs" for r acl'
    using new [OF that] by (auto simp: admission_entry_def acl_key_def)
  have old: "mget (svcAdmissions s) k' = Some acl' \<longleftrightarrow> (\<exists>r \<in> set xs. admission_entry r (row ! 0) k' acl')"
    for k' acl'
    using s unfolding service_acl_read_def admissions_are_def by blast
  have "mget (mput k acl (svcAdmissions s)) k' = Some acl' \<longleftrightarrow>
      (\<exists>r \<in> set (xs @ [row]). admission_entry r (row ! 0) k' acl')" for k' acl'
    using old [of k' acl'] none entry [of k' acl'] by (cases "k' = k") (auto simp: mget_put)
  moreover have "mhas (mput (fst k) () (svcChannels s)) c \<longleftrightarrow> (\<exists>d. mhas (mput k acl (svcAdmissions s)) (c, d))" for c
    using s by (cases k) (auto simp: service_acl_read_def channels_are_def)
  ultimately show ?thesis
    using s by (simp add: service_acl_read_def admissions_are_def channels_are_def)
qed

lemma acl_read_step:
  assumes base: "base_ok a0" and p: "acl_read a0 xs (a, seen)" and step: "acl_row row (a, seen) = Inr (b, seen')"
  shows "acl_read a0 (xs @ [row]) (b, seen')"
proof -
  from acl_row_eq [OF step] obtain svc k acl where
    svc: "mget (auServices a) (row ! 0) = Some svc" "svcEnabled svc"
    and acl: "acl_fields row = Inr (k, acl)" and new: "\<not> mhas seen (acl_tuple (svcID svc) k)"
    and b: "seen' = mput (acl_tuple (svcID svc) k) () seen" "auFingerprints b = auFingerprints a"
    "auServices b = (if aclEnabled acl
       then mput (row ! 0) (svc\<lparr>svcChannels := mput (fst k) () (svcChannels svc),
              svcAdmissions := mput k acl (svcAdmissions svc)\<rparr>) (auServices a)
       else auServices a)" .
  have rel: "rel_option (service_acl_read xs sid) (mget (auServices a0) sid) (mget (auServices a) sid)" for sid
    using p by (simp add: acl_read_def)
  from rel [of "row ! 0"] svc obtain s0 where
    s0: "mget (auServices a0) (row ! 0) = Some s0" "service_acl_read xs (row ! 0) s0 svc"
    by (auto elim: option.rel_cases)
  have "fresh_service (row ! 0) s0" and "svcID s0 = svcID svc" and "svcEnabled s0"
    using base s0 svc(2) by (auto simp: base_ok_def service_acl_read_def)
  then have id: "svcID svc = row ! 0" "validManagementServiceID (row ! 0)" "svcEnabled s0"
    by (auto simp: fresh_service_def)
  have key: "acl_key row = (row ! 0, k)" using acl by (simp add: acl_key_def)
  have fresh: "acl_key r \<noteq> (row ! 0, k)" if "r \<in> set xs" for r
  proof
    assume r: "acl_key r = (row ! 0, k)"
    then have "acl_tuple (svcID svc) k = acl_tuple (r ! 0) (snd (acl_key r))"
      using id(1) by (auto simp: acl_key_def)
    with p that have "mhas seen (acl_tuple (svcID svc) k)" unfolding acl_read_def by auto
    with new show False ..
  qed
  have entry: "\<not> admission_entry row sid k' acl'" if "sid \<noteq> row ! 0 \<or> \<not> aclEnabled acl" for sid k' acl'
    using that acl by (auto simp: admission_entry_def)
  show ?thesis
    unfolding acl_read_def fst_conv snd_conv
  proof (intro conjI allI)
    fix sid
    show "rel_option (service_acl_read (xs @ [row]) sid) (mget (auServices a0) sid) (mget (auServices b) sid)"
    proof (cases "aclEnabled acl \<and> sid = row ! 0")
      case True
      then show ?thesis
        using s0 service_acl_read_put [OF s0(2) acl _ fresh] by (simp add: b mget_put)
    next
      case False
      then have "mget (auServices b) sid = mget (auServices a) sid" by (auto simp: b mget_put)
      moreover have "\<And>k acl. \<not> admission_entry row sid k acl" using entry False by blast
      ultimately show ?thesis
        using option.rel_mono_strong [OF rel [of sid], of "service_acl_read (xs @ [row]) sid"]
          service_acl_read_other by metis
    qed
  next
    show "\<forall>row \<in> set (xs @ [row]). acl_row_ok a0 row"
      using p s0 id(3) acl by (auto simp: acl_read_def acl_row_ok_def)
  next
    fix t
    show "mhas seen' t \<longleftrightarrow> (\<exists>row \<in> set (xs @ [row]). t = acl_tuple (row ! 0) (snd (acl_key row)))"
      using p by (auto simp: acl_read_def b key id(1))
  next
    show "distinct (map acl_key (xs @ [row]))"
    proof -
      have "(row ! 0, k) \<notin> acl_key ` set xs" using fresh by (metis imageE)
      then show ?thesis using p key by (simp add: acl_read_def)
    qed
  next
    show "gomap_ok (auServices b)" "auFingerprints b = auFingerprints a0"
      using p by (auto simp: acl_read_def b)
  qed
qed

lemma acl_read_loop:
  assumes "base_ok a0" and "row_loop ChannelACLFile acl_row 0 rows (a0, []) = Inr (a, seen)"
  shows "acl_read a0 rows (a, seen)"
proof -
  have "acl_read a0 [] (a0, [])"
    using assms(1)
    by (auto simp: acl_read_def base_ok_def fresh_service_def service_acl_read_def admissions_are_def channels_are_def
        option.rel_sel)
  moreover have "acl_read a0 (xs @ [row]) t" if "acl_read a0 xs s" "acl_row row s = Inr t" for xs row s t
    using acl_read_step [OF assms(1), of xs "fst s" "snd s" row "fst t" "snd t"] that by simp
  ultimately show ?thesis
    using row_loop_prefix [OF assms(2), of "acl_read a0" "[]"] by simp
qed

text \<open>The global permissions, relative to the authorizer \<open>a1\<close> after the channel ACL.\<close>

definition permissions_are :: "string list list \<Rightarrow> string \<Rightarrow> managementAPIService \<Rightarrow> bool" where
  "permissions_are xs sid s \<longleftrightarrow>
     (\<forall>p. mhas (svcGlobalPermissions s) p \<longleftrightarrow> (\<exists>row \<in> set xs. permission_entry row sid p))"

definition service_perm_read :: "string list list \<Rightarrow> string \<Rightarrow> managementAPIService \<Rightarrow> managementAPIService \<Rightarrow> bool"
where
  "service_perm_read xs sid s1 s \<longleftrightarrow>
     s1 = s\<lparr>svcGlobalPermissions := []\<rparr> \<and> gomap_ok (svcGlobalPermissions s)
     \<and> permissions_are xs sid s"

definition perm_row_ok :: "managementAPIAuthorizer \<Rightarrow> string list \<Rightarrow> bool" where
  "perm_row_ok a1 row \<longleftrightarrow>
     (\<exists>svc. mget (auServices a1) (row ! 0) = Some svc \<and> svcEnabled svc)
     \<and> row ! 1 \<in> set managementAPIKnownGlobalPermissions"

definition perm_read ::
  "managementAPIAuthorizer \<Rightarrow> string list list \<Rightarrow> managementAPIAuthorizer \<times> (string, unit) gomap \<Rightarrow> bool"
where
  "perm_read a1 xs p \<longleftrightarrow>
     auFingerprints (fst p) = auFingerprints a1 \<and> gomap_ok (auServices (fst p))
     \<and> (\<forall>sid. rel_option (service_perm_read xs sid) (mget (auServices a1) sid) (mget (auServices (fst p)) sid))
     \<and> (\<forall>row \<in> set xs. perm_row_ok a1 row)"

lemma permission_row_eq:
  assumes "permission_row row (a, seen) = Inr (b, seen')"
  obtains svc enabled where "mget (auServices a) (row ! 0) = Some svc" "svcEnabled svc"
    "parseManagementBool (row ! 2) = Inr enabled" "row ! 1 \<in> set managementAPIKnownGlobalPermissions"
    "auFingerprints b = auFingerprints a"
    "auServices b = (if enabled
       then mput (row ! 0) (svc\<lparr>svcGlobalPermissions := mput (row ! 1) () (svcGlobalPermissions svc)\<rparr>)
              (auServices a)
       else auServices a)"
proof -
  from assms obtain svc where svc: "mget (auServices a) (row ! 0) = Some svc" "svcEnabled svc"
    by (auto simp: permission_row_def split: option.splits if_splits)
  from assms svc have known: "row ! 1 \<in> set managementAPIKnownGlobalPermissions"
    by (simp add: permission_row_def split: if_splits)
  moreover from assms svc known obtain enabled where e: "parseManagementBool (row ! 2) = Inr enabled"
    by (auto simp: permission_row_def split: sum.splits if_splits)
  ultimately show ?thesis
    using assms svc that [of svc enabled] by (auto simp: permission_row_def Let_def split: if_splits)
qed

lemma service_perm_read_other:
  "service_perm_read xs sid s1 s \<Longrightarrow> (\<And>p. \<not> permission_entry row sid p) \<Longrightarrow>
   service_perm_read (xs @ [row]) sid s1 s"
  by (simp add: service_perm_read_def permissions_are_def)

lemma service_perm_read_put:
  "service_perm_read xs (row ! 0) s1 s \<Longrightarrow> parseManagementBool (row ! 2) = Inr True \<Longrightarrow>
   service_perm_read (xs @ [row]) (row ! 0) s1
     (s\<lparr>svcGlobalPermissions := mput (row ! 1) () (svcGlobalPermissions s)\<rparr>)"
  by (auto simp: service_perm_read_def permissions_are_def permission_entry_def)

lemma perm_read_step:
  assumes p: "perm_read a1 xs (a, seen)" and step: "permission_row row (a, seen) = Inr (b, seen')"
  shows "perm_read a1 (xs @ [row]) (b, seen')"
proof -
  from permission_row_eq [OF step] obtain svc enabled where
    svc: "mget (auServices a) (row ! 0) = Some svc" "svcEnabled svc"
    and e: "parseManagementBool (row ! 2) = Inr enabled" "row ! 1 \<in> set managementAPIKnownGlobalPermissions"
    and b: "auFingerprints b = auFingerprints a"
    "auServices b = (if enabled
       then mput (row ! 0) (svc\<lparr>svcGlobalPermissions := mput (row ! 1) () (svcGlobalPermissions svc)\<rparr>)
              (auServices a)
       else auServices a)" .
  have rel: "rel_option (service_perm_read xs sid) (mget (auServices a1) sid) (mget (auServices a) sid)" for sid
    using p by (simp add: perm_read_def)
  from rel [of "row ! 0"] svc obtain s1 where
    s1: "mget (auServices a1) (row ! 0) = Some s1" "service_perm_read xs (row ! 0) s1 svc"
    by (auto elim: option.rel_cases)
  have entry: "\<not> permission_entry row sid p" if "sid \<noteq> row ! 0 \<or> \<not> enabled" for sid p
    using that e by (auto simp: permission_entry_def)
  show ?thesis
    unfolding perm_read_def fst_conv snd_conv
  proof (intro conjI allI)
    fix sid
    show "rel_option (service_perm_read (xs @ [row]) sid) (mget (auServices a1) sid) (mget (auServices b) sid)"
    proof (cases "enabled \<and> sid = row ! 0")
      case True
      then show ?thesis
        using s1 service_perm_read_put [OF s1(2)] e by (simp add: b mget_put)
    next
      case False
      then have "mget (auServices b) sid = mget (auServices a) sid" by (auto simp: b mget_put)
      moreover have "\<And>p. \<not> permission_entry row sid p" using entry False by blast
      ultimately show ?thesis
        using option.rel_mono_strong [OF rel [of sid], of "service_perm_read (xs @ [row]) sid"]
          service_perm_read_other by metis
    qed
  next
    have "svcEnabled s1" using s1(2) svc(2) by (simp add: service_perm_read_def)
    then show "\<forall>row \<in> set (xs @ [row]). perm_row_ok a1 row"
      using p s1 e by (auto simp: perm_read_def perm_row_ok_def)
  next
    show "gomap_ok (auServices b)" "auFingerprints b = auFingerprints a1"
      using p by (auto simp: perm_read_def b)
  qed
qed

lemma perm_read_loop:
  assumes "gomap_ok (auServices a1)" and "\<And>sid svc. mget (auServices a1) sid = Some svc \<Longrightarrow> svcGlobalPermissions svc = []"
    and "row_loop GlobalPermissionsFile permission_row 0 rows (a1, []) = Inr (a, seen)"
  shows "perm_read a1 rows (a, seen)"
proof -
  have "perm_read a1 [] (a1, [])"
    using assms(1,2) by (auto simp: perm_read_def service_perm_read_def permissions_are_def option.rel_sel)
  moreover have "perm_read a1 (xs @ [row]) t" if "perm_read a1 xs s" "permission_row row s = Inr t" for xs row s t
    using perm_read_step [of a1 xs "fst s" "snd s" row "fst t" "snd t"] that by simp
  ultimately show ?thesis
    using row_loop_prefix [OF assms(3), of "perm_read a1" "[]"] by simp
qed

lemma service_acl_read_same:
  "service_acl_read xs sid s0 s \<Longrightarrow> svcID s = svcID s0 \<and> svcRole s = svcRole s0
     \<and> svcEnabled s = svcEnabled s0 \<and> svcGlobalPermissions s = svcGlobalPermissions s0"
  by (simp add: service_acl_read_def)

lemma service_perm_read_same:
  "service_perm_read xs sid s1 s \<Longrightarrow> svcID s = svcID s1 \<and> svcRole s = svcRole s1
     \<and> svcEnabled s = svcEnabled s1 \<and> svcChannels s = svcChannels s1 \<and> svcAdmissions s = svcAdmissions s1"
  by (simp add: service_perm_read_def)

text \<open>The whole of loading.\<close>

definition loaded_from ::
  "string list list \<Rightarrow> string list list \<Rightarrow> string list list \<Rightarrow> managementAPIAuthorizer \<Rightarrow> bool" where
  "loaded_from srows arows prows a \<longleftrightarrow>
     (\<exists>a0 a1 seen seen'. services_read srows a0 \<and> acl_read a0 arows (a1, seen) \<and> perm_read a1 prows (a, seen'))"

lemma services_read_base: "services_read xs a \<Longrightarrow> base_ok a"
  by (auto simp: services_read_def base_ok_def)

lemma acl_read_service:
  assumes "acl_read a0 xs (a, seen)" and "mget (auServices a) sid = Some s"
  obtains s0 where "mget (auServices a0) sid = Some s0" "service_acl_read xs sid s0 s"
proof -
  have "rel_option (service_acl_read xs sid) (mget (auServices a0) sid) (Some s)"
    using assms by (simp add: acl_read_def) metis
  then show ?thesis using that by (auto elim: option.rel_cases)
qed

lemma perm_read_service:
  assumes "perm_read a1 xs (a, seen)" and "mget (auServices a) sid = Some s"
  obtains s1 where "mget (auServices a1) sid = Some s1" "service_perm_read xs sid s1 s"
proof -
  have "rel_option (service_perm_read xs sid) (mget (auServices a1) sid) (Some s)"
    using assms by (simp add: perm_read_def) metis
  then show ?thesis using that by (auto elim: option.rel_cases)
qed

lemma load_stages:
  assumes "loadManagementAPIAuthorizer f1 f2 f3 = Inr a"
  obtains srows arows prows where
    "readManagementCSV f1 servicesHeader = Inr srows"
    "readManagementCSV f2 channelACLHeader = Inr arows"
    "readManagementCSV f3 globalPermissionsHeader = Inr prows"
    "loaded_from srows arows prows a"
proof -
  from assms obtain srows a0 arows a1 seen prows seen' where
    rd: "readManagementCSV f1 servicesHeader = Inr srows"
      "readManagementCSV f2 channelACLHeader = Inr arows"
      "readManagementCSV f3 globalPermissionsHeader = Inr prows"
    and st: "row_loop ServicesFile service_row 0 srows \<lparr>auFingerprints = [], auServices = []\<rparr> = Inr a0"
      "row_loop ChannelACLFile acl_row 0 arows (a0, []) = Inr (a1, seen)"
      "row_loop GlobalPermissionsFile permission_row 0 prows (a1, []) = Inr (a, seen')"
    by (auto simp: loadManagementAPIAuthorizer_def split: sum.splits)
  note s = services_read_loop [OF st(1)]
  note a = acl_read_loop [OF services_read_base [OF s] st(2)]
  have ok: "gomap_ok (auServices a1)" using a by (simp add: acl_read_def)
  have gp: "svcGlobalPermissions svc = []" if svc: "mget (auServices a1) sid = Some svc" for sid svc
  proof -
    from acl_read_service [OF a svc] obtain s0 where
      s0: "mget (auServices a0) sid = Some s0" "service_acl_read arows sid s0 svc" .
    then have "svcGlobalPermissions svc = svcGlobalPermissions s0"
      by (simp add: service_acl_read_same)
    then show ?thesis
      using s0(1) services_read_base [OF s] by (simp add: base_ok_def fresh_service_def)
  qed
  have "perm_read a1 prows (a, seen')"
    by (rule perm_read_loop [OF ok _ st(3)]) (rule gp)
  with s a have "loaded_from srows arows prows a"
    unfolding loaded_from_def by blast
  with rd show ?thesis by (rule that)
qed

lemma permissions_are_cong:
  "svcAdmissions s = svcAdmissions s' \<Longrightarrow> admissions_are xs sid s = admissions_are xs sid s'"
  "svcChannels s = svcChannels s' \<Longrightarrow> svcAdmissions s = svcAdmissions s' \<Longrightarrow> channels_are s = channels_are s'"
  by (simp_all add: admissions_are_def channels_are_def)

definition service_loaded ::
  "string list list \<Rightarrow> string list list \<Rightarrow> string list list \<Rightarrow> string \<Rightarrow> managementAPIService \<Rightarrow> bool"
where
  "service_loaded srows arows prows sid svc \<longleftrightarrow>
     svcID svc = sid \<and> validManagementServiceID sid \<and> validManagementAPIRole (svcRole svc)
     \<and> (\<exists>row \<in> set srows. service_entry row svc)
     \<and> gomap_ok (svcAdmissions svc) \<and> gomap_ok (svcChannels svc) \<and> gomap_ok (svcGlobalPermissions svc)
     \<and> admissions_are arows sid svc \<and> channels_are svc \<and> permissions_are prows sid svc
     \<and> (\<forall>row \<in> set arows \<union> set prows. row ! 0 = sid \<longrightarrow> svcEnabled svc)"

lemma loaded_service:
  assumes "loaded_from srows arows prows a" and "mget (auServices a) sid = Some svc"
  shows "service_loaded srows arows prows sid svc"
proof -
  from assms(1) obtain a0 a1 seen seen' where
    r: "services_read srows a0" "acl_read a0 arows (a1, seen)" "perm_read a1 prows (a, seen')"
    unfolding loaded_from_def by blast
  from perm_read_service [OF r(3) assms(2)] obtain s1 where
    s1: "mget (auServices a1) sid = Some s1" "service_perm_read prows sid s1 svc" .
  from acl_read_service [OF r(2) s1(1)] obtain s0 where
    s0: "mget (auServices a0) sid = Some s0" "service_acl_read arows sid s0 s1" .
  have fresh: "fresh_service sid s0" "\<exists>row \<in> set srows. service_entry row s0"
    using r(1) s0(1) unfolding services_read_def by blast+
  note same = service_perm_read_same [OF s1(2)] service_acl_read_same [OF s0(2)]
  have "\<forall>row \<in> set arows. acl_row_ok a0 row" using r(2) unfolding acl_read_def by blast
  moreover have "\<forall>row \<in> set prows. perm_row_ok a1 row" using r(3) unfolding perm_read_def by blast
  ultimately have rows: "\<forall>row \<in> set arows \<union> set prows. row ! 0 = sid \<longrightarrow> svcEnabled svc"
    using s0(1) s1(1) same unfolding acl_row_ok_def perm_row_ok_def by auto
  have "admissions_are arows sid svc" "channels_are svc" "gomap_ok (svcAdmissions svc)"
      "gomap_ok (svcChannels svc)"
    using s0(2) same permissions_are_cong unfolding service_acl_read_def by metis+
  moreover have "permissions_are prows sid svc" "gomap_ok (svcGlobalPermissions svc)"
    using s1(2) unfolding service_perm_read_def by blast+
  moreover have "\<exists>row \<in> set srows. service_entry row svc"
    using fresh(2) same by (simp add: service_entry_def)
  ultimately show ?thesis
    using fresh(1) same rows unfolding service_loaded_def fresh_service_def by simp
qed

lemma services_read_has:
  assumes "services_read xs a"
  shows "mhas (auServices a) sid \<longleftrightarrow> (\<exists>row \<in> set xs. row ! 0 = sid)"
proof
  assume "mhas (auServices a) sid"
  then obtain svc where "mget (auServices a) sid = Some svc" by (auto simp: mhas_iff)
  then have "fresh_service sid svc \<and> (\<exists>row \<in> set xs. service_entry row svc)"
    using assms unfolding services_read_def by blast
  then show "\<exists>row \<in> set xs. row ! 0 = sid" by (auto simp: fresh_service_def service_entry_def)
next
  assume "\<exists>row \<in> set xs. row ! 0 = sid"
  then show "mhas (auServices a) sid"
    using assms unfolding services_read_def mhas_iff by blast
qed

lemma mhas_none: "(\<And>k. \<not> mhas m k) \<Longrightarrow> m = []"
  by (cases m) (auto simp: mhas_dom)

lemma loaded_fingerprints:
  assumes "loaded_from srows arows prows a"
  shows "mget (auFingerprints a) fp = Some sid \<longleftrightarrow> (\<exists>row \<in> set srows. row ! 0 = sid \<and> row ! 1 = fp)"
    and "distinct (map (\<lambda>row. row ! 1) srows)" and "distinct (map (\<lambda>row. row ! 0) srows)"
    and "distinct (map acl_key arows)"
    and "mhas (auServices a) sid \<longleftrightarrow> (\<exists>row \<in> set srows. row ! 0 = sid)"
proof -
  from assms obtain a0 a1 seen seen' where
    r: "services_read srows a0" "acl_read a0 arows (a1, seen)" "perm_read a1 prows (a, seen')"
    unfolding loaded_from_def by blast
  have eq: "auFingerprints a = auFingerprints a0"
    using r(2,3) by (simp add: acl_read_def perm_read_def)
  show "mget (auFingerprints a) fp = Some sid \<longleftrightarrow> (\<exists>row \<in> set srows. row ! 0 = sid \<and> row ! 1 = fp)"
    unfolding eq using r(1) unfolding services_read_def by metis
  show "distinct (map (\<lambda>row. row ! 1) srows)" "distinct (map (\<lambda>row. row ! 0) srows)"
    "distinct (map acl_key arows)"
    using r(1,2) unfolding services_read_def acl_read_def by blast+
  have "rel_option (service_acl_read arows sid) (mget (auServices a0) sid) (mget (auServices a1) sid)"
    "rel_option (service_perm_read prows sid) (mget (auServices a1) sid) (mget (auServices a) sid)"
    using r(2,3) unfolding acl_read_def perm_read_def by simp_all
  then have "mhas (auServices a) sid = mhas (auServices a0) sid"
    by (auto simp: mhas_iff option.rel_sel)
  moreover have "mhas (auServices a0) sid \<longleftrightarrow> (\<exists>row \<in> set srows. row ! 0 = sid)"
    by (rule services_read_has [OF r(1)])
  ultimately show "mhas (auServices a) sid \<longleftrightarrow> (\<exists>row \<in> set srows. row ! 0 = sid)" by simp
qed

section \<open>Properties\<close>

text \<open>
  C10. A loaded authorizer says what the three files say, and nothing else: a fingerprint
  stands for the service of its row; a service has the role and the enabled flag of its
  row; it may be admitted as a sender of a channel with exactly the permissions of an
  enabled row of the channel ACL, and it holds exactly the permissions of its enabled rows
  of the global permissions.
\<close>

theorem authorizer_says_files:
  assumes "loadManagementAPIAuthorizer f1 f2 f3 = Inr a"
  shows "\<exists>srows arows prows.
       readManagementCSV f1 servicesHeader = Inr srows
     \<and> readManagementCSV f2 channelACLHeader = Inr arows
     \<and> readManagementCSV f3 globalPermissionsHeader = Inr prows
     \<and> (\<forall>fp sid. mget (auFingerprints a) fp = Some sid \<longleftrightarrow> (\<exists>row \<in> set srows. row ! 0 = sid \<and> row ! 1 = fp))
     \<and> (\<forall>sid. mhas (auServices a) sid \<longleftrightarrow> (\<exists>row \<in> set srows. row ! 0 = sid))
     \<and> (\<forall>sid svc. mget (auServices a) sid = Some svc \<longrightarrow>
          svcID svc = sid \<and> (\<exists>row \<in> set srows. service_entry row svc)
          \<and> (\<forall>k acl. mget (svcAdmissions svc) k = Some acl \<longleftrightarrow> (\<exists>row \<in> set arows. admission_entry row sid k acl))
          \<and> (\<forall>p. hasGlobalPermission svc p \<longleftrightarrow> (\<exists>row \<in> set prows. permission_entry row sid p)))"
proof -
  from load_stages [OF assms] obtain srows arows prows where
    rd: "readManagementCSV f1 servicesHeader = Inr srows"
      "readManagementCSV f2 channelACLHeader = Inr arows"
      "readManagementCSV f3 globalPermissionsHeader = Inr prows"
    and ld: "loaded_from srows arows prows a" .
  have "svcID svc = sid \<and> (\<exists>row \<in> set srows. service_entry row svc)
      \<and> (\<forall>k acl. mget (svcAdmissions svc) k = Some acl \<longleftrightarrow> (\<exists>row \<in> set arows. admission_entry row sid k acl))
      \<and> (\<forall>p. hasGlobalPermission svc p \<longleftrightarrow> (\<exists>row \<in> set prows. permission_entry row sid p))"
    if "mget (auServices a) sid = Some svc" for sid svc
    using loaded_service [OF ld that]
    unfolding service_loaded_def admissions_are_def permissions_are_def hasGlobalPermission_def by blast
  with rd loaded_fingerprints(1,5) [OF ld] show ?thesis by blast
qed

text \<open>
  C19. A loaded authorizer is consistent whatever the files say: identifiers and roles are
  valid, a disabled service has neither channels nor permissions, a channel is readable
  exactly if some sender is admitted to it, a sender is never 0, a recorder or observer
  only receives, and only an interrupt has a priority, which is then not 0 and needs talk.
\<close>

theorem authorizer_consistent:
  assumes "loadManagementAPIAuthorizer f1 f2 f3 = Inr a" and "mget (auServices a) sid = Some svc"
  shows "validManagementServiceID sid \<and> validManagementAPIRole (svcRole svc)
     \<and> (\<not> svcEnabled svc \<longrightarrow> svcAdmissions svc = [] \<and> svcChannels svc = [] \<and> svcGlobalPermissions svc = [])
     \<and> (\<forall>c. mhas (svcChannels svc) c \<longleftrightarrow> (\<exists>d. admissionACL (Some svc) c d \<noteq> None))
     \<and> (\<forall>c d acl. mget (svcAdmissions svc) (c, d) = Some acl \<longrightarrow> d \<noteq> 0 \<and> aclEnabled acl \<and> acl_ok acl)"
proof -
  from load_stages [OF assms(1)] obtain srows arows prows where
    ld: "loaded_from srows arows prows a" .
  note svc = loaded_service [OF ld assms(2)]
  then have adm: "mget (svcAdmissions svc) k = Some acl \<longleftrightarrow> (\<exists>row \<in> set arows. admission_entry row sid k acl)" for k acl
    unfolding service_loaded_def admissions_are_def by blast
  have acl: "d \<noteq> 0 \<and> aclEnabled acl \<and> acl_ok acl" if "mget (svcAdmissions svc) (c, d) = Some acl" for c d acl
  proof -
    from that adm obtain row where "admission_entry row sid (c, d) acl" by blast
    then show ?thesis
      using acl_fields_ok [of row "(c, d)" acl] by (simp add: admission_entry_def)
  qed
  have chan: "mhas (svcChannels svc) c \<longleftrightarrow> (\<exists>d. mhas (svcAdmissions svc) (c, d))" for c
    using svc unfolding service_loaded_def channels_are_def by blast
  have off: "svcAdmissions svc = [] \<and> svcChannels svc = [] \<and> svcGlobalPermissions svc = []" if "\<not> svcEnabled svc"
  proof -
    have "row ! 0 \<noteq> sid" if "row \<in> set arows \<union> set prows" for row
      using svc that \<open>\<not> svcEnabled svc\<close> unfolding service_loaded_def by blast
    then have none: "mget (svcAdmissions svc) k = None" "\<not> mhas (svcGlobalPermissions svc) p" for k p
      using svc adm [of k] unfolding service_loaded_def permissions_are_def permission_entry_def
        admission_entry_def by (force, blast)
    then have "\<not> mhas (svcChannels svc) c" for c
      unfolding chan using none by (simp add: mhas_iff)
    with none show ?thesis by (intro conjI mhas_none) (simp_all add: mhas_iff [of "svcAdmissions svc"])
  qed
  have "mhas (svcChannels svc) c \<longleftrightarrow> (\<exists>d. admissionACL (Some svc) c d \<noteq> None)" for c
    using acl unfolding chan by (force simp: mhas_iff admissionACL_def split: option.splits)
  then show ?thesis
    using svc acl off unfolding service_loaded_def by blast
qed

text \<open>
  C20. Only an enabled service is ever served, and only on a client certificate whose
  fingerprint the services file lists for that service.
\<close>

theorem request_identity:
  assumes "loadManagementAPIAuthorizer f1 f2 f3 = Inr a"
    and "readManagementCSV f1 servicesHeader = Inr srows"
  shows "serviceForRequest fingerprint a peer = Some svc \<longleftrightarrow>
     (\<exists>raw. \<exists>row \<in> set srows. peer = Some raw \<and> row ! 1 = fingerprint raw \<and> row ! 3 = ''true''
        \<and> mget (auServices a) (row ! 0) = Some svc)"
proof -
  from load_stages [OF assms(1)] obtain arows prows where ld: "loaded_from srows arows prows a"
    using assms(2) by (metis Inr_inject)
  note fp = loaded_fingerprints [OF ld]
  have enabled: "svcEnabled svc \<longleftrightarrow> row ! 3 = ''true''"
    if "mget (auServices a) (row ! 0) = Some svc" and "row \<in> set srows" for row
  proof -
    from loaded_service [OF ld that(1)] obtain r where
      r: "r \<in> set srows" "service_entry r svc" "svcID svc = row ! 0"
      unfolding service_loaded_def by blast
    then have "r = row"
      using that(2) fp(3) by (auto simp: distinct_map inj_on_def service_entry_def)
    with r(2) show ?thesis
      by (auto simp: service_entry_def parseManagementBool_def split: if_splits)
  qed
  show ?thesis
  proof
    assume "serviceForRequest fingerprint a peer = Some svc"
    then obtain raw sid where raw: "peer = Some raw" "mget (auFingerprints a) (fingerprint raw) = Some sid"
        "mget (auServices a) sid = Some svc" "svcEnabled svc"
      by (auto simp: serviceForRequest_def split: option.splits if_splits)
    with fp(1) obtain row where "row \<in> set srows" "row ! 0 = sid" "row ! 1 = fingerprint raw" by blast
    with raw enabled show "\<exists>raw. \<exists>row \<in> set srows. peer = Some raw \<and> row ! 1 = fingerprint raw
        \<and> row ! 3 = ''true'' \<and> mget (auServices a) (row ! 0) = Some svc" by blast
  next
    assume "\<exists>raw. \<exists>row \<in> set srows. peer = Some raw \<and> row ! 1 = fingerprint raw
        \<and> row ! 3 = ''true'' \<and> mget (auServices a) (row ! 0) = Some svc"
    then obtain raw row where row: "row \<in> set srows" "peer = Some raw" "row ! 1 = fingerprint raw"
        "row ! 3 = ''true''" "mget (auServices a) (row ! 0) = Some svc" by blast
    then have "mget (auFingerprints a) (fingerprint raw) = Some (row ! 0)" using fp(1) by blast
    then show "serviceForRequest fingerprint a peer = Some svc"
      using row enabled by (simp add: serviceForRequest_def)
  qed
qed

text \<open>
  Listing a service, a fingerprint or an admission tuple twice is refused, also where
  one of the two rows is disabled.
\<close>

theorem duplicates_refused:
  assumes "readManagementCSV f1 servicesHeader = Inr srows"
    and "readManagementCSV f2 channelACLHeader = Inr arows"
    and "\<not> distinct (map (\<lambda>row. row ! 0) srows) \<or> \<not> distinct (map (\<lambda>row. row ! 1) srows)
       \<or> \<not> distinct (map acl_key arows)"
  shows "\<exists>e. loadManagementAPIAuthorizer f1 f2 f3 = Inl e"
proof (cases "loadManagementAPIAuthorizer f1 f2 f3")
  case (Inr a)
  from load_stages [OF this] obtain prows where "loaded_from srows arows prows a"
    using assms(1,2) by (metis Inr_inject)
  with assms(3) loaded_fingerprints(2-4) show ?thesis by metis
qed simp

section \<open>A sample\<close>

definition sample_fp :: string where
  "sample_fp = replicate 64 CHR ''a''"

definition sample_srows :: "string list list" where
  "sample_srows = [[''rec'', sample_fp, ''recorder'', ''true'']]"

definition sample_arows :: "string list list" where
  "sample_arows = [[''rec'', ''7'', ''9'', ''recorder'', ''true'', ''false'', ''false'', ''0'', ''true'']]"

definition sample_prows :: "string list list" where
  "sample_prows = [[''rec'', ''health.read'', ''true'']]"

definition sample_f1 :: "string option" where
  "sample_f1 = Some (csv_text (servicesHeader # sample_srows))"

definition sample_f2 :: "string option" where
  "sample_f2 = Some (csv_text (channelACLHeader # sample_arows))"

definition sample_f3 :: "string option" where
  "sample_f3 = Some (csv_text (globalPermissionsHeader # sample_prows))"

definition sample_acl :: managementAdmissionACL where
  "sample_acl = \<lparr>aclRole = ''recorder'', aclAllowListen = True, aclAllowTalk = False,
     aclAllowInterrupt = False, aclInterruptPriority = 0, aclEnabled = True\<rparr>"

definition sample_service :: managementAPIService where
  "sample_service = \<lparr>svcID = ''rec'', svcRole = ''recorder'', svcEnabled = True, svcChannels = [(7, ())],
     svcAdmissions = [((7, 9), sample_acl)], svcGlobalPermissions = [(''health.read'', ())]\<rparr>"

definition sample_authorizer :: managementAPIAuthorizer where
  "sample_authorizer = \<lparr>auFingerprints = [(sample_fp, ''rec'')], auServices = [(''rec'', sample_service)]\<rparr>"

lemma sample_fp_plain: "plain_field sample_fp"
  by (simp add: plain_field_def sample_fp_def list_all_iff)

lemma sample_rows:
  "readManagementCSV sample_f1 servicesHeader = Inr sample_srows"
  "readManagementCSV sample_f2 channelACLHeader = Inr sample_arows"
  "readManagementCSV sample_f3 globalPermissionsHeader = Inr sample_prows"
  unfolding sample_f1_def sample_f2_def sample_f3_def
  by (rule readManagementCSV_text;
      simp add: sample_srows_def sample_arows_def sample_prows_def servicesHeader_def
        channelACLHeader_def globalPermissionsHeader_def sample_fp_plain)+

lemma sample_service_row:
  "service_row [''rec'', sample_fp, ''recorder'', ''true''] \<lparr>auFingerprints = [], auServices = []\<rparr>
   = Inr \<lparr>auFingerprints = [(sample_fp, ''rec'')],
          auServices = [(''rec'', sample_service\<lparr>svcChannels := [], svcAdmissions := [], svcGlobalPermissions := []\<rparr>)]\<rparr>"
  by (simp add: service_row_def Let_def parseManagementBool_def validManagementServiceID_def
      privateControlServiceIDPattern_def service_id_char_def is_alnum_def is_digit_def is_lower_def
      managementAPIFingerprintPattern_def sample_fp_def list_all_iff validManagementAPIRole_def
      sample_service_def)

lemma sample_acl_fields:
  "acl_fields [''rec'', ''7'', ''9'', ''recorder'', ''true'', ''false'', ''false'', ''0'', ''true'']
   = Inr ((7, 9), sample_acl)"
  by (simp add: acl_fields_def parseManagementU32_def managementAPIDecimalPattern_def is_digit_def
      parse_uint32_def dec_val_def digit_val_def parseManagementBool_def sample_acl_def)

lemma sample_loops:
  "row_loop ServicesFile service_row 0 sample_srows \<lparr>auFingerprints = [], auServices = []\<rparr>
   = Inr \<lparr>auFingerprints = [(sample_fp, ''rec'')],
          auServices = [(''rec'', sample_service\<lparr>svcChannels := [], svcAdmissions := [], svcGlobalPermissions := []\<rparr>)]\<rparr>"
  "row_loop ChannelACLFile acl_row 0 sample_arows
     (\<lparr>auFingerprints = [(sample_fp, ''rec'')],
       auServices = [(''rec'', sample_service\<lparr>svcChannels := [], svcAdmissions := [], svcGlobalPermissions := []\<rparr>)]\<rparr>, [])
   = Inr (\<lparr>auFingerprints = [(sample_fp, ''rec'')],
          auServices = [(''rec'', sample_service\<lparr>svcGlobalPermissions := []\<rparr>)]\<rparr>,
          [(acl_tuple ''rec'' (7, 9), ())])"
  "\<exists>seen. row_loop GlobalPermissionsFile permission_row 0 sample_prows
     (\<lparr>auFingerprints = [(sample_fp, ''rec'')],
       auServices = [(''rec'', sample_service\<lparr>svcGlobalPermissions := []\<rparr>)]\<rparr>, [])
   = Inr (sample_authorizer, seen)"
  by (simp_all add: sample_srows_def sample_arows_def sample_prows_def sample_service_row acl_row_def
      sample_acl_fields permission_row_def managementAPIPermissionPattern_def is_lower_def
      managementAPIKnownGlobalPermissions_def managementAPIHealthPermission_def parseManagementBool_def
      sample_service_def sample_authorizer_def sample_acl_def)

lemma sample_loaded:
  "loadManagementAPIAuthorizer sample_f1 sample_f2 sample_f3 = Inr sample_authorizer"
  using sample_loops(3) by (auto simp: loadManagementAPIAuthorizer_def sample_rows sample_loops(1,2))

lemma authorizer_says_files_witness:
  "\<exists>srows. readManagementCSV sample_f1 servicesHeader = Inr srows
     \<and> (\<exists>row \<in> set srows. row ! 0 = ''rec'' \<and> row ! 1 = sample_fp)"
proof -
  have "mget (auFingerprints sample_authorizer) sample_fp = Some ''rec''"
    by (simp add: sample_authorizer_def)
  with authorizer_says_files [OF sample_loaded] show ?thesis by blast
qed

lemma authorizer_consistent_witness:
  "acl_ok sample_acl \<and> (9 :: u32) \<noteq> 0"
proof -
  have "mget (auServices sample_authorizer) ''rec'' = Some sample_service"
    by (simp add: sample_authorizer_def)
  from authorizer_consistent [OF sample_loaded this]
  have "mget (svcAdmissions sample_service) (7, 9) = Some sample_acl \<longrightarrow>
      (9 :: u32) \<noteq> 0 \<and> aclEnabled sample_acl \<and> acl_ok sample_acl" by blast
  then show ?thesis by (simp add: sample_service_def)
qed

lemma request_identity_witness:
  "serviceForRequest (\<lambda>raw. if raw = ''cert'' then sample_fp else []) sample_authorizer (Some ''cert'')
     = Some sample_service"
  unfolding request_identity [OF sample_loaded sample_rows(1)]
  by (simp add: sample_srows_def sample_authorizer_def)

lemma duplicates_refused_witness:
  "\<exists>e. loadManagementAPIAuthorizer
     (Some (csv_text (servicesHeader # sample_srows @ sample_srows))) sample_f2 sample_f3 = Inl e"
proof (rule duplicates_refused [OF _ sample_rows(2)])
  show "readManagementCSV (Some (csv_text (servicesHeader # sample_srows @ sample_srows))) servicesHeader
      = Inr (sample_srows @ sample_srows)"
    by (rule readManagementCSV_text) (simp_all add: sample_srows_def servicesHeader_def sample_fp_plain)
qed (simp add: sample_srows_def)

end
