(* ===== verification/Pcl_Codec.thy ===== *)
theory Pcl_Codec
  imports Pcl_Messages
begin

text \<open>
  The wire form of the Private Control Link messages (\<open>private_control.go\<close>): the struct
  tags of the messages (lines 92 to 195) as decoder tables and encoders, the checks on
  a raw message (lines 824 to 973), and the frames (lines 835 to 882).
\<close>

section \<open>Decoding tables\<close>

text \<open>The zero value of each message and its fields under their JSON names.\<close>

definition zero_hello_ack :: privateControlHelloAck where
  "zero_hello_ack = \<lparr>haSchemaVersion = [], haType = [], haMessageID = [], haInReplyTo = [],
     haSessionID = [], haRelayID = [], haLifecycleEventsAccepted = None, haAuditInputsAccepted = None,
     haDiagnosticsAccepted = None\<rparr>"

definition fields_hello_ack :: "privateControlHelloAck fields" where
  "fields_hello_ack =
     [(''schema_version'', field haSchemaVersion (\<lambda>x s. s\<lparr>haSchemaVersion := x\<rparr>) dec_string),
      (''type'', field haType (\<lambda>x s. s\<lparr>haType := x\<rparr>) dec_string),
      (''message_id'', field haMessageID (\<lambda>x s. s\<lparr>haMessageID := x\<rparr>) dec_string),
      (''in_reply_to'', field haInReplyTo (\<lambda>x s. s\<lparr>haInReplyTo := x\<rparr>) dec_string),
      (''session_id'', field haSessionID (\<lambda>x s. s\<lparr>haSessionID := x\<rparr>) dec_string),
      (''relay_id'', field haRelayID (\<lambda>x s. s\<lparr>haRelayID := x\<rparr>) dec_string),
      (''lifecycle_events_accepted'', field haLifecycleEventsAccepted (\<lambda>x s. s\<lparr>haLifecycleEventsAccepted := x\<rparr>) (dec_ptr False dec_bool)),
      (''audit_inputs_accepted'', field haAuditInputsAccepted (\<lambda>x s. s\<lparr>haAuditInputsAccepted := x\<rparr>) (dec_ptr False dec_bool)),
      (''diagnostics_accepted'', field haDiagnosticsAccepted (\<lambda>x s. s\<lparr>haDiagnosticsAccepted := x\<rparr>) (dec_ptr False dec_bool))]"

definition zero_envelope :: privateControlEnvelope where
  "zero_envelope = \<lparr>envSchemaVersion = [], envType = [], envMessageID = []\<rparr>"

definition fields_envelope :: "privateControlEnvelope fields" where
  "fields_envelope =
     [(''schema_version'', field envSchemaVersion (\<lambda>x s. s\<lparr>envSchemaVersion := x\<rparr>) dec_string),
      (''type'', field envType (\<lambda>x s. s\<lparr>envType := x\<rparr>) dec_string),
      (''message_id'', field envMessageID (\<lambda>x s. s\<lparr>envMessageID := x\<rparr>) dec_string)]"

definition zero_participant :: privateControlSnapshotParticipant where
  "zero_participant = \<lparr>spSenderID = 0, spState = []\<rparr>"

definition fields_participant :: "privateControlSnapshotParticipant fields" where
  "fields_participant =
     [(''sender_id'', field spSenderID (\<lambda>x s. s\<lparr>spSenderID := x\<rparr>) dec_word),
      (''state'', field spState (\<lambda>x s. s\<lparr>spState := x\<rparr>) dec_string)]"

definition zero_channel :: privateControlSnapshotChannel where
  "zero_channel = \<lparr>scChannelID = 0, scParticipants = []\<rparr>"

definition fields_channel :: "privateControlSnapshotChannel fields" where
  "fields_channel =
     [(''channel_id'', field scChannelID (\<lambda>x s. s\<lparr>scChannelID := x\<rparr>) dec_word),
      (''participants'', field scParticipants (\<lambda>x s. s\<lparr>scParticipants := x\<rparr>) (dec_list zero_participant (dec_struct fields_participant True)))]"

definition zero_snapshot :: privateControlRelayStateSnapshot where
  "zero_snapshot = \<lparr>ssSchemaVersion = [], ssType = [], ssMessageID = [], ssInReplyTo = [],
     ssSnapshotID = [], ssChunkIndex = 0, ssChunkCount = 0, ssChannels = None\<rparr>"

definition fields_snapshot :: "privateControlRelayStateSnapshot fields" where
  "fields_snapshot =
     [(''schema_version'', field ssSchemaVersion (\<lambda>x s. s\<lparr>ssSchemaVersion := x\<rparr>) dec_string),
      (''type'', field ssType (\<lambda>x s. s\<lparr>ssType := x\<rparr>) dec_string),
      (''message_id'', field ssMessageID (\<lambda>x s. s\<lparr>ssMessageID := x\<rparr>) dec_string),
      (''in_reply_to'', field ssInReplyTo (\<lambda>x s. s\<lparr>ssInReplyTo := x\<rparr>) dec_string),
      (''snapshot_id'', field ssSnapshotID (\<lambda>x s. s\<lparr>ssSnapshotID := x\<rparr>) dec_string),
      (''chunk_index'', field ssChunkIndex (\<lambda>x s. s\<lparr>ssChunkIndex := x\<rparr>) dec_word),
      (''chunk_count'', field ssChunkCount (\<lambda>x s. s\<lparr>ssChunkCount := x\<rparr>) dec_word),
      (''channels'', field ssChannels (\<lambda>x s. s\<lparr>ssChannels := x\<rparr>) (dec_slice zero_channel (dec_struct fields_channel True)))]"

definition zero_error :: privateControlError where
  "zero_error = \<lparr>peSchemaVersion = [], peType = [], peMessageID = [], peInReplyTo = [], peCode =
     []\<rparr>"

definition fields_error :: "privateControlError fields" where
  "fields_error =
     [(''schema_version'', field peSchemaVersion (\<lambda>x s. s\<lparr>peSchemaVersion := x\<rparr>) dec_string),
      (''type'', field peType (\<lambda>x s. s\<lparr>peType := x\<rparr>) dec_string),
      (''message_id'', field peMessageID (\<lambda>x s. s\<lparr>peMessageID := x\<rparr>) dec_string),
      (''in_reply_to'', field peInReplyTo (\<lambda>x s. s\<lparr>peInReplyTo := x\<rparr>) dec_string),
      (''code'', field peCode (\<lambda>x s. s\<lparr>peCode := x\<rparr>) dec_string)]"

definition zero_revocation :: privateControlRevokeServiceAdmission where
  "zero_revocation = \<lparr>rvSchemaVersion = [], rvType = [], rvMessageID = [], rvChannelID = 0,
     rvServiceID = [], rvGrantIDHash = [], rvReason = [], rvDenyUntil = 0\<rparr>"

definition fields_revocation :: "privateControlRevokeServiceAdmission fields" where
  "fields_revocation =
     [(''schema_version'', field rvSchemaVersion (\<lambda>x s. s\<lparr>rvSchemaVersion := x\<rparr>) dec_string),
      (''type'', field rvType (\<lambda>x s. s\<lparr>rvType := x\<rparr>) dec_string),
      (''message_id'', field rvMessageID (\<lambda>x s. s\<lparr>rvMessageID := x\<rparr>) dec_string),
      (''channel_id'', field rvChannelID (\<lambda>x s. s\<lparr>rvChannelID := x\<rparr>) dec_word),
      (''service_id'', field rvServiceID (\<lambda>x s. s\<lparr>rvServiceID := x\<rparr>) dec_string),
      (''grant_id_hash'', field rvGrantIDHash (\<lambda>x s. s\<lparr>rvGrantIDHash := x\<rparr>) dec_string),
      (''reason'', field rvReason (\<lambda>x s. s\<lparr>rvReason := x\<rparr>) dec_string),
      (''deny_until'', field rvDenyUntil (\<lambda>x s. s\<lparr>rvDenyUntil := x\<rparr>) dec_int64)]"

definition zero_ack :: privateControlAck where
  "zero_ack = \<lparr>akSchemaVersion = [], akType = [], akMessageID = [], akInReplyTo = [], akOutcome =
     [], akDenyUntil = 0, akAffectedMembershipCount = 0, akTalkReleaseCount = 0\<rparr>"

definition fields_ack :: "privateControlAck fields" where
  "fields_ack =
     [(''schema_version'', field akSchemaVersion (\<lambda>x s. s\<lparr>akSchemaVersion := x\<rparr>) dec_string),
      (''type'', field akType (\<lambda>x s. s\<lparr>akType := x\<rparr>) dec_string),
      (''message_id'', field akMessageID (\<lambda>x s. s\<lparr>akMessageID := x\<rparr>) dec_string),
      (''in_reply_to'', field akInReplyTo (\<lambda>x s. s\<lparr>akInReplyTo := x\<rparr>) dec_string),
      (''outcome'', field akOutcome (\<lambda>x s. s\<lparr>akOutcome := x\<rparr>) dec_string),
      (''deny_until'', field akDenyUntil (\<lambda>x s. s\<lparr>akDenyUntil := x\<rparr>) dec_int64),
      (''affected_membership_count'', field akAffectedMembershipCount (\<lambda>x s. s\<lparr>akAffectedMembershipCount := x\<rparr>) dec_word),
      (''talk_release_count'', field akTalkReleaseCount (\<lambda>x s. s\<lparr>akTalkReleaseCount := x\<rparr>) dec_word)]"

definition zero_event :: privateControlLifecycleEvent where
  "zero_event = \<lparr>leSchemaVersion = [], leType = [], leMessageID = [], leOccurredAt = [],
     leEventType = [], leChannelID = None, leSenderID = None, leServiceID = None, leRecordingJobID =
     None, leState = None, leReason = None\<rparr>"

definition fields_event :: "privateControlLifecycleEvent fields" where
  "fields_event =
     [(''schema_version'', field leSchemaVersion (\<lambda>x s. s\<lparr>leSchemaVersion := x\<rparr>) dec_string),
      (''type'', field leType (\<lambda>x s. s\<lparr>leType := x\<rparr>) dec_string),
      (''message_id'', field leMessageID (\<lambda>x s. s\<lparr>leMessageID := x\<rparr>) dec_string),
      (''occurred_at'', field leOccurredAt (\<lambda>x s. s\<lparr>leOccurredAt := x\<rparr>) dec_string),
      (''event_type'', field leEventType (\<lambda>x s. s\<lparr>leEventType := x\<rparr>) dec_string),
      (''channel_id'', field leChannelID (\<lambda>x s. s\<lparr>leChannelID := x\<rparr>) (dec_ptr 0 dec_word)),
      (''sender_id'', field leSenderID (\<lambda>x s. s\<lparr>leSenderID := x\<rparr>) (dec_ptr 0 dec_word)),
      (''service_id'', field leServiceID (\<lambda>x s. s\<lparr>leServiceID := x\<rparr>) (dec_ptr [] dec_string)),
      (''recording_job_id'', field leRecordingJobID (\<lambda>x s. s\<lparr>leRecordingJobID := x\<rparr>) (dec_ptr [] dec_string)),
      (''state'', field leState (\<lambda>x s. s\<lparr>leState := x\<rparr>) (dec_ptr [] dec_string)),
      (''reason'', field leReason (\<lambda>x s. s\<lparr>leReason := x\<rparr>) (dec_ptr [] dec_string))]"

section \<open>Encoders\<close>

definition enc_hello :: "privateControlHello \<Rightarrow> json" where
  "enc_hello h = JObj
     [(''schema_version'', JStr (heSchemaVersion h)), (''type'', JStr (heType h)),
      (''message_id'', JStr (heMessageID h)),
      (''management_service_id'', JStr (heManagementServiceID h)),
      (''want_lifecycle_events'', enc_ptr JBool (heWantLifecycleEvents h)),
      (''want_audit_inputs'', enc_ptr JBool (heWantAuditInputs h)),
      (''want_diagnostics'', enc_ptr JBool (heWantDiagnostics h))]"

definition enc_get_snapshot :: "privateControlGetRelayStateSnapshot \<Rightarrow> json" where
  "enc_get_snapshot g = JObj
     [(''schema_version'', JStr (gsSchemaVersion g)), (''type'', JStr (gsType g)),
      (''message_id'', JStr (gsMessageID g))]"

definition enc_revocation :: "privateControlRevokeServiceAdmission \<Rightarrow> json" where
  "enc_revocation r = JObj
     ([(''schema_version'', JStr (rvSchemaVersion r)), (''type'', JStr (rvType r)),
       (''message_id'', JStr (rvMessageID r)), (''channel_id'', enc_word (rvChannelID r))]
      @ omit_empty ''service_id'' (rvServiceID r)
      @ omit_empty ''grant_id_hash'' (rvGrantIDHash r)
      @ [(''reason'', JStr (rvReason r)), (''deny_until'', enc_int (rvDenyUntil r))])"

text \<open>A revocation command survives encoding and decoding.\<close>

lemma dec_revocation_enc:
  assumes "- (2 ^ 63) \<le> rvDenyUntil r" and "rvDenyUntil r < 2 ^ 63"
  shows "dec_struct fields_revocation True (enc_revocation r) zero_revocation = Some r"
  using dec_int64_enc [OF assms]
  by (cases r) (simp add: dec_struct_def enc_revocation_def fields_revocation_def zero_revocation_def
      omit_empty_def find_field_def field_def)

section \<open>Tokens\<close>

text \<open>
  \<open>json.Decoder\<close> read token by token: its state, the stack of the states around it, and
  the input left.
\<close>

datatype token_state =
  TopValue | ArrayStart | ArrayValue | ArrayComma | ObjectStart | ObjectKey | ObjectColon | ObjectValue
| ObjectComma

record json_decoder =
  jdState :: token_state
  jdStack :: "token_state list"
  jdRest :: string

datatype json_token = TokDelim char | TokString string | TokScalar

datatype json_error = JsonEOF | JsonSyntax | JsonRange | JsonDuplicate string | JsonType

definition tokenValueAllowed :: "token_state \<Rightarrow> bool" where
  "tokenValueAllowed st = (st = TopValue \<or> st = ArrayStart \<or> st = ArrayValue \<or> st = ObjectValue)"

definition tokenValueEnd :: "token_state \<Rightarrow> token_state" where
  "tokenValueEnd st =
     (if st = ArrayStart \<or> st = ArrayValue then ArrayComma
      else if st = ObjectValue then ObjectComma else st)"

text \<open>
  Decoding a number into an \<open>any\<close> parses it as a float64 and fails where it rounds to an
  infinity, that is from the largest float64 plus half a unit on.
\<close>

definition exp_val :: "string \<Rightarrow> int" where
  "exp_val e = (case e of [] \<Rightarrow> 0 | _ # e' \<Rightarrow>
     (case e' of [] \<Rightarrow> 0
      | c # ds \<Rightarrow> if c = CHR ''-'' then - int (dec_val ds)
                  else if c = CHR ''+'' then int (dec_val ds) else int (dec_val e')))"

definition float_limit :: nat where
  "float_limit = 2 ^ 1024 - 2 ^ 970"

definition float_ok :: "string \<Rightarrow> bool" where
  "float_ok n =
     (let s = (if n \<noteq> [] \<and> hd n = CHR ''-'' then tl n else n);
          ip = takeWhile is_digit s; s1 = dropWhile is_digit s;
          fp = (if s1 \<noteq> [] \<and> hd s1 = CHR ''.'' then takeWhile is_digit (tl s1) else []);
          s2 = (if s1 \<noteq> [] \<and> hd s1 = CHR ''.'' then dropWhile is_digit (tl s1) else s1);
          m = dec_val (ip @ fp); e = exp_val s2 - int (length fp)
      in if m = 0 then True
         else if 400 < e then False
         else if 0 \<le> e then m * 10 ^ nat e < float_limit
         else m < float_limit * 10 ^ nat (- e))"

text \<open>A scalar or a string value, as \<open>Decode\<close> reads one inside \<open>Token\<close>.\<close>

definition token_value :: "string \<Rightarrow> json_error + json_token \<times> string" where
  "token_value s =
     (case json_value json_depth s of
        None \<Rightarrow> Inl JsonSyntax
      | Some (v, r) \<Rightarrow>
          (case v of
             JStr x \<Rightarrow> Inr (TokString x, r)
           | JNum n \<Rightarrow> if float_ok n then Inr (TokScalar, r) else Inl JsonRange
           | _ \<Rightarrow> Inr (TokScalar, r)))"

function json_token_next :: "json_decoder \<Rightarrow> json_error + json_token \<times> json_decoder" where
  "json_token_next dec =
     (case skip_ws (jdRest dec) of
        [] \<Rightarrow> Inl JsonEOF
      | c # r \<Rightarrow>
          if c = CHR ''['' \<or> c = CHR ''{'' then
            (if \<not> tokenValueAllowed (jdState dec) then Inl JsonSyntax
             else Inr (TokDelim c,
               \<lparr>jdState = (if c = CHR ''['' then ArrayStart else ObjectStart),
                jdStack = jdState dec # jdStack dec, jdRest = r\<rparr>))
          else if c = CHR '']'' then
            (if jdState dec \<noteq> ArrayStart \<and> jdState dec \<noteq> ArrayComma then Inl JsonSyntax
             else Inr (TokDelim c,
               \<lparr>jdState = tokenValueEnd (hd (jdStack dec)), jdStack = tl (jdStack dec), jdRest = r\<rparr>))
          else if c = CHR ''}'' then
            (if jdState dec \<noteq> ObjectStart \<and> jdState dec \<noteq> ObjectComma then Inl JsonSyntax
             else Inr (TokDelim c,
               \<lparr>jdState = tokenValueEnd (hd (jdStack dec)), jdStack = tl (jdStack dec), jdRest = r\<rparr>))
          else if c = CHR '':'' then
            (if jdState dec \<noteq> ObjectColon then Inl JsonSyntax
             else json_token_next (dec\<lparr>jdState := ObjectValue, jdRest := r\<rparr>))
          else if c = CHR '','' then
            (if jdState dec = ArrayComma then json_token_next (dec\<lparr>jdState := ArrayValue, jdRest := r\<rparr>)
             else if jdState dec = ObjectComma then json_token_next (dec\<lparr>jdState := ObjectKey, jdRest := r\<rparr>)
             else Inl JsonSyntax)
          else if c = dquote \<and> (jdState dec = ObjectStart \<or> jdState dec = ObjectKey) then
            (case token_value (c # r) of
               Inl e \<Rightarrow> Inl e
             | Inr (t, r') \<Rightarrow> Inr (t, dec\<lparr>jdState := ObjectColon, jdRest := r'\<rparr>))
          else if \<not> tokenValueAllowed (jdState dec) then Inl JsonSyntax
          else (case token_value (c # r) of
                  Inl e \<Rightarrow> Inl e
                | Inr (t, r') \<Rightarrow> Inr (t, dec\<lparr>jdState := tokenValueEnd (jdState dec), jdRest := r'\<rparr>)))"
  by pat_completeness auto
termination
  by (relation "measure (\<lambda>dec. length (jdRest dec))") (auto dest: skip_ws_Cons_less)

declare json_token_next.simps [simp del]

definition json_more :: "json_decoder \<Rightarrow> bool" where
  "json_more dec = (case skip_ws (jdRest dec) of [] \<Rightarrow> False | c # _ \<Rightarrow> c \<noteq> CHR '']'' \<and> c \<noteq> CHR ''}'')"

lemma token_value_less: "token_value s = Inr (t, r) \<Longrightarrow> length r < length s"
  by (auto simp: token_value_def split: option.splits json.splits if_splits dest: json_value_less(1))

lemma json_token_next_less:
  "json_token_next dec = Inr (t, dec') \<Longrightarrow> length (jdRest dec') < length (jdRest dec)"
proof (induction dec rule: json_token_next.induct)
  case (1 dec)
  obtain c r where c: "skip_ws (jdRest dec) = c # r"
    using "1.prems" by (cases "skip_ws (jdRest dec)") (simp_all add: json_token_next.simps)
  have cr: "length (c # r) \<le> length (jdRest dec)" using skip_ws_le [of "jdRest dec"] c by simp
  have rec: "length (jdRest dec') < length (jdRest dec)"
    if "json_token_next (dec\<lparr>jdState := st, jdRest := r\<rparr>) = Inr (t, dec')"
      and "c = CHR '':'' \<and> jdState dec = ObjectColon \<and> st = ObjectValue
         \<or> c = CHR '','' \<and> jdState dec = ArrayComma \<and> st = ArrayValue
         \<or> c = CHR '','' \<and> jdState dec = ObjectComma \<and> st = ObjectKey" for st
    using that(2) "1.IH" [OF c] that(1) cr by auto
  show ?case
  proof (cases "c = CHR '':'' \<or> c = CHR '',''")
    case True
    then show ?thesis
      using "1.prems" rec unfolding json_token_next.simps [of dec] c list.case
      by (auto split: if_splits)
  next
    case False
    then show ?thesis
      using "1.prems" cr unfolding json_token_next.simps [of dec] c list.case
      by (auto split: if_splits sum.splits dest!: token_value_less)
  qed
qed

section \<open>The scan for duplicate members\<close>

text \<open>
  The source's recursion over tokens; the loop over an object's members holds the names
  seen.  As in \<open>json_value\<close>, the comparisons of lengths never fail.
\<close>

function (sequential)
  scanPrivateControlJSONValue :: "json_decoder \<Rightarrow> json_error + json_decoder"
and scan_members :: "string list \<Rightarrow> json_decoder \<Rightarrow> json_error + json_decoder"
and scan_elems :: "json_decoder \<Rightarrow> json_error + json_decoder"
where
  "scanPrivateControlJSONValue dec =
     (case json_token_next dec of
        Inl e \<Rightarrow> Inl e
      | Inr (TokDelim c, dec1) \<Rightarrow>
          if c = CHR ''{'' then scan_members [] dec1
          else if c = CHR ''['' then scan_elems dec1
          else Inl JsonSyntax
      | Inr (_, dec1) \<Rightarrow> Inr dec1)"
| "scan_members seen dec =
     (if json_more dec then
        (case json_token_next dec of
           Inl e \<Rightarrow> Inl e
         | Inr (TokString key, dec1) \<Rightarrow>
             if key \<in> set seen then Inl (JsonDuplicate key)
             else (case scanPrivateControlJSONValue dec1 of
                     Inl e \<Rightarrow> Inl e
                   | Inr dec2 \<Rightarrow>
                       if length (jdRest dec) \<le> length (jdRest dec2) then Inl JsonSyntax
                       else scan_members (key # seen) dec2)
         | Inr (_, dec1) \<Rightarrow> Inl JsonType)
      else
        (case json_token_next dec of
           Inl e \<Rightarrow> Inl e
         | Inr (t, dec1) \<Rightarrow> if t = TokDelim CHR ''}'' then Inr dec1 else Inl JsonSyntax))"
| "scan_elems dec =
     (if json_more dec then
        (case scanPrivateControlJSONValue dec of
           Inl e \<Rightarrow> Inl e
         | Inr dec2 \<Rightarrow>
             if length (jdRest dec) \<le> length (jdRest dec2) then Inl JsonSyntax
             else scan_elems dec2)
      else
        (case json_token_next dec of
           Inl e \<Rightarrow> Inl e
         | Inr (t, dec1) \<Rightarrow> if t = TokDelim CHR '']'' then Inr dec1 else Inl JsonSyntax))"
  by pat_completeness auto
termination
  by (relation "measure (\<lambda>x. case x of Inl dec \<Rightarrow> 2 * length (jdRest dec)
       | Inr (Inl (seen, dec)) \<Rightarrow> 2 * length (jdRest dec) + 1
       | Inr (Inr dec) \<Rightarrow> 2 * length (jdRest dec) + 1)")
    (auto dest!: json_token_next_less)

declare scanPrivateControlJSONValue.simps [simp del] scan_members.simps [simp del] scan_elems.simps [simp del]

definition requireJSONEOF :: "json_decoder \<Rightarrow> bool" where
  "requireJSONEOF dec = (json_token_next dec = Inl JsonEOF)"

definition new_decoder :: "string \<Rightarrow> json_decoder" where
  "new_decoder raw = \<lparr>jdState = TopValue, jdStack = [], jdRest = raw\<rparr>"

definition validatePrivateControlJSON :: "string \<Rightarrow> bool" where
  "validatePrivateControlJSON raw =
     (utf8_valid raw \<and>
      (case scanPrivateControlJSONValue (new_decoder raw) of
         Inl _ \<Rightarrow> False
       | Inr dec \<Rightarrow> requireJSONEOF dec))"

section \<open>Decoding a message\<close>

definition decodePrivateControlJSON :: "'s fields \<Rightarrow> 's \<Rightarrow> string \<Rightarrow> 's option" where
  "decodePrivateControlJSON fs zero raw =
     (if \<not> validatePrivateControlJSON raw then None
      else (case json_value json_depth raw of
              None \<Rightarrow> None
            | Some (v, r) \<Rightarrow>
                (case dec_struct fs True v zero of
                   None \<Rightarrow> None
                 | Some m \<Rightarrow> if requireJSONEOF (new_decoder r) then Some m else None)))"

definition decodePrivateControlEnvelope :: "string \<Rightarrow> privateControlEnvelope option" where
  "decodePrivateControlEnvelope raw =
     (case json_document raw of
        None \<Rightarrow> None
      | Some v \<Rightarrow>
          (case dec_struct fields_envelope False v zero_envelope of
             None \<Rightarrow> None
           | Some envelope \<Rightarrow>
               if envSchemaVersion envelope \<noteq> privateControlSchemaVersion \<or> envType envelope = []
                  \<or> \<not> validPrivateControlID (envMessageID envelope)
               then None else Some envelope))"

text \<open>\<open>json.Unmarshal\<close> into a \<open>map[string]json.RawMessage\<close>: the last of equal names stays.\<close>

definition raw_members :: "string \<Rightarrow> (string, json) gomap option" where
  "raw_members raw =
     (case json_document raw of
        Some (JObj ms) \<Rightarrow> Some (fold (\<lambda>(k, v) m. mput k v m) ms [])
      | Some JNull \<Rightarrow> Some []
      | _ \<Rightarrow> None)"

end
