(* ===== verification/Pcl_Scan.thy ===== *)
theory Pcl_Scan
  imports Pcl_Codec
begin

text \<open>
  The token-by-token check of \<open>validatePrivateControlJSON\<close> (\<open>private_control.go\<close>, lines
  899 to 973) against the grammar: it accepts exactly the documents of the grammar whose
  objects have no member twice and whose numbers are in the range of a float64, at any
  nesting depth.
\<close>

section \<open>What the scan accepts\<close>

fun scan_ok :: "json \<Rightarrow> bool" where
  "scan_ok (JNum n) = float_ok n"
| "scan_ok (JArr vs) = list_all scan_ok vs"
| "scan_ok (JObj ms) = (distinct (map fst ms) \<and> list_all (\<lambda>(k, v). scan_ok v) ms)"
| "scan_ok _ = True"

abbreviation dec_at :: "token_state \<Rightarrow> token_state list \<Rightarrow> string \<Rightarrow> json_decoder" where
  "dec_at st stk s \<equiv> \<lparr>jdState = st, jdStack = stk, jdRest = s\<rparr>"

text \<open>What follows an element of an array, and a member of an object.\<close>

definition elems_tail :: "nat \<Rightarrow> string \<Rightarrow> (json list \<times> string) option" where
  "elems_tail d r =
     (case skip_ws r of [] \<Rightarrow> None
      | c # t \<Rightarrow> if c = CHR '']'' then Some ([], t)
                else if c = CHR '','' then json_elems d t else None)"

definition members_tail :: "nat \<Rightarrow> string \<Rightarrow> ((string \<times> json) list \<times> string) option" where
  "members_tail d r =
     (case skip_ws r of [] \<Rightarrow> None
      | c # t \<Rightarrow> if c = CHR ''}'' then Some ([], t)
                else if c = CHR '','' then json_members d t else None)"

lemma json_elems_tail:
  "json_elems d s =
     (case json_value d s of None \<Rightarrow> None
      | Some (v, r) \<Rightarrow> map_option (\<lambda>(vs, t). (v # vs, t)) (elems_tail d r))"
  by (subst json_elems_eq) (auto simp: elems_tail_def split: option.splits list.splits)

lemma json_members_tail:
  "json_members d s =
     (case skip_ws s of [] \<Rightarrow> None
      | q # s1 \<Rightarrow>
          if q \<noteq> dquote then None
          else (case unquote s1 of None \<Rightarrow> None
                | Some (k, s2) \<Rightarrow>
                    (case skip_ws s2 of [] \<Rightarrow> None
                     | c # s3 \<Rightarrow>
                         if c \<noteq> CHR '':'' then None
                         else (case json_value d s3 of None \<Rightarrow> None
                               | Some (v, r) \<Rightarrow>
                                   map_option (\<lambda>(ms, t). ((k, v) # ms, t)) (members_tail d r)))))"
  by (subst json_members_eq) (auto simp: members_tail_def split: option.splits list.splits)

section \<open>Scalars\<close>

text \<open>A value that is neither an object nor an array does not depend on the depth.\<close>

lemma json_value_scalar:
  "skip_ws s = c # r \<Longrightarrow> c \<noteq> CHR ''['' \<Longrightarrow> c \<noteq> CHR ''{'' \<Longrightarrow> json_value d s = json_value d' s"
  by (simp add: json_value.simps)

lemma json_literal_none:
  assumes "\<not> is_digit c" and "c \<noteq> CHR ''-''" and "c \<noteq> CHR ''n''" and "c \<noteq> CHR ''t''" and "c \<noteq> CHR ''f''"
  shows "json_literal (c # r) = None"
proof -
  have "json_number (c # r) = None"
    using assms(1,2) by (auto simp: json_number_def int_part_def span_digits_def is_digit_def)
  moreover have "\<not> has_prefix (c # r) ''null''" "\<not> has_prefix (c # r) ''true''" "\<not> has_prefix (c # r) ''false''"
    using assms(3-5) by (simp_all add: has_prefix_def)
  ultimately show ?thesis by (simp add: json_literal_def)
qed

lemma json_literal_delim:
  assumes "c = CHR '']'' \<or> c = CHR ''}'' \<or> c = CHR '':'' \<or> c = CHR '',''"
  shows "json_literal (c # r) = None"
  using assms by (elim disjE) (simp_all add: json_literal_none is_digit_def)

lemma json_value_delim:
  "skip_ws s = c # r \<Longrightarrow> c = CHR '']'' \<or> c = CHR ''}'' \<or> c = CHR '':'' \<or> c = CHR '','' \<Longrightarrow>
   json_value d s = None"
  using json_literal_delim [of c r] by (auto simp: json_value.simps)

lemma json_value_no_composite:
  assumes "skip_ws s = c # r" and "c \<noteq> CHR ''[''" and "c \<noteq> CHR ''{''" and "json_value d s = Some (v, t)"
  shows "(\<exists>x. v = JStr x) \<or> (\<exists>n. v = JNum n) \<or> (\<exists>b. v = JBool b) \<or> v = JNull"
proof -
  have "json_value d s = (if c = dquote then map_option (\<lambda>(x, t). (JStr x, t)) (unquote r) else json_literal (c # r))"
    using assms(1-3) by (simp add: json_value.simps)
  from assms(4) [unfolded this json_literal_def] show ?thesis
    by (auto split: if_splits)
qed

lemma token_value_iff:
  assumes "skip_ws s = c # r" and "c \<noteq> CHR ''[''" and "c \<noteq> CHR ''{''"
  shows "(\<exists>t. token_value (c # r) = Inr (t, r')) \<longleftrightarrow> (\<exists>v. json_value d s = Some (v, r') \<and> scan_ok v)"
proof -
  have eq: "json_value json_depth (c # r) = json_value d s"
    using json_value_skip [OF assms(1)] json_value_scalar [OF assms] by metis
  show ?thesis
  proof (cases "json_value d s")
    case None
    then show ?thesis by (simp add: token_value_def eq)
  next
    case (Some p)
    then obtain v t where v: "json_value d s = Some (v, t)" by (cases p) simp
    consider x where "v = JStr x" | n where "v = JNum n" | b where "v = JBool b" | "v = JNull"
      using json_value_no_composite [OF assms v] by blast
    then show ?thesis by cases (simp_all add: token_value_def eq v)
  qed
qed

lemma token_value_delim: "token_value s = Inr (t, r) \<Longrightarrow> t \<noteq> TokDelim c"
  by (auto simp: token_value_def split: option.splits json.splits if_splits)

text \<open>The tokens of the comma and the colon are the tokens behind them.\<close>

lemma token_comma:
  "skip_ws s = CHR '','' # t \<Longrightarrow> json_token_next (dec_at ArrayComma stk s) = json_token_next (dec_at ArrayValue stk t)"
  "skip_ws s = CHR '','' # t \<Longrightarrow> json_token_next (dec_at ObjectComma stk s) = json_token_next (dec_at ObjectKey stk t)"
  "skip_ws s = CHR '':'' # t \<Longrightarrow> json_token_next (dec_at ObjectColon stk s) = json_token_next (dec_at ObjectValue stk t)"
  by (simp_all add: json_token_next.simps [of "dec_at ArrayComma stk s"]
      json_token_next.simps [of "dec_at ObjectComma stk s"] json_token_next.simps [of "dec_at ObjectColon stk s"])

lemma scan_cong:
  "json_token_next D = json_token_next D' \<Longrightarrow> scanPrivateControlJSONValue D = scanPrivateControlJSONValue D'"
  by (simp add: scanPrivateControlJSONValue.simps [of D] scanPrivateControlJSONValue.simps [of D'])

section \<open>The loops\<close>

text \<open>
  What the scan of one value does, as the grammar has it; the loops are first shown to do
  what the grammar does after an element or member, given that for shorter input.
\<close>

definition scans :: "nat \<Rightarrow> string \<Rightarrow> bool" where
  "scans d s \<longleftrightarrow> (\<forall>st stk D'. tokenValueAllowed st \<longrightarrow>
     (scanPrivateControlJSONValue (dec_at st stk s) = Inr D' \<longleftrightarrow>
      (\<exists>v r. json_value d s = Some (v, r) \<and> scan_ok v \<and> D' = dec_at (tokenValueEnd st) stk r)))"

lemma scansD:
  "scans d s \<Longrightarrow> tokenValueAllowed st \<Longrightarrow>
   scanPrivateControlJSONValue (dec_at st stk s) = Inr D' \<longleftrightarrow>
   (\<exists>v r. json_value d s = Some (v, r) \<and> scan_ok v \<and> D' = dec_at (tokenValueEnd st) stk r)"
  by (simp add: scans_def)

lemma scan_elems_tail:
  assumes "\<And>s. length s < n \<Longrightarrow> scans d s"
  shows "length r < n \<Longrightarrow>
     scan_elems (dec_at ArrayComma (st # stk) r) = Inr D' \<longleftrightarrow>
     (\<exists>vs t. elems_tail d r = Some (vs, t) \<and> list_all scan_ok vs \<and> D' = dec_at (tokenValueEnd st) stk t)"
proof (induction r rule: length_induct)
  case (1 r)
  show ?case
  proof (cases "skip_ws r")
    case Nil
    then show ?thesis
      by (simp add: scan_elems.simps json_more_def json_token_next.simps elems_tail_def)
  next
    case (Cons c t)
    have t: "length t < length r" using skip_ws_Cons_less [OF Cons] .
    consider "c = CHR '']''" | "c = CHR '',''" | "c \<noteq> CHR '']''" "c \<noteq> CHR '',''" by blast
    then show ?thesis
    proof cases
      case 1
      then show ?thesis
        using Cons by (auto simp: scan_elems.simps json_more_def json_token_next.simps elems_tail_def)
    next
      case 2
      note comma = Cons [unfolded 2]
      have scan: "scanPrivateControlJSONValue (dec_at ArrayComma (st # stk) r)
          = scanPrivateControlJSONValue (dec_at ArrayValue (st # stk) t)"
        by (rule scan_cong) (rule token_comma(1) [OF comma])
      have A: "scanPrivateControlJSONValue (dec_at ArrayComma (st # stk) r) = Inr D2 \<longleftrightarrow>
          (\<exists>v u. json_value d t = Some (v, u) \<and> scan_ok v \<and> D2 = dec_at ArrayComma (st # stk) u)" for D2
        unfolding scan
        using scansD [OF assms, of t ArrayValue "st # stk" D2] t "1.prems"
        by (simp add: tokenValueAllowed_def tokenValueEnd_def)
      have more: "json_more (dec_at ArrayComma (st # stk) r)" using comma by (simp add: json_more_def)
      have tail: "elems_tail d r = json_elems d t" using comma by (simp add: elems_tail_def)
      show ?thesis
      proof (cases "\<exists>v u. json_value d t = Some (v, u) \<and> scan_ok v")
        case False
        then have "\<nexists>D2. scanPrivateControlJSONValue (dec_at ArrayComma (st # stk) r) = Inr D2"
          using A by blast
        then obtain e where "scanPrivateControlJSONValue (dec_at ArrayComma (st # stk) r) = Inl e"
          by (metis sum.exhaust)
        then show ?thesis
          using False more by (auto simp: scan_elems.simps tail json_elems_tail split: option.splits)
      next
        case True
        then obtain v u where v: "json_value d t = Some (v, u)" "scan_ok v" by blast
        have u: "length u < length r" using json_value_less(1) [OF v(1)] t by simp
        have "scanPrivateControlJSONValue (dec_at ArrayComma (st # stk) r) = Inr (dec_at ArrayComma (st # stk) u)"
          using A v by blast
        then have "scan_elems (dec_at ArrayComma (st # stk) r) = scan_elems (dec_at ArrayComma (st # stk) u)"
          using more u by (simp add: scan_elems.simps [of "dec_at ArrayComma (st # stk) r"])
        then show ?thesis
          using 1 u v by (auto simp: tail json_elems_tail)
      qed
    next
      case 3
      then show ?thesis
        using Cons by (auto simp: scan_elems.simps json_more_def json_token_next.simps elems_tail_def
            scanPrivateControlJSONValue.simps tokenValueAllowed_def)
    qed
  qed
qed

lemma token_value_string:
  "token_value (dquote # s) =
     (case unquote s of None \<Rightarrow> Inl JsonSyntax | Some (k, r) \<Rightarrow> Inr (TokString k, r))"
  by (simp add: token_value_def json_value.simps skip_ws_no split: option.split)

lemma key_token:
  assumes "st = ObjectKey \<or> st = ObjectStart \<and> \<not> (\<exists>t. skip_ws s = CHR ''}'' # t)"
  shows "json_token_next (dec_at st stk s) =
     (case skip_ws s of
        [] \<Rightarrow> Inl JsonEOF
      | q # s1 \<Rightarrow>
          if q = dquote
          then (case unquote s1 of None \<Rightarrow> Inl JsonSyntax
                | Some (k, s2) \<Rightarrow> Inr (TokString k, dec_at ObjectColon stk s2))
          else Inl JsonSyntax)"
  using assms
  by (auto simp: json_token_next.simps [of "dec_at st stk s"] token_value_string tokenValueAllowed_def
      split: list.split option.split)

lemma scan_colon:
  assumes "scans d s3" and "skip_ws s2 = CHR '':'' # s3"
  shows "scanPrivateControlJSONValue (dec_at ObjectColon stk s2) = Inr D' \<longleftrightarrow>
     (\<exists>v r. json_value d s3 = Some (v, r) \<and> scan_ok v \<and> D' = dec_at ObjectComma stk r)"
proof -
  have "scanPrivateControlJSONValue (dec_at ObjectColon stk s2) = scanPrivateControlJSONValue (dec_at ObjectValue stk s3)"
    by (rule scan_cong) (rule token_comma(3) [OF assms(2)])
  then show ?thesis
    using scansD [OF assms(1), of ObjectValue stk D'] by (simp add: tokenValueAllowed_def tokenValueEnd_def)
qed

lemma scan_no_colon:
  "\<not> (\<exists>t. skip_ws s2 = CHR '':'' # t) \<Longrightarrow> \<exists>e. scanPrivateControlJSONValue (dec_at ObjectColon stk s2) = Inl e"
  by (auto simp: scanPrivateControlJSONValue.simps json_token_next.simps tokenValueAllowed_def split: list.split)

text \<open>One member: its name, the colon and its value.\<close>

definition member_at :: "nat \<Rightarrow> string \<Rightarrow> (string \<times> json \<times> string) option" where
  "member_at d s =
     (case skip_ws s of [] \<Rightarrow> None
      | q # s1 \<Rightarrow>
          if q \<noteq> dquote then None
          else (case unquote s1 of None \<Rightarrow> None
                | Some (k, s2) \<Rightarrow>
                    (case skip_ws s2 of [] \<Rightarrow> None
                     | c # s3 \<Rightarrow>
                         if c \<noteq> CHR '':'' then None
                         else map_option (\<lambda>(v, r). (k, v, r)) (json_value d s3))))"

lemma json_members_at:
  "json_members d s =
     (case member_at d s of None \<Rightarrow> None
      | Some (k, v, r) \<Rightarrow> map_option (\<lambda>(ms, t). ((k, v) # ms, t)) (members_tail d r))"
  by (simp add: json_members_tail member_at_def split: list.split option.split)

lemma member_at_less: "member_at d s = Some (k, v, r) \<Longrightarrow> length r < length s"
proof -
  assume "member_at d s = Some (k, v, r)"
  then obtain s1 s2 s3 where "skip_ws s = dquote # s1" "unquote s1 = Some (k, s2)"
      "skip_ws s2 = CHR '':'' # s3" "json_value d s3 = Some (v, r)"
    by (auto simp: member_at_def split: list.splits if_splits option.splits)
  then show ?thesis
    using skip_ws_Cons_less [of s] unquote_less [of s1] skip_ws_Cons_less [of s2] json_value_less(1) [of d s3]
    by fastforce
qed

lemma scan_member:
  assumes A: "\<And>s. length s < n \<Longrightarrow> scans d s" and n: "length s \<le> n" "length s \<le> length (jdRest D)"
    and st: "st = ObjectKey \<or> st = ObjectStart \<and> \<not> (\<exists>t. skip_ws s = CHR ''}'' # t)"
    and D: "json_more D" "json_token_next D = json_token_next (dec_at st stk s)"
  shows "scan_members seen D = Inr D' \<longleftrightarrow>
     (\<exists>k v r. member_at d s = Some (k, v, r) \<and> k \<notin> set seen \<and> scan_ok v
        \<and> scan_members (k # seen) (dec_at ObjectComma stk r) = Inr D')"
proof (cases "\<exists>s1 k s2. skip_ws s = dquote # s1 \<and> unquote s1 = Some (k, s2)")
  case False
  then have "member_at d s = None"
    by (auto simp: member_at_def split: list.split option.split)
  moreover have "\<exists>e. json_token_next D = Inl e"
    using False unfolding D(2) key_token [OF st] by (auto split: list.split option.split)
  ultimately show ?thesis using D(1) by (auto simp: scan_members.simps [of _ D])
next
  case True
  then obtain s1 k s2 where k: "skip_ws s = dquote # s1" "unquote s1 = Some (k, s2)" by blast
  have tok: "json_token_next D = Inr (TokString k, dec_at ObjectColon stk s2)"
    using k unfolding D(2) key_token [OF st] by simp
  have lt: "length s2 < length s" using skip_ws_Cons_less [OF k(1)] unquote_less [OF k(2)] by simp
  show ?thesis
  proof (cases "\<exists>s3. skip_ws s2 = CHR '':'' # s3")
    case False
    then have "member_at d s = None"
      using k by (auto simp: member_at_def split: list.split)
    moreover obtain e where "scanPrivateControlJSONValue (dec_at ObjectColon stk s2) = Inl e"
      using scan_no_colon [OF False] by blast
    ultimately show ?thesis using D(1) tok by (simp add: scan_members.simps [of _ D])
  next
    case True
    then obtain s3 where s3: "skip_ws s2 = CHR '':'' # s3" by blast
    have l3: "length s3 < length s" using skip_ws_Cons_less [OF s3] lt by simp
    have mem: "member_at d s = map_option (\<lambda>(v, r). (k, v, r)) (json_value d s3)"
      using k s3 by (simp add: member_at_def)
    have "scans d s3" using A l3 n(1) by simp
    note sc = scan_colon [OF this s3, of stk]
    show ?thesis
    proof (cases "\<exists>v r. json_value d s3 = Some (v, r) \<and> scan_ok v")
      case False
      then have "\<nexists>D2. scanPrivateControlJSONValue (dec_at ObjectColon stk s2) = Inr D2"
        using sc by blast
      then obtain e where "scanPrivateControlJSONValue (dec_at ObjectColon stk s2) = Inl e"
        by (metis sum.exhaust)
      then show ?thesis
        using False D(1) tok mem by (auto simp: scan_members.simps [of _ D])
    next
      case True
      then obtain v r where v: "json_value d s3 = Some (v, r)" "scan_ok v" by blast
      then have "scanPrivateControlJSONValue (dec_at ObjectColon stk s2) = Inr (dec_at ObjectComma stk r)"
        using sc by blast
      moreover have "length r < length (jdRest D)" using json_value_less(1) [OF v(1)] l3 n(2) by simp
      ultimately show ?thesis
        using v D(1) tok mem by (simp add: scan_members.simps [of _ D])
    qed
  qed
qed

lemma scan_members_tail:
  assumes "\<And>s. length s < n \<Longrightarrow> scans d s"
  shows "length r < n \<Longrightarrow>
     scan_members seen (dec_at ObjectComma (st # stk) r) = Inr D' \<longleftrightarrow>
     (\<exists>ms t. members_tail d r = Some (ms, t) \<and> distinct (map fst ms) \<and> fst ` set ms \<inter> set seen = {}
        \<and> list_all (\<lambda>(k, v). scan_ok v) ms \<and> D' = dec_at (tokenValueEnd st) stk t)"
proof (induction r arbitrary: seen rule: length_induct)
  case (1 r)
  show ?case
  proof (cases "skip_ws r")
    case Nil
    then show ?thesis
      by (simp add: scan_members.simps json_more_def json_token_next.simps members_tail_def)
  next
    case (Cons c t)
    have t: "length t < length r" using skip_ws_Cons_less [OF Cons] .
    consider "c = CHR ''}''" | "c = CHR '',''" | "c \<noteq> CHR ''}''" "c \<noteq> CHR '',''" by blast
    then show ?thesis
    proof cases
      case 1
      then show ?thesis
        using Cons by (auto simp: scan_members.simps json_more_def json_token_next.simps members_tail_def)
    next
      case 2
      note comma = Cons [unfolded 2]
      have more: "json_more (dec_at ObjectComma (st # stk) r)" using comma by (simp add: json_more_def)
      have tn: "length t \<le> n" using t "1.prems" by linarith
      have tail: "members_tail d r = json_members d t" using comma by (simp add: members_tail_def)
      have step: "scan_members seen (dec_at ObjectComma (st # stk) r) = Inr D' \<longleftrightarrow>
         (\<exists>k v u. member_at d t = Some (k, v, u) \<and> k \<notin> set seen \<and> scan_ok v
            \<and> scan_members (k # seen) (dec_at ObjectComma (st # stk) u) = Inr D')"
        using t tn more token_comma(2) [OF comma]
        by (intro scan_member [OF assms, where st = ObjectKey]) simp_all
      show ?thesis
      proof (cases "member_at d t")
        case None
        then show ?thesis by (simp add: step tail json_members_at)
      next
        case (Some p)
        then obtain k v u where m: "member_at d t = Some (k, v, u)" by (cases p) auto
        have u: "length u < length r" using member_at_less [OF m] t by simp
        then have "scan_members (k # seen) (dec_at ObjectComma (st # stk) u) = Inr D' \<longleftrightarrow>
           (\<exists>ms t. members_tail d u = Some (ms, t) \<and> distinct (map fst ms)
              \<and> fst ` set ms \<inter> set (k # seen) = {}
              \<and> list_all (\<lambda>(k, v). scan_ok v) ms \<and> D' = dec_at (tokenValueEnd st) stk t)"
          using 1 by simp
        then show ?thesis
          using m by (auto simp: step tail json_members_at)
      qed
    next
      case 3
      then show ?thesis
        using Cons by (auto simp: scan_members.simps json_more_def json_token_next.simps members_tail_def
            tokenValueAllowed_def)
    qed
  qed
qed

section \<open>The scan of a value\<close>

lemma scans_scalar:
  assumes c: "skip_ws s = c # r" "c \<noteq> CHR ''[''" "c \<noteq> CHR ''{''"
  shows "scans d s"
  unfolding scans_def
proof (intro allI impI)
  fix st stk D'
  assume st: "tokenValueAllowed st"
  show "scanPrivateControlJSONValue (dec_at st stk s) = Inr D' \<longleftrightarrow>
      (\<exists>v r. json_value d s = Some (v, r) \<and> scan_ok v \<and> D' = dec_at (tokenValueEnd st) stk r)"
  proof (cases "c = CHR '']'' \<or> c = CHR ''}'' \<or> c = CHR '':'' \<or> c = CHR '',''")
    case True
    then have "json_value d s = None" using json_value_delim [OF c(1)] by blast
    moreover have "\<exists>e. scanPrivateControlJSONValue (dec_at st stk s) = Inl e"
      using True st c(1)
      by (auto simp: scanPrivateControlJSONValue.simps json_token_next.simps [of "dec_at st stk s"]
          tokenValueAllowed_def)
    ultimately show ?thesis by auto
  next
    case False
    have key: "\<not> (st = ObjectStart \<or> st = ObjectKey)" using st by (auto simp: tokenValueAllowed_def)
    have tok: "json_token_next (dec_at st stk s) =
        (case token_value (c # r) of Inl e \<Rightarrow> Inl e
         | Inr (t, r') \<Rightarrow> Inr (t, dec_at (tokenValueEnd st) stk r'))"
      using False c st key by (simp add: json_token_next.simps [of "dec_at st stk s"] split: sum.split)
    have "scanPrivateControlJSONValue (dec_at st stk s) = Inr D' \<longleftrightarrow>
        (\<exists>t r'. token_value (c # r) = Inr (t, r') \<and> D' = dec_at (tokenValueEnd st) stk r')"
      unfolding scanPrivateControlJSONValue.simps [of "dec_at st stk s"] tok
      using token_value_delim by (auto split: sum.split json_token.split)
    then show ?thesis
      using token_value_iff [OF c, of _ d] by blast
  qed
qed

lemma scans_array:
  assumes A: "\<And>s'. length s' < length s \<Longrightarrow> scans (d - 1) s'"
    and d: "d \<noteq> 0" and c: "skip_ws s = CHR ''['' # r"
  shows "scans d s"
  unfolding scans_def
proof (intro allI impI)
  fix st stk D'
  assume st: "tokenValueAllowed st"
  have r: "length r < length s" using skip_ws_Cons_less [OF c] .
  have scan: "scanPrivateControlJSONValue (dec_at st stk s) = scan_elems (dec_at ArrayStart (st # stk) r)"
    using c st by (simp add: scanPrivateControlJSONValue.simps json_token_next.simps [of "dec_at st stk s"])
  show "scanPrivateControlJSONValue (dec_at st stk s) = Inr D' \<longleftrightarrow>
      (\<exists>v r. json_value d s = Some (v, r) \<and> scan_ok v \<and> D' = dec_at (tokenValueEnd st) stk r)"
  proof (cases "skip_ws r")
    case Nil
    then show ?thesis
      using c by (simp add: scan scan_elems.simps json_more_def json_token_next.simps json_value.simps [of d s])
  next
    case (Cons e t)
    show ?thesis
    proof (cases "e = CHR '']''")
      case True
      then show ?thesis
        using c d Cons by (auto simp: scan scan_elems.simps json_more_def json_token_next.simps json_value.simps [of d s])
    next
      case no: False
      have val: "json_value d s = map_option (\<lambda>(vs, t). (JArr vs, t)) (json_elems (d - 1) r)"
        using c d Cons no by (simp add: json_value.simps [of d s])
      have A1: "scanPrivateControlJSONValue (dec_at ArrayStart (st # stk) r) = Inr D2 \<longleftrightarrow>
          (\<exists>v u. json_value (d - 1) r = Some (v, u) \<and> scan_ok v \<and> D2 = dec_at ArrayComma (st # stk) u)" for D2
        using scansD [OF A [OF r], of ArrayStart "st # stk" D2]
        by (simp add: tokenValueAllowed_def tokenValueEnd_def)
      show ?thesis
      proof (cases "e \<noteq> CHR ''}'' \<and> (\<exists>v u. json_value (d - 1) r = Some (v, u) \<and> scan_ok v)")
        case True
        then obtain v u where v: "json_value (d - 1) r = Some (v, u)" "scan_ok v" by blast
        have u: "length u < length r" using json_value_less(1) [OF v(1)] .
        have more: "json_more (dec_at ArrayStart (st # stk) r)" using Cons no True by (simp add: json_more_def)
        have "scanPrivateControlJSONValue (dec_at ArrayStart (st # stk) r) = Inr (dec_at ArrayComma (st # stk) u)"
          using A1 v by blast
        then have "scan_elems (dec_at ArrayStart (st # stk) r) = scan_elems (dec_at ArrayComma (st # stk) u)"
          using more u by (simp add: scan_elems.simps [of "dec_at ArrayStart (st # stk) r"])
        moreover have "length u < length s" using u r by simp
        ultimately show ?thesis
          using scan_elems_tail [where r = u and st = st and stk = stk and D' = D', OF A] v by (auto simp: scan val json_elems_tail)
      next
        case False
        have "\<nexists>D2. scan_elems (dec_at ArrayStart (st # stk) r) = Inr D2"
        proof (cases "e = CHR ''}''")
          case True
          then show ?thesis
            using Cons by (simp add: scan_elems.simps json_more_def json_token_next.simps)
        next
          case brace: False
          then have "\<nexists>D2. scanPrivateControlJSONValue (dec_at ArrayStart (st # stk) r) = Inr D2"
            using A1 False by blast
          then obtain e' where "scanPrivateControlJSONValue (dec_at ArrayStart (st # stk) r) = Inl e'"
            by (metis sum.exhaust)
          then show ?thesis
            using Cons no brace by (simp add: scan_elems.simps json_more_def)
        qed
        moreover have "\<nexists>vs u. json_elems (d - 1) r = Some (vs, u) \<and> list_all scan_ok vs"
          using False json_value_delim [OF Cons, of "d - 1"] by (auto simp: json_elems_tail split: option.splits)
        ultimately show ?thesis by (auto simp: scan val)
      qed
    qed
  qed
qed

lemma scans_object:
  assumes A: "\<And>s'. length s' < length s \<Longrightarrow> scans (d - 1) s'"
    and d: "d \<noteq> 0" and c: "skip_ws s = CHR ''{'' # r"
  shows "scans d s"
  unfolding scans_def
proof (intro allI impI)
  fix st stk D'
  assume st: "tokenValueAllowed st"
  have r: "length r < length s" using skip_ws_Cons_less [OF c] .
  have scan: "scanPrivateControlJSONValue (dec_at st stk s) = scan_members [] (dec_at ObjectStart (st # stk) r)"
    using c st by (simp add: scanPrivateControlJSONValue.simps json_token_next.simps [of "dec_at st stk s"])
  show "scanPrivateControlJSONValue (dec_at st stk s) = Inr D' \<longleftrightarrow>
      (\<exists>v r. json_value d s = Some (v, r) \<and> scan_ok v \<and> D' = dec_at (tokenValueEnd st) stk r)"
  proof (cases "skip_ws r")
    case Nil
    then show ?thesis
      using c by (simp add: scan scan_members.simps json_more_def json_token_next.simps json_value.simps [of d s])
  next
    case (Cons e t)
    consider "e = CHR ''}''" | "e = CHR '']''" | "e \<noteq> CHR ''}''" "e \<noteq> CHR '']''" by blast
    then show ?thesis
    proof cases
      case 1
      then show ?thesis
        using c d Cons
        by (auto simp: scan scan_members.simps json_more_def json_token_next.simps json_value.simps [of d s])
    next
      case 2
      then show ?thesis
        using c d Cons
        by (simp add: scan scan_members.simps json_more_def json_token_next.simps json_value.simps [of d s]
            json_members_at member_at_def)
    next
      case 3
      have val: "json_value d s = map_option (\<lambda>(ms, t). (JObj ms, t)) (json_members (d - 1) r)"
        using c d Cons 3 by (simp add: json_value.simps [of d s])
      have step: "scan_members [] (dec_at ObjectStart (st # stk) r) = Inr D' \<longleftrightarrow>
         (\<exists>k v u. member_at (d - 1) r = Some (k, v, u) \<and> k \<notin> set [] \<and> scan_ok v
            \<and> scan_members [k] (dec_at ObjectComma (st # stk) u) = Inr D')"
        using r Cons 3
        by (intro scan_member [OF A, where st = ObjectStart]) (auto simp: json_more_def)
      show ?thesis
      proof (cases "member_at (d - 1) r")
        case None
        then show ?thesis by (simp add: scan step val json_members_at)
      next
        case (Some p)
        then obtain k v u where m: "member_at (d - 1) r = Some (k, v, u)" by (cases p) auto
        have u: "length u < length s" using member_at_less [OF m] r by simp
        show ?thesis
          using scan_members_tail [where r = u and seen = "[k]" and st = st and stk = stk and D' = D', OF A] u m
          by (auto simp: scan step val json_members_at)
      qed
    qed
  qed
qed

lemma scans_all: "length s \<le> d \<Longrightarrow> scans d s"
proof (induction s arbitrary: d rule: length_induct)
  case (1 s)
  show ?case
  proof (cases "skip_ws s")
    case Nil
    then show ?thesis
      by (simp add: scans_def scanPrivateControlJSONValue.simps json_token_next.simps json_value.simps)
  next
    case (Cons c r)
    then have d: "d \<noteq> 0" using 1(2) skip_ws_Cons_less [OF Cons] by simp
    have A: "scans (d - 1) s'" if "length s' < length s" for s'
      using 1 that d by simp
    consider "c = CHR ''[''" | "c = CHR ''{''" | "c \<noteq> CHR ''[''" "c \<noteq> CHR ''{''" by blast
    then show ?thesis
      using scans_array [OF A d] scans_object [OF A d] scans_scalar [of s c r d] Cons by cases auto
  qed
qed

lemma validate_iff_grammar:
  "validatePrivateControlJSON raw \<longleftrightarrow>
     utf8_valid raw \<and>
     (\<exists>v r. json_value (length raw) raw = Some (v, r) \<and> skip_ws r = [] \<and> scan_ok v)"
proof -
  have eof: "requireJSONEOF (dec_at TopValue [] r) \<longleftrightarrow> skip_ws r = []" for r
    by (auto simp: requireJSONEOF_def json_token_next.simps [of "dec_at TopValue [] r"] tokenValueAllowed_def
        token_value_def split: list.split option.split json.split)
  have sc: "scanPrivateControlJSONValue (dec_at TopValue [] raw) = Inr D' \<longleftrightarrow>
      (\<exists>v r. json_value (length raw) raw = Some (v, r) \<and> scan_ok v \<and> D' = dec_at TopValue [] r)" for D'
    using scansD [OF scans_all [OF order_refl], of TopValue "[]" raw D']
    by (simp add: tokenValueAllowed_def tokenValueEnd_def)
  have "(case scanPrivateControlJSONValue (dec_at TopValue [] raw) of Inl _ \<Rightarrow> False | Inr dec \<Rightarrow> requireJSONEOF dec)
      \<longleftrightarrow> (\<exists>D'. scanPrivateControlJSONValue (dec_at TopValue [] raw) = Inr D' \<and> requireJSONEOF D')"
    by (auto split: sum.split)
  then show ?thesis
    unfolding validatePrivateControlJSON_def new_decoder_def sc using eof by auto
qed


end
