(* ===== verification/Pcl_Frames.thy ===== *)
theory Pcl_Frames
  imports Pcl_Scan
begin

text \<open>
  The frames of the Private Control Link (\<open>private_control.go\<close>, lines 835 to 882): a
  four-byte big-endian length and a JSON document.  The stream read from is the bytes the
  peer sends before it closes; the connection written to answers each \<open>Write\<close> with the
  number of bytes taken and whether it failed, and a list of such answers stands for it.
\<close>

section \<open>Operations\<close>

datatype frame_error = FrameEOF | FrameLength | FrameJSON | FrameShortWrite | FrameWriteFailed

definition put_be32 :: "nat \<Rightarrow> string" where
  "put_be32 n = map char_of [n div 16777216 mod 256, n div 65536 mod 256, n div 256 mod 256, n mod 256]"

definition get_be32 :: "string \<Rightarrow> nat" where
  "get_be32 s = foldl (\<lambda>n c. 256 * n + byte_of c) 0 s"

definition readPrivateControlFrame :: "string \<Rightarrow> frame_error + string \<times> string" where
  "readPrivateControlFrame s =
     (if length s < 4 then Inl FrameEOF
      else
        let len = get_be32 (take 4 s)
        in if len < 2 \<or> privateControlMaxFrameBytes < len then Inl FrameLength
           else if length (drop 4 s) < len then Inl FrameEOF
           else
             let payload = take len (drop 4 s)
             in if \<not> validatePrivateControlJSON payload then Inl FrameJSON
                else Inr (payload, drop len (drop 4 s)))"

text \<open>
  \<open>writePrivateControlBytes\<close>: what reached the connection, the error and the answers left.
  An answer above the length of the payload, which \<open>io.Writer\<close> forbids, is taken as the
  whole of it.
\<close>

fun writePrivateControlBytes ::
  "(int \<times> bool) list \<Rightarrow> string \<Rightarrow> string \<times> frame_error option \<times> (int \<times> bool) list" where
  "writePrivateControlBytes answers [] = ([], None, answers)"
| "writePrivateControlBytes [] (c # cs) = ([], Some FrameWriteFailed, [])"
| "writePrivateControlBytes ((written, failed) # answers) (c # cs) =
     (if failed then (take (nat written) (c # cs), Some FrameWriteFailed, answers)
      else if written \<le> 0 then ([], Some FrameShortWrite, answers)
      else (case writePrivateControlBytes answers (drop (nat written) (c # cs)) of
              (out, e, answers') \<Rightarrow> (take (nat written) (c # cs) @ out, e, answers')))"

definition writePrivateControlFrame ::
  "(int \<times> bool) list \<Rightarrow> json \<Rightarrow> string \<times> frame_error option \<times> (int \<times> bool) list" where
  "writePrivateControlFrame answers value =
     (let payload = json_print value
      in if length payload < 2 \<or> privateControlMaxFrameBytes < length payload
         then ([], Some FrameLength, answers)
         else (case writePrivateControlBytes answers (put_be32 (length payload)) of
                 (out, Some e, answers1) \<Rightarrow> (out, Some e, answers1)
               | (out, None, answers1) \<Rightarrow>
                   (case writePrivateControlBytes answers1 payload of
                      (out', e, answers2) \<Rightarrow> (out @ out', e, answers2))))"

section \<open>Lengths\<close>

lemma get_put_be32: "n < 2 ^ 32 \<Longrightarrow> get_be32 (put_be32 n) = n"
proof -
  assume n: "n < 2 ^ 32"
  have a: "n = 256 * (n div 256) + n mod 256" by simp
  have b: "n div 256 = 256 * (n div 65536) + n div 256 mod 256"
    using mult_div_mod_eq [of 256 "n div 256"] by (simp add: div_mult2_eq [symmetric])
  have c: "n div 65536 = 256 * (n div 16777216) + n div 65536 mod 256"
    using mult_div_mod_eq [of 256 "n div 65536"] by (simp add: div_mult2_eq [symmetric])
  have d: "n div 16777216 mod 256 = n div 16777216"
    using n by (simp add: less_mult_imp_div_less)
  show ?thesis
    using a b c d by (simp add: get_be32_def put_be32_def)
qed

lemma length_put_be32 [simp]: "length (put_be32 n) = 4"
  by (simp add: put_be32_def)

section \<open>Writing\<close>

lemma write_bytes_done:
  "writePrivateControlBytes answers p = (out, None, answers') \<Longrightarrow> out = p"
proof (induction answers p arbitrary: out rule: writePrivateControlBytes.induct)
  case (3 written failed answers c cs)
  then show ?case
    by (auto split: if_splits prod.splits)
qed auto

lemma write_bytes_prefix:
  "writePrivateControlBytes answers p = (out, e, answers') \<Longrightarrow> prefix out p"
proof (induction answers p arbitrary: out rule: writePrivateControlBytes.induct)
  case (3 written failed answers c cs)
  show ?case
  proof (cases "failed \<or> written \<le> 0")
    case True
    then show ?thesis using "3.prems" by (auto simp: take_is_prefix split: if_splits)
  next
    case False
    then obtain o' where o': "writePrivateControlBytes answers (drop (nat written) (c # cs)) = (o', e, answers')"
        "out = take (nat written) (c # cs) @ o'"
      using "3.prems" by (auto split: prod.splits)
    with "3.IH" False have "prefix o' (drop (nat written) (c # cs))" by simp
    then have "prefix (take (nat written) (c # cs) @ o') (take (nat written) (c # cs) @ drop (nat written) (c # cs))"
      by (simp only: same_prefix_prefix)
    then show ?thesis using o'(2) by simp
  qed
qed auto

section \<open>Valid UTF-8 and numbers in range\<close>

lemma utf8_valid_rune: "rune_head s = (n, True) \<Longrightarrow> s \<noteq> [] \<Longrightarrow> utf8_valid (take n s @ r) = utf8_valid r"
proof -
  assume h: "rune_head s = (n, True)" and s: "s \<noteq> []"
  have n: "1 \<le> n" "n \<le> length s" using rune_head_size [OF s] h by auto
  have "rune_head (take n s @ r) = (n, True)" by (rule rune_head_take [OF h])
  then show ?thesis
    using n s by (simp add: utf8_valid.simps [of "take n s @ r"])
qed

lemma utf8_valid_append: "utf8_valid a \<Longrightarrow> utf8_valid b \<Longrightarrow> utf8_valid (a @ b)"
proof (induction a rule: utf8_valid.induct)
  case (1 a)
  show ?case
  proof (cases "a = []")
    case False
    obtain n ok where h: "rune_head a = (n, ok)" by fastforce
    then have ok: ok "utf8_valid (drop n a)"
      using "1.prems"(1) False by (simp_all add: utf8_valid.simps [of a])
    have "utf8_valid (drop n a @ b)" using "1.IH" [OF False] h ok "1.prems"(2) by simp
    then have "utf8_valid (take n a @ (drop n a @ b))"
      using utf8_valid_rune [of a n "drop n a @ b"] h ok(1) False by simp
    then show ?thesis by (simp only: append_assoc [symmetric] append_take_drop_id)
  qed (use 1 in simp)
qed

lemma utf8_valid_ascii_Cons [simp]: "byte_of c < 128 \<Longrightarrow> utf8_valid (c # s) = utf8_valid s"
  by (simp add: utf8_valid.simps [of "c # s"] rune_head.simps(2))

lemma utf8_valid_Nil [simp]: "utf8_valid []"
  by (simp add: utf8_valid.simps)

lemma ascii_hex_digit: "n < 16 \<Longrightarrow> byte_of (hex_digit n) < 128"
  by (simp add: hex_digit_def)

lemma utf8_valid_escape: "utf8_valid s \<Longrightarrow> utf8_valid (escape s)"
proof (induction s rule: length_induct)
  case (1 s)
  show ?case
  proof (cases s)
    case (Cons c s')
    obtain n ok where h: "rune_head (c # s') = (n, ok)" by fastforce
    have valid: "ok" "utf8_valid (drop n (c # s'))"
      using 1(2) Cons h by (simp_all add: utf8_valid.simps [of "c # s'"])
    show ?thesis
    proof (cases "byte_of c < 128")
      case True
      with h have "n = 1" by (simp add: rune_head.simps(2))
      with valid Cons 1(1) have "utf8_valid (escape s')" by simp
      moreover have "byte_of c div 16 < 16" "byte_of c mod 16 < 16" using True by simp_all
      then have "list_all (\<lambda>d. byte_of d < 128) (escape_ascii c)"
        using True by (simp add: escape_ascii_def ascii_hex_digit)
      ultimately show ?thesis
        using True Cons by (simp add: escape.simps(2) utf8_valid_append ascii_utf8_valid)
    next
      case False
      have n: "2 \<le> n" "n \<le> length (c # s')" using rune_head_multi [of c s' n] h valid(1) False by simp_all
      have rest: "utf8_valid (escape (drop n (c # s')))" using 1(1) Cons n valid(2) by simp
      have tl: "drop (n - Suc 0) s' = drop n (c # s')" using n by (cases n) auto
      obtain p where p: "take n (c # s') = p" by blast
      then have "utf8_valid (p @ escape (drop n (c # s')))"
        using utf8_valid_rune [of "c # s'" n] h valid(1) rest by simp
      then show ?thesis
        using False h valid(1) rest p unfolding Cons by (simp add: escape.simps(2) tl)
    qed
  qed simp
qed

lemma float_ok_int: "\<bar>i\<bar> < 2 ^ 64 \<Longrightarrow> float_ok (int_to_dec i)"
proof -
  assume i: "\<bar>i\<bar> < 2 ^ 64"
  let ?ds = "nat_to_dec (nat \<bar>i\<bar>)"
  have d: "list_all is_digit ?ds" by (rule nat_to_dec_digits)
  obtain c cs where c: "nat_to_dec (nat i) = c # cs" by (cases "nat_to_dec (nat i)") auto
  have "is_digit c" using nat_to_dec_digits [of "nat i"] c by simp
  then have "c \<noteq> CHR ''-''" by (auto simp: is_digit_def)
  then have s: "(if int_to_dec i \<noteq> [] \<and> hd (int_to_dec i) = CHR ''-'' then tl (int_to_dec i) else int_to_dec i) = ?ds"
    using c by (simp add: int_to_dec_def)
  have w: "takeWhile is_digit ?ds = ?ds" "dropWhile is_digit ?ds = []"
    using d by (auto simp: list_all_iff takeWhile_eq_all_conv)
  have "nat \<bar>i\<bar> < 2 ^ 64" using i by (simp add: nat_less_iff)
  also have "2 ^ 64 < float_limit" unfolding float_limit_def by simp
  finally have "nat \<bar>i\<bar> < float_limit" .
  then show ?thesis
    unfolding float_ok_def s Let_def w by (simp add: exp_val_def)
qed

lemma utf8_valid_int: "utf8_valid (int_to_dec i)"
proof -
  have "list_all (\<lambda>c. byte_of c < 128) (nat_to_dec n)" for n
    using nat_to_dec_digits [of n] by (auto simp: list_all_iff is_digit_def)
  then show ?thesis by (simp add: int_to_dec_def ascii_utf8_valid)
qed

lemma utf8_valid_quote: "utf8_valid s \<Longrightarrow> utf8_valid (quote_string s)"
  by (simp add: quote_string_def utf8_valid_escape utf8_valid_append)

lemma utf8_valid_commas: "(\<And>x. x \<in> set xs \<Longrightarrow> utf8_valid x) \<Longrightarrow> utf8_valid (commas xs)"
  by (induction xs rule: commas.induct) (simp_all add: utf8_valid_append)

lemma utf8_valid_print: "json_ok d v \<Longrightarrow> utf8_valid (json_print v)"
proof (induction v arbitrary: d)
  case (JNum n)
  then show ?case using utf8_valid_int by auto
next
  case (JArr vs)
  then have "utf8_valid (commas (map json_print vs))"
    by (intro utf8_valid_commas) (auto simp: list_all_iff)
  then show ?case by (simp add: utf8_valid_append)
next
  case (JObj ms)
  have "utf8_valid (json_member m)" if "m \<in> set ms" for m
    using JObj that
    by (cases m) (fastforce simp: json_member_def list_all_iff utf8_valid_quote utf8_valid_append)
  then have "utf8_valid (commas (map json_member ms))"
    by (intro utf8_valid_commas) auto
  then show ?case unfolding json_print_obj by (simp add: utf8_valid_append)
qed (auto simp: utf8_valid_quote)

section \<open>Round trip\<close>

lemma json_ok_mono: "json_ok d v \<Longrightarrow> d \<le> d' \<Longrightarrow> json_ok d' v"
proof (induction v arbitrary: d d')
  case (JArr vs)
  then show ?case by (fastforce simp: list_all_iff)
next
  case (JObj ms)
  then show ?case by (fastforce simp: list_all_iff)
qed auto

lemma validate_print:
  assumes "json_ok d v" and "d \<le> length (json_print v)" and "scan_ok v"
  shows "validatePrivateControlJSON (json_print v)"
proof -
  have "json_ok (length (json_print v)) v" using assms(1,2) by (rule json_ok_mono)
  then have "json_value (length (json_print v)) (json_print v) = Some (v, [])"
    using json_value_print [of _ v "[]"] by simp
  then show ?thesis
    using assms(3) utf8_valid_print [OF assms(1)] by (auto simp: validate_iff_grammar skip_ws_def)
qed

text \<open>A whole frame at the head of a stream is read back.\<close>

lemma read_frame_print:
  assumes "json_ok 2 v" and "scan_ok v"
    and "2 \<le> length (json_print v)" and "length (json_print v) \<le> privateControlMaxFrameBytes"
  shows "readPrivateControlFrame (put_be32 (length (json_print v)) @ json_print v @ rest) = Inr (json_print v, rest)"
proof -
  let ?p = "json_print v"
  have "length ?p < 2 ^ 32" using assms(4) by (simp add: privateControlMaxFrameBytes_def)
  then have "get_be32 (put_be32 (length ?p)) = length ?p" by (rule get_put_be32)
  moreover have "validatePrivateControlJSON ?p"
    using assms(1,3,2) by (rule validate_print)
  ultimately show ?thesis
    using assms(3,4) by (simp add: readPrivateControlFrame_def)
qed

text \<open>What a message that was printed decodes to.\<close>

lemma decode_print:
  assumes "json_ok d v" and "d \<le> length (json_print v)" and "d \<le> json_depth" and "scan_ok v"
  shows "decodePrivateControlJSON fs zero (json_print v) = dec_struct fs True v zero"
proof -
  have "json_ok json_depth v" using assms(1,3) by (rule json_ok_mono)
  then have "json_value json_depth (json_print v) = Some (v, [])"
    using json_value_print [of _ v "[]"] by simp
  moreover have "requireJSONEOF (new_decoder [])"
    by (simp add: requireJSONEOF_def new_decoder_def json_token_next.simps skip_ws_def)
  ultimately show ?thesis
    using validate_print [OF assms(1,2,4)] by (simp add: decodePrivateControlJSON_def split: option.split)
qed

text \<open>
  C24. What one side writes as a frame, in however many partial writes, the other reads
  back as one frame, and the rest of the stream is left for the next.
\<close>

theorem frame_roundtrip:
  assumes "writePrivateControlFrame answers v = (out, None, answers')"
    and "json_ok 2 v" and "scan_ok v"
  shows "readPrivateControlFrame (out @ rest) = Inr (json_print v, rest)"
proof -
  let ?p = "json_print v"
  have len: "2 \<le> length ?p" "length ?p \<le> privateControlMaxFrameBytes"
    using assms(1) by (auto simp: writePrivateControlFrame_def Let_def split: if_splits)
  from assms(1) len obtain o1 o2 answers1 where
    "writePrivateControlBytes answers (put_be32 (length ?p)) = (o1, None, answers1)"
    "writePrivateControlBytes answers1 ?p = (o2, None, answers')" "out = o1 @ o2"
    by (auto simp: writePrivateControlFrame_def Let_def split: if_splits prod.splits option.splits)
  then have out: "out = put_be32 (length ?p) @ ?p"
    by (metis write_bytes_done)
  show ?thesis
    using read_frame_print [OF assms(2,3) len] by (simp add: out)
qed

lemma frame_roundtrip_witness:
  "readPrivateControlFrame (put_be32 12 @ ''{'' @ quote_string ''a'' @ '':[null]}'' @ ''rest'')
     = Inr (''{'' @ quote_string ''a'' @ '':[null]}'', ''rest'')"
proof -
  let ?v = "JObj [(''a'', JArr [JNull])]"
  let ?p = "''{'' @ quote_string ''a'' @ '':[null]}''"
  have q: "quote_string ''a'' = [dquote, CHR ''a'', dquote]"
    by (simp add: quote_string_def escape.simps(2) escape_ascii_def)
  have p: "json_print ?v = ?p" by simp
  have "writePrivateControlFrame [(3, False), (1, False), (7, False), (9, False)] ?v
      = (put_be32 12 @ ?p, None, [])"
    unfolding writePrivateControlFrame_def p
    by (simp add: q privateControlMaxFrameBytes_def put_be32_def)
  moreover have "json_ok 2 ?v" "scan_ok ?v" by simp_all
  ultimately have "readPrivateControlFrame ((put_be32 12 @ ?p) @ ''rest'') = Inr (json_print ?v, ''rest'')"
    by (rule frame_roundtrip)
  then show ?thesis unfolding p by simp
qed

end
