(* ===== verification/Command_Store.thy ===== *)
theory Command_Store
  imports Pcl_Frames
begin

text \<open>
  The durable store of the pending revocation commands (\<open>private_control_outbox.go\<close>).
  The operating system is a disk and an answer to each call: \<open>fails call\<close> says whether the
  call returns an error.  A Go pointer to a pending command's result channel is the index
  of the channel in the client's list of channels.
\<close>

section \<open>The disk\<close>

datatype os_call =
    StatStore | ReadStore | MkdirAll | CreateTemp | ChmodTemp | WriteTemp | SyncTemp | CloseTemp
  | RemoveStore | RenameTemp | OpenDir | SyncDir | CloseDir | RemoveTemp

record disk =
  dkStore :: "string option"
  dkTemp :: "string option"

text \<open>What a call does where it succeeds, \<open>data\<close> being what is written.\<close>

definition do_call :: "string \<Rightarrow> os_call \<Rightarrow> disk \<Rightarrow> disk" where
  "do_call data c dk =
     (case c of
        CreateTemp \<Rightarrow> dk\<lparr>dkTemp := Some []\<rparr>
      | WriteTemp \<Rightarrow> dk\<lparr>dkTemp := Some data\<rparr>
      | RemoveStore \<Rightarrow> dk\<lparr>dkStore := None\<rparr>
      | RenameTemp \<Rightarrow> dk\<lparr>dkStore := dkTemp dk, dkTemp := None\<rparr>
      | RemoveTemp \<Rightarrow> dk\<lparr>dkTemp := None\<rparr>
      | _ \<Rightarrow> dk)"

text \<open>A failed write may have written a part.\<close>

definition failed_call :: "string \<Rightarrow> os_call \<Rightarrow> disk \<Rightarrow> disk" where
  "failed_call part c dk = (if c = WriteTemp then dk\<lparr>dkTemp := Some part\<rparr> else dk)"

datatype store_error =
    StoreCall os_call
  | StoreTooLarge | StoreBadJSON | StoreTrailing | StoreFormat
  | StoreNoFile | StoreInvalidCommand | StoreDuplicate | StoreLimit

record environment =
  envFails :: "os_call \<Rightarrow> bool"
  envWindows :: bool
  envPart :: string

text \<open>The calls in order up to the first one that fails.\<close>

fun run_calls :: "environment \<Rightarrow> string \<Rightarrow> os_call list \<Rightarrow> disk \<Rightarrow> os_call option \<times> disk" where
  "run_calls env data [] dk = (None, dk)"
| "run_calls env data (c # cs) dk =
     (if envFails env c then (Some c, failed_call (envPart env) c dk)
      else run_calls env data cs (do_call data c dk))"

text \<open>
  The calls of \<open>persist\<close>; on Windows the store is removed before the rename and the
  directory is not synced.  Removing a store that is not there is no error.
\<close>

definition persist_calls :: "bool \<Rightarrow> os_call list" where
  "persist_calls windows =
     [MkdirAll, CreateTemp, ChmodTemp, WriteTemp, SyncTemp, CloseTemp]
     @ (if windows then [RemoveStore] else []) @ [RenameTemp]
     @ (if windows then [] else [OpenDir, SyncDir, CloseDir])"

section \<open>Commands\<close>

record privateControlPendingCommand =
  pcMessage :: privateControlRevokeServiceAdmission
  pcResult :: nat

record privateControlPersistedCommands =
  psVersion :: int
  psCommands :: "privateControlRevokeServiceAdmission list option"

definition privateControlCommandStoreVersion :: int where
  "privateControlCommandStoreVersion = 1"

definition enc_persisted :: "privateControlPersistedCommands \<Rightarrow> json" where
  "enc_persisted p = JObj
     [(''version'', enc_int (psVersion p)),
      (''commands'', enc_ptr (JArr \<circ> map enc_revocation) (psCommands p))]"

definition zero_persisted :: privateControlPersistedCommands where
  "zero_persisted = \<lparr>psVersion = 0, psCommands = None\<rparr>"

definition fields_persisted :: "privateControlPersistedCommands fields" where
  "fields_persisted =
     [(''version'', field psVersion (\<lambda>x s. s\<lparr>psVersion := x\<rparr>) dec_int64),
      (''commands'', field psCommands (\<lambda>x s. s\<lparr>psCommands := x\<rparr>)
         (dec_slice zero_revocation (dec_struct fields_revocation True)))]"

section \<open>Operations\<close>

type_synonym pending = "(string, privateControlPendingCommand) gomap"

text \<open>The bytes \<open>persist\<close> writes: the messages sorted by identifier, and a newline.\<close>

definition store_data :: "pending \<Rightarrow> string" where
  "store_data pend =
     json_print (enc_persisted
       \<lparr>psVersion = privateControlCommandStoreVersion,
        psCommands = Some (sort_key rvMessageID (map (\<lambda>(_, c). pcMessage c) pend))\<rparr>) @ [CHR 0x0A]"

definition persist :: "environment \<Rightarrow> pending \<Rightarrow> disk \<Rightarrow> store_error option \<times> disk" where
  "persist env pend dk =
     (case run_calls env (store_data pend) (persist_calls (envWindows env)) dk of
        (e, dk') \<Rightarrow>
          (map_option StoreCall e,
           if e = Some MkdirAll \<or> e = Some CreateTemp \<or> envFails env RemoveTemp then dk'
           else do_call [] RemoveTemp dk'))"

definition load_store :: "environment \<Rightarrow> disk \<Rightarrow> store_error + privateControlRevokeServiceAdmission list" where
  "load_store env dk =
     (if envFails env StatStore then Inl (StoreCall StatStore)
      else case dkStore dk of
        None \<Rightarrow> Inr []
      | Some data \<Rightarrow>
          if privateControlMaxPendingCommands * 1024 < length data then Inl StoreTooLarge
          else if envFails env ReadStore then Inl (StoreCall ReadStore)
          else (case json_value json_depth data of
                  None \<Rightarrow> Inl StoreBadJSON
                | Some (v, r) \<Rightarrow>
                    (case dec_struct fields_persisted True v zero_persisted of
                       None \<Rightarrow> Inl StoreBadJSON
                     | Some stored \<Rightarrow>
                         if skip_ws r \<noteq> [] then Inl StoreTrailing
                         else if psVersion stored \<noteq> privateControlCommandStoreVersion then Inl StoreFormat
                         else (case psCommands stored of
                                 None \<Rightarrow> Inl StoreFormat
                               | Some cs \<Rightarrow> Inr cs))))"

text \<open>
  The loop over the stored commands: the commands kept, each with a new result channel, and
  whether one had expired.
\<close>

fun load_pending ::
  "int \<Rightarrow> privateControlRevokeServiceAdmission list \<Rightarrow> pending \<Rightarrow> bool \<Rightarrow> nat
   \<Rightarrow> store_error + pending \<times> bool \<times> nat" where
  "load_pending now [] pend expired n = Inr (pend, expired, n)"
| "load_pending now (c # cs) pend expired n =
     (if \<not> validPrivateControlRevocation c then Inl StoreInvalidCommand
      else if mhas pend (rvMessageID c) then Inl StoreDuplicate
      else if rvDenyUntil c \<le> now then load_pending now cs pend True n
      else load_pending now cs (mput (rvMessageID c) \<lparr>pcMessage = c, pcResult = n\<rparr> pend) expired (Suc n))"

text \<open>
  The result is the file name, the pending commands and how many channels were made; the
  channels are numbered from 0.
\<close>

definition openPrivateControlCommandStore ::
  "environment \<Rightarrow> string \<Rightarrow> int \<Rightarrow> disk \<Rightarrow> (store_error + string \<times> pending \<times> nat) \<times> disk" where
  "openPrivateControlCommandStore env filename now dk =
     (let filename = trim_space filename
      in if filename = [] then (Inl StoreNoFile, dk)
         else case load_store env dk of
           Inl e \<Rightarrow> (Inl e, dk)
         | Inr commands \<Rightarrow>
             (case load_pending now commands [] False 0 of
                Inl e \<Rightarrow> (Inl e, dk)
              | Inr (pend, expired, n) \<Rightarrow>
                  if privateControlMaxPendingCommands < mlen pend then (Inl StoreLimit, dk)
                  else if expired then
                    (case persist env pend dk of
                       (Some e, dk') \<Rightarrow> (Inl e, dk')
                     | (None, dk') \<Rightarrow> (Inr (filename, pend, n), dk'))
                  else (Inr (filename, pend, n), dk)))"

section \<open>What a valid command looks like in the store\<close>

text \<open>A valid command whose deadline is an int64.\<close>

definition command_ok :: "privateControlRevokeServiceAdmission \<Rightarrow> bool" where
  "command_ok c \<longleftrightarrow> validPrivateControlRevocation c \<and> rvDenyUntil c < 2 ^ 63"

definition plain_text :: "string \<Rightarrow> bool" where
  "plain_text s \<longleftrightarrow> list_all service_id_char s"

lemma not_service_id_char:
  "\<not> service_id_char bslash" "\<not> service_id_char dquote" "\<not> service_id_char CHR 0x08"
  "\<not> service_id_char CHR 0x0C" "\<not> service_id_char CHR 0x0A" "\<not> service_id_char CHR 0x0D"
  "\<not> service_id_char CHR 0x09" "\<not> service_id_char CHR ''<''" "\<not> service_id_char CHR ''>''"
  "\<not> service_id_char CHR ''&''"
  by (simp_all add: service_id_char_def is_alnum_def is_digit_def is_lower_def is_upper_def)

lemma service_id_char_byte: "service_id_char c \<Longrightarrow> 32 \<le> byte_of c \<and> byte_of c < 128"
  unfolding service_id_char_def is_alnum_def is_digit_def is_lower_def is_upper_def
  by (elim disjE) simp_all

lemma service_id_char_escape: "service_id_char c \<Longrightarrow> byte_of c < 128 \<and> escape_ascii c = [c]"
proof -
  assume c: "service_id_char c"
  then have "c \<noteq> bslash" "c \<noteq> dquote" "c \<noteq> CHR 0x08" "c \<noteq> CHR 0x0C" "c \<noteq> CHR 0x0A" "c \<noteq> CHR 0x0D"
      "c \<noteq> CHR 0x09" "c \<noteq> CHR ''<''" "c \<noteq> CHR ''>''" "c \<noteq> CHR ''&''"
    using not_service_id_char by metis+
  then show ?thesis
    using service_id_char_byte [OF c] by (simp add: escape_ascii_def)
qed

lemma plain_escape: "plain_text s \<Longrightarrow> escape s = s"
  by (induction s) (auto simp: plain_text_def escape.simps(2) dest!: service_id_char_escape)

lemma plain_utf8: "plain_text s \<Longrightarrow> utf8_valid s"
  by (intro ascii_utf8_valid) (auto simp: plain_text_def list_all_iff dest!: service_id_char_escape)

lemma plain_quote: "plain_text s \<Longrightarrow> length (quote_string s) = length s + 2"
  by (simp add: quote_string_def plain_escape)

lemma b64_char_plain: "n < 64 \<Longrightarrow> service_id_char (b64_char n)"
proof -
  have "service_id_char c" if "b64_val c = Some m" for c m
    using that by (simp add: b64_val_def service_id_char_def is_alnum_def split: if_splits)
  then show "n < 64 \<Longrightarrow> service_id_char (b64_char n)" using b64_char_val by blast
qed

lemma plain_b64: "plain_text (b64_encode bs)"
  using b64_groups_bound b64_char_plain by (auto simp: plain_text_def list_all_iff b64_encode_groups)

lemma plain_Nil [simp]: "plain_text []"
  by (simp add: plain_text_def)

lemma plain_consts [simp]:
  "plain_text privateControlSchemaVersion" "plain_text ''revoke_service_admission''"
  "plain_text ''acl_removed''" "plain_text ''service_disabled''" "plain_text ''grant_revoked''"
  by (simp_all add: plain_text_def privateControlSchemaVersion_def service_id_char_def is_alnum_def
      is_digit_def is_lower_def)

lemma command_fields:
  assumes "command_ok c"
  shows "rvSchemaVersion c = privateControlSchemaVersion" "rvType c = ''revoke_service_admission''"
    "plain_text (rvMessageID c)" "length (rvMessageID c) = 22"
    "plain_text (rvServiceID c)" "length (rvServiceID c) \<le> 128"
    "plain_text (rvGrantIDHash c)" "length (rvGrantIDHash c) \<le> 43"
    "plain_text (rvReason c)" "length (rvReason c) \<le> 16"
    "1 \<le> rvDenyUntil c" "rvDenyUntil c < 2 ^ 63"
proof -
  have v: "validPrivateControlRevocation c" using assms by (simp add: command_ok_def)
  show "rvSchemaVersion c = privateControlSchemaVersion" "rvType c = ''revoke_service_admission''"
    "1 \<le> rvDenyUntil c" "rvDenyUntil c < 2 ^ 63"
    using assms v by (simp_all add: command_ok_def validPrivateControlRevocation_def)
  obtain bs where "length bs = 16" "rvMessageID c = b64_encode bs"
    using v by (auto simp: validPrivateControlRevocation_def validPrivateControlID_iff)
  then show "plain_text (rvMessageID c)" "length (rvMessageID c) = 22"
    by (simp_all add: plain_b64 length_b64_encode)
  show "plain_text (rvServiceID c)" "length (rvServiceID c) \<le> 128"
    using v validManagementServiceID_chars [of "rvServiceID c"]
    by (auto simp: validPrivateControlRevocation_def plain_text_def)
  have "rvGrantIDHash c = [] \<or> (\<exists>bs. length bs = 32 \<and> rvGrantIDHash c = b64_encode bs)"
    using v by (auto simp: validPrivateControlRevocation_def validPrivateControlGrantIDHash_iff)
  then show "plain_text (rvGrantIDHash c)" "length (rvGrantIDHash c) \<le> 43"
    by (auto simp: plain_b64 length_b64_encode)
  have "rvReason c \<in> {''acl_removed'', ''service_disabled'', ''grant_revoked''}"
    using v by (auto simp: validPrivateControlRevocation_def validServiceAdmissionRevocationReason_def)
  then show "plain_text (rvReason c)" "length (rvReason c) \<le> 16" by auto
qed

lemma word32_dec_length: "length (word_to_dec (w :: u32)) \<le> 10"
proof -
  have "unat w < 10 ^ 10" using unsigned_less [of w, where 'a = nat] by simp
  then show ?thesis by (simp add: word_to_dec_def nat_to_dec_length)
qed

lemma int63_dec_length: "1 \<le> i \<Longrightarrow> i < 2 ^ 63 \<Longrightarrow> length (int_to_dec i) \<le> 19"
proof -
  assume i: "1 \<le> i" "i < 2 ^ 63"
  then have "nat i < 10 ^ 19" by (simp add: nat_less_iff)
  then show ?thesis using i nat_to_dec_length [of 19 "nat i"] by (simp add: int_to_dec_def)
qed

lemma plain_key: "list_all service_id_char s \<Longrightarrow> length (json_member (s, v)) = length s + 3 + length (json_print v)"
  using plain_quote [of s] by (simp add: json_member_def plain_text_def)

lemma plain_keys [simp]:
  "list_all service_id_char ''schema_version''" "list_all service_id_char ''type''"
  "list_all service_id_char ''message_id''" "list_all service_id_char ''channel_id''"
  "list_all service_id_char ''service_id''" "list_all service_id_char ''grant_id_hash''"
  "list_all service_id_char ''reason''" "list_all service_id_char ''deny_until''"
  "list_all service_id_char ''version''" "list_all service_id_char ''commands''"
  by (simp_all add: service_id_char_def is_alnum_def is_digit_def is_lower_def)

lemmas key_lengths = plain_keys [THEN plain_key]

lemma length_commas: "length (commas xs) \<le> sum_list (map (Suc \<circ> length) xs)"
  by (induction xs rule: commas.induct) simp_all

lemma length_json_obj: "length (json_print (JObj ms)) \<le> 2 + sum_list (map (Suc \<circ> length \<circ> json_member) ms)"
  using length_commas [of "map json_member ms"] unfolding json_print_obj by (simp add: comp_assoc)

lemma length_print_revocation:
  assumes "command_ok c"
  shows "length (json_print (enc_revocation c)) \<le> 600"
proof -
  note f = command_fields [OF assms]
  have "length (word_to_dec (rvChannelID c)) \<le> 10" by (rule word32_dec_length)
  moreover have "length (int_to_dec (rvDenyUntil c)) \<le> 19" using f(11,12) by (rule int63_dec_length)
  moreover have "length privateControlSchemaVersion = 23" by (simp add: privateControlSchemaVersion_def)
  ultimately have "sum_list (map (Suc \<circ> length \<circ> json_member)
      ([(''schema_version'', JStr (rvSchemaVersion c)), (''type'', JStr (rvType c)),
       (''message_id'', JStr (rvMessageID c)), (''channel_id'', enc_word (rvChannelID c))]
      @ omit_empty ''service_id'' (rvServiceID c) @ omit_empty ''grant_id_hash'' (rvGrantIDHash c)
      @ [(''reason'', JStr (rvReason c)), (''deny_until'', enc_int (rvDenyUntil c))])) \<le> 598"
    using f by (auto simp: key_lengths omit_empty_def enc_word_def enc_int_def plain_quote)
  then show ?thesis
    unfolding enc_revocation_def
    by (intro order_trans [OF length_json_obj]) linarith
qed

section \<open>Reading back what was written\<close>

definition pending_ok :: "pending \<Rightarrow> bool" where
  "pending_ok pend \<longleftrightarrow> gomap_ok pend \<and> mlen pend \<le> privateControlMaxPendingCommands
     \<and> (\<forall>k c. (k, c) \<in> set pend \<longrightarrow> k = rvMessageID (pcMessage c) \<and> command_ok (pcMessage c))"

definition messages_of :: "pending \<Rightarrow> privateControlRevokeServiceAdmission list" where
  "messages_of pend = sort_key rvMessageID (map (\<lambda>(_, c). pcMessage c) pend)"

definition persisted_of :: "pending \<Rightarrow> privateControlPersistedCommands" where
  "persisted_of pend = \<lparr>psVersion = privateControlCommandStoreVersion, psCommands = Some (messages_of pend)\<rparr>"

lemma store_data_eq: "store_data pend = json_print (enc_persisted (persisted_of pend)) @ [CHR 0x0A]"
  by (simp add: store_data_def persisted_of_def messages_of_def)

lemma messages_ok: "pending_ok pend \<Longrightarrow> c \<in> set (messages_of pend) \<Longrightarrow> command_ok c"
  by (auto simp: pending_ok_def messages_of_def)

lemma length_messages: "length (messages_of pend) = mlen pend"
  by (simp add: messages_of_def)

text \<open>The size limit of \<open>load\<close> is never in the way: 64 commands take at most 38,600 bytes.\<close>

lemma store_data_length:
  assumes "pending_ok pend"
  shows "length (store_data pend) \<le> privateControlMaxPendingCommands * 1024"
proof -
  let ?cs = "map (json_print \<circ> enc_revocation) (messages_of pend)"
  have "sum_list (map (Suc \<circ> length) ?cs) \<le> sum_list (map (\<lambda>_. 601) (messages_of pend))"
    using messages_ok [OF assms] length_print_revocation by (auto intro!: sum_list_mono simp: comp_def)
  also have "\<dots> \<le> 64 * 601"
    using assms by (simp add: sum_list_triv length_messages pending_ok_def privateControlMaxPendingCommands_def)
  finally have "length (commas ?cs) \<le> 64 * 601"
    using length_commas [of ?cs] by linarith
  moreover have "int_to_dec 1 = nat_to_dec 1" by (simp add: int_to_dec_def)
  moreover have "length (nat_to_dec 1) = 1" by (simp add: nat_to_dec.simps)
  ultimately have "sum_list (map (Suc \<circ> length \<circ> json_member)
      [(''version'', enc_int (psVersion (persisted_of pend))),
       (''commands'', enc_ptr (JArr \<circ> map enc_revocation) (psCommands (persisted_of pend)))]) \<le> 64 * 601 + 30"
    by (simp add: key_lengths enc_int_def enc_ptr_def persisted_of_def privateControlCommandStoreVersion_def)
  then have "length (json_print (enc_persisted (persisted_of pend))) \<le> 64 * 601 + 32"
    unfolding enc_persisted_def by (intro order_trans [OF length_json_obj]) linarith
  then show ?thesis by (simp add: store_data_eq privateControlMaxPendingCommands_def)
qed

lemma json_ok_revocation:
  assumes "command_ok c"
  shows "json_ok 1 (enc_revocation c)"
  using command_fields [OF assms]
  by (auto simp: enc_revocation_def omit_empty_def plain_utf8 ascii_utf8_valid)

lemma json_ok_persisted:
  assumes "pending_ok pend"
  shows "json_ok json_depth (enc_persisted (persisted_of pend))"
proof -
  have "json_ok 3 (enc_persisted (persisted_of pend))"
    using json_ok_revocation messages_ok [OF assms]
    by (auto simp: enc_persisted_def enc_ptr_def persisted_of_def list_all_iff ascii_utf8_valid)
  then show ?thesis by (rule json_ok_mono) (simp add: json_depth_def)
qed

lemma dec_elems_map:
  "(\<And>x. x \<in> set xs \<Longrightarrow> f (enc x) zero = Some x) \<Longrightarrow> dec_elems zero f (map enc xs) [] = Some xs"
  by (induction xs) simp_all

lemma dec_persisted:
  assumes "pending_ok pend"
  shows "dec_struct fields_persisted True (enc_persisted (persisted_of pend)) zero_persisted = Some (persisted_of pend)"
proof -
  have "dec_struct fields_revocation True (enc_revocation c) zero_revocation = Some c"
    if "c \<in> set (messages_of pend)" for c
    using command_fields(11,12) [OF messages_ok [OF assms that]] by (intro dec_revocation_enc) simp_all
  then have "dec_elems zero_revocation (dec_struct fields_revocation True) (map enc_revocation (messages_of pend)) []
      = Some (messages_of pend)"
    by (rule dec_elems_map)
  then show ?thesis
    by (simp add: dec_struct_def fields_persisted_def enc_persisted_def find_field_def field_def
        persisted_of_def zero_persisted_def privateControlCommandStoreVersion_def dec_int64_enc
        enc_ptr_def dec_slice_def)
qed

lemma load_store_data:
  assumes "pending_ok pend" and "dkStore dk = Some (store_data pend)"
    and "\<not> envFails env StatStore" and "\<not> envFails env ReadStore"
  shows "load_store env dk = Inr (messages_of pend)"
proof -
  have "json_value json_depth (store_data pend) = Some (enc_persisted (persisted_of pend), [CHR 0x0A])"
    unfolding store_data_eq by (intro json_value_print json_ok_persisted assms(1)) simp
  then show ?thesis
    using assms store_data_length [OF assms(1)] dec_persisted [OF assms(1)]
    by (simp add: load_store_def skip_ws_def is_ws_def persisted_of_def)
qed

text \<open>The entries \<open>load_pending\<close> makes of the commands not expired.\<close>

definition entries :: "nat \<Rightarrow> privateControlRevokeServiceAdmission list \<Rightarrow> pending" where
  "entries n cs = map (\<lambda>(i, c). (rvMessageID c, \<lparr>pcMessage = c, pcResult = i\<rparr>)) (enumerate n cs)"

lemma entries_simps [simp]:
  "entries n [] = []"
  "entries n (c # cs) = (rvMessageID c, \<lparr>pcMessage = c, pcResult = n\<rparr>) # entries (Suc n) cs"
  by (simp_all add: entries_def)

lemma load_pending_ok:
  assumes "\<forall>c \<in> set cs. validPrivateControlRevocation c" and "distinct (map rvMessageID cs)"
    and "\<forall>c \<in> set cs. \<not> mhas pend (rvMessageID c)"
  shows "load_pending now cs pend expired n =
     (let ks = filter (\<lambda>c. now < rvDenyUntil c) cs
      in Inr (pend @ entries n ks, expired \<or> ks \<noteq> cs, n + length ks))"
  using assms
proof (induction cs arbitrary: pend expired n)
  case (Cons c cs)
  have filt: "filter P cs \<noteq> c # cs" for P
    using length_filter_le [of P cs] by (metis Suc_n_not_le_n length_Cons)
  show ?case
  proof (cases "rvDenyUntil c \<le> now")
    case True
    then show ?thesis using Cons filt by (auto simp: Let_def)
  next
    case False
    let ?p = "mput (rvMessageID c) \<lparr>pcMessage = c, pcResult = n\<rparr> pend"
    have "\<forall>d \<in> set cs. \<not> mhas ?p (rvMessageID d)" using Cons.prems by (simp add: image_iff) metis
    then show ?thesis
      using Cons False by (simp add: Let_def mput_new)
  qed
qed simp

text \<open>The disk after \<open>persist\<close>.\<close>

lemma run_calls_append:
  "run_calls env data (xs @ ys) dk =
     (case run_calls env data xs dk of
        (None, dk') \<Rightarrow> run_calls env data ys dk' | (Some e, dk') \<Rightarrow> (Some e, dk'))"
  by (induction xs arbitrary: dk) auto

lemma persist_success:
  assumes "persist env pend dk = (None, dk')"
  shows "dkStore dk' = Some (store_data pend)"
  using assms
  by (auto simp: persist_def persist_calls_def do_call_def split: prod.splits if_splits)

text \<open>Whether or not it fails, outside Windows the store holds the old data or the new.\<close>

lemma persist_either:
  assumes "persist env pend dk = (e, dk')" and "\<not> envWindows env"
  shows "dkStore dk' = dkStore dk \<or> dkStore dk' = Some (store_data pend)"
  using assms
  by (auto simp: persist_def persist_calls_def do_call_def failed_call_def split: prod.splits if_splits)

text \<open>The calls of a write cut off anywhere.\<close>

lemma cut_off_either:
  "dkStore (snd (run_calls env (store_data pend) (take k (persist_calls False)) dk))
     \<in> {dkStore dk, Some (store_data pend)}"
proof -
  have "take k (persist_calls False) \<in> set (prefixes (persist_calls False))"
    by (simp add: in_set_prefixes take_is_prefix)
  then show ?thesis
    by (auto simp: persist_calls_def do_call_def failed_call_def split: if_splits)
qed

text \<open>A write that fails before the directory is opened leaves the store as it was.\<close>

definition sound_disk :: "environment \<Rightarrow> bool" where
  "sound_disk env \<longleftrightarrow> \<not> envWindows env \<and> \<not> envFails env OpenDir \<and> \<not> envFails env SyncDir \<and> \<not> envFails env CloseDir"

lemma persist_failed:
  assumes "persist env pend dk = (Some e, dk')" and "sound_disk env"
  shows "dkStore dk' = dkStore dk"
  using assms
  by (auto simp: persist_def persist_calls_def do_call_def failed_call_def sound_disk_def split: prod.splits if_splits)

section \<open>Properties\<close>


lemma entries_fst: "map fst (entries n cs) = map rvMessageID cs"
  by (induction cs arbitrary: n) simp_all

lemma entries_set: "(k, c) \<in> set (entries n cs) \<Longrightarrow> pcMessage c \<in> set cs \<and> k = rvMessageID (pcMessage c)"
  by (induction cs arbitrary: n) auto

lemma entries_results: "map (pcResult \<circ> snd) (entries n cs) = [n..<n + length cs]"
  by (induction cs arbitrary: n) (simp_all add: upt_conv_Cons del: upt_Suc)

lemma entries_get:
  "distinct (map rvMessageID cs) \<Longrightarrow>
   map_option pcMessage (mget (entries n cs) k) = Some c \<longleftrightarrow> c \<in> set cs \<and> rvMessageID c = k"
  by (induction cs arbitrary: n) (auto simp: image_iff)

lemma entries_ok:
  assumes "distinct (map rvMessageID cs)" and "length cs \<le> privateControlMaxPendingCommands"
    and "\<forall>c \<in> set cs. command_ok c"
  shows "pending_ok (entries n cs)"
  using assms entries_set [of _ _ n cs]
  by (auto simp: pending_ok_def gomap_ok_def entries_fst) (simp add: entries_def)

lemma messages_distinct:
  assumes "pending_ok pend"
  shows "distinct (map rvMessageID (messages_of pend))"
proof -
  have "map (\<lambda>p. rvMessageID (pcMessage (snd p))) pend = map fst pend"
    using assms by (auto simp: pending_ok_def)
  moreover have "mset (map rvMessageID (messages_of pend)) = mset (map (\<lambda>p. rvMessageID (pcMessage (snd p))) pend)"
    by (simp add: messages_of_def case_prod_unfold multiset.map_comp comp_def)
  ultimately have "mset (map rvMessageID (messages_of pend)) = mset (map fst pend)" by (simp only:)
  then show ?thesis
    using assms mset_eq_imp_distinct_iff unfolding pending_ok_def gomap_ok_def by blast
qed

lemma messages_get:
  assumes "pending_ok pend"
  shows "map_option pcMessage (mget pend k) = Some c \<longleftrightarrow> c \<in> set (messages_of pend) \<and> rvMessageID c = k"
  using assms by (force simp: pending_ok_def messages_of_def mget_in_set)

lemma filter_option_eq:
  assumes "\<And>m. x = Some m \<longleftrightarrow> y = Some m \<and> P m"
  shows "x = (case y of None \<Rightarrow> None | Some m \<Rightarrow> if P m then Some m else None)"
proof (cases x)
  case (Some m)
  with assms [of m] show ?thesis by simp
next
  case None
  with assms show ?thesis by (cases y) auto
qed

lemma run_calls_ok: "(\<And>c. \<not> envFails env c) \<Longrightarrow> fst (run_calls env data cs dk) = None"
  by (induction cs arbitrary: dk) auto

text \<open>
  What a store holds: the commands that \<open>load_store\<close> reads from it whenever it can be read, if
  they are fit to be opened again.
\<close>

definition store_holds :: "disk \<Rightarrow> privateControlRevokeServiceAdmission list \<Rightarrow> bool" where
  "store_holds dk cs \<longleftrightarrow>
     (\<forall>env. \<not> envFails env StatStore \<longrightarrow> \<not> envFails env ReadStore \<longrightarrow> load_store env dk = Inr cs)
     \<and> distinct (map rvMessageID cs) \<and> length cs \<le> privateControlMaxPendingCommands \<and> (\<forall>c \<in> set cs. command_ok c)"

lemma load_store_same: "dkStore dk' = dkStore dk \<Longrightarrow> load_store env dk' = load_store env dk"
  by (simp only: load_store_def)

lemma store_holds_same: "dkStore dk' = dkStore dk \<Longrightarrow> store_holds dk' cs = store_holds dk cs"
  by (simp add: store_holds_def load_store_same [of dk' dk])

lemma store_data_holds:
  assumes "pending_ok pend" and "dkStore dk = Some (store_data pend)"
  shows "store_holds dk (messages_of pend)"
proof -
  have "length (messages_of pend) \<le> privateControlMaxPendingCommands"
    using assms(1) by (simp add: length_messages pending_ok_def)
  then show ?thesis
    unfolding store_holds_def
    using load_store_data [OF assms] messages_ok [OF assms(1)] messages_distinct [OF assms(1)] by blast
qed

lemma holds_reopen:
  assumes "store_holds dk cs" and "\<And>c. \<not> envFails env' c" and "trim_space filename \<noteq> []"
  shows "\<exists>pend n dk2. openPrivateControlCommandStore env' filename now dk = (Inr (trim_space filename, pend, n), dk2)
     \<and> pending_ok pend \<and> map (pcResult \<circ> snd) pend = [0..<n]
     \<and> (\<forall>k m. map_option pcMessage (mget pend k) = Some m \<longleftrightarrow> m \<in> set cs \<and> rvMessageID m = k \<and> now < rvDenyUntil m)"
proof -
  let ?ks = "filter (\<lambda>c. now < rvDenyUntil c) cs"
  have load: "load_store env' dk = Inr cs" using assms(1,2) by (simp add: store_holds_def)
  have pend: "load_pending now cs [] False 0 = Inr (entries 0 ?ks, ?ks \<noteq> cs, length ?ks)"
    using load_pending_ok [of cs "[]" now False 0] assms(1) by (auto simp: Let_def command_ok_def store_holds_def)
  have d: "distinct (map rvMessageID ?ks)"
    using assms(1) by (simp add: store_holds_def distinct_map inj_on_def)
  have "length ?ks \<le> privateControlMaxPendingCommands"
    using assms(1) length_filter_le [of "\<lambda>c. now < rvDenyUntil c" cs] unfolding store_holds_def by linarith
  then have ok: "pending_ok (entries 0 ?ks)"
    by (rule entries_ok [OF d]) (use assms(1) in \<open>simp add: store_holds_def\<close>)
  have "fst (persist env' (entries 0 ?ks) dk) = None"
    using run_calls_ok [OF assms(2)] by (simp add: persist_def split: prod.split) (metis fst_conv)
  then obtain dk2 where "persist env' (entries 0 ?ks) dk = (None, dk2)" by (metis prod.collapse)
  then have "\<exists>dk2. openPrivateControlCommandStore env' filename now dk
      = (Inr (trim_space filename, entries 0 ?ks, length ?ks), dk2)"
    using assms(3) load pend ok by (simp add: openPrivateControlCommandStore_def pending_ok_def Let_def)
  moreover have "map_option pcMessage (mget (entries 0 ?ks) k) = Some m
      \<longleftrightarrow> m \<in> set cs \<and> rvMessageID m = k \<and> now < rvDenyUntil m" for k m
    using entries_get [OF d] by auto
  moreover have "map (pcResult \<circ> snd) (entries 0 ?ks) = [0..<length ?ks]" using entries_results [of 0 ?ks] by simp
  ultimately show ?thesis
    using ok by (intro exI [of _ "entries 0 ?ks"] exI [of _ "length ?ks"]) simp
qed

lemma store_reopen:
  assumes "pending_ok pend" and "persist env pend dk = (None, dk1)"
    and "\<And>c. \<not> envFails env' c" and "trim_space filename \<noteq> []"
  shows "\<exists>pend' n dk2. openPrivateControlCommandStore env' filename now dk1
         = (Inr (trim_space filename, pend', n), dk2)
     \<and> pending_ok pend' \<and> map (pcResult \<circ> snd) pend' = [0..<n]
     \<and> (\<forall>k. map_option pcMessage (mget pend' k) =
          (case mget pend k of None \<Rightarrow> None
           | Some c \<Rightarrow> if now < rvDenyUntil (pcMessage c) then Some (pcMessage c) else None))"
proof -
  obtain pend' n dk2 where o: "openPrivateControlCommandStore env' filename now dk1
         = (Inr (trim_space filename, pend', n), dk2)" "pending_ok pend'" "map (pcResult \<circ> snd) pend' = [0..<n]"
    and get: "\<forall>k m. map_option pcMessage (mget pend' k) = Some m
       \<longleftrightarrow> m \<in> set (messages_of pend) \<and> rvMessageID m = k \<and> now < rvDenyUntil m"
    using holds_reopen [OF store_data_holds [OF assms(1) persist_success [OF assms(2)]] assms(3,4)] by blast
  have "map_option pcMessage (mget pend' k) =
      (case mget pend k of None \<Rightarrow> None
       | Some c \<Rightarrow> if now < rvDenyUntil (pcMessage c) then Some (pcMessage c) else None)" for k
  proof -
    have "map_option pcMessage (mget pend' k) =
        (case map_option pcMessage (mget pend k) of None \<Rightarrow> None
         | Some m \<Rightarrow> if now < rvDenyUntil m then Some m else None)"
      by (rule filter_option_eq) (use get messages_get [OF assms(1)] in blast)
    then show ?thesis by (cases "mget pend k") simp_all
  qed
  with o show ?thesis by blast
qed

text \<open>
  C27. What is persisted is what the next start opens: after a successful write, opening
  the store gives exactly the pending commands whose deadline has not passed, under their
  message identifiers, each with a result channel of its own.
\<close>

theorem store_roundtrip:
  assumes "pending_ok pend" and "persist env pend dk = (None, dk1)"
    and "\<And>c. \<not> envFails env' c" and "trim_space filename \<noteq> []"
  shows "\<exists>pend' n dk2. openPrivateControlCommandStore env' filename now dk1
         = (Inr (trim_space filename, pend', n), dk2)
     \<and> pending_ok pend' \<and> map (pcResult \<circ> snd) pend' = [0..<n]
     \<and> (\<forall>k. map_option pcMessage (mget pend' k) =
          (case mget pend k of None \<Rightarrow> None
           | Some c \<Rightarrow> if now < rvDenyUntil (pcMessage c) then Some (pcMessage c) else None))"
  using assms by (rule store_reopen)

text \<open>
  On Windows the store is removed before the new one takes its name, so a crash
  between the two calls loses every pending revocation.
\<close>

theorem windows_crash_loses:
  assumes "\<And>c. \<not> envFails env c"
  shows "dkStore (snd (run_calls env (store_data pend) (take 7 (persist_calls True)) dk)) = None"
  using assms by (simp add: persist_calls_def do_call_def)

section \<open>A sample\<close>

definition sample_id :: string where
  "sample_id = b64_encode (replicate 16 CHR ''a'')"

definition sample_command :: privateControlRevokeServiceAdmission where
  "sample_command = \<lparr>rvSchemaVersion = privateControlSchemaVersion, rvType = ''revoke_service_admission'',
     rvMessageID = sample_id, rvChannelID = 7, rvServiceID = ''rec'', rvGrantIDHash = [],
     rvReason = ''acl_removed'', rvDenyUntil = 5000\<rparr>"

definition sample_pending :: pending where
  "sample_pending = [(sample_id, \<lparr>pcMessage = sample_command, pcResult = 0\<rparr>)]"

definition good_env :: environment where
  "good_env = \<lparr>envFails = \<lambda>_. False, envWindows = False, envPart = []\<rparr>"

definition empty_disk :: disk where
  "empty_disk = \<lparr>dkStore = None, dkTemp = None\<rparr>"

lemma sample_command_ok: "command_ok sample_command"
proof -
  have "validPrivateControlID sample_id" by (auto simp: validPrivateControlID_iff sample_id_def)
  then show ?thesis
    by (simp add: command_ok_def validPrivateControlRevocation_def sample_command_def
        validManagementServiceID_def privateControlServiceIDPattern_def service_id_char_def
        is_alnum_def is_digit_def is_lower_def validServiceAdmissionRevocationReason_def)
qed

lemma sample_pending_ok: "pending_ok sample_pending"
  using sample_command_ok
  by (simp add: pending_ok_def sample_pending_def gomap_ok_def privateControlMaxPendingCommands_def)
    (simp add: sample_command_def)

lemma good_persist: "\<exists>dk'. persist good_env pend dk = (None, dk')"
  by (simp add: persist_def persist_calls_def do_call_def good_env_def)

lemma store_roundtrip_witness:
  "\<exists>dk1 pend' n dk2. persist good_env sample_pending empty_disk = (None, dk1)
     \<and> openPrivateControlCommandStore good_env ''f'' 100 dk1 = (Inr (''f'', pend', n), dk2)
     \<and> map_option pcMessage (mget pend' sample_id) = Some sample_command"
proof -
  obtain dk1 where p: "persist good_env sample_pending empty_disk = (None, dk1)" using good_persist by blast
  have t: "trim_space ''f'' = ''f''"
    by (rule trim_space_visible) (simp_all add: visible_def)
  have f: "\<not> envFails good_env c" for c by (simp add: good_env_def)
  from store_roundtrip [OF sample_pending_ok p f, of "''f''" 100] obtain pend' n dk2 where
    o: "openPrivateControlCommandStore good_env ''f'' 100 dk1 = (Inr (''f'', pend', n), dk2)"
    and m: "\<forall>k. map_option pcMessage (mget pend' k) =
          (case mget sample_pending k of None \<Rightarrow> None
           | Some c \<Rightarrow> if 100 < rvDenyUntil (pcMessage c) then Some (pcMessage c) else None)"
    unfolding t by auto
  have "map_option pcMessage (mget pend' sample_id) = Some sample_command"
    using m by (simp add: sample_pending_def) (simp add: sample_command_def)
  with p o show ?thesis by blast
qed

lemma windows_crash_loses_witness:
  "dkStore (snd (run_calls (good_env\<lparr>envWindows := True\<rparr>) (store_data sample_pending)
     (take 7 (persist_calls True)) \<lparr>dkStore = Some ''old'', dkTemp = None\<rparr>)) = None"
  by (rule windows_crash_loses) (simp add: good_env_def)

end
