(* ===== verification/Command_Queue.thy ===== *)
theory Command_Queue
  imports Command_Store
begin

text \<open>
  The queue of pending revocation commands of the Private Control Link client
  (\<open>private_control.go\<close>, lines 462 to 646).  A command's result channel is made by
  \<open>newPendingRevocation\<close> with a buffer of one and no code closes it; the channels made so
  far are the list \<open>clResults\<close>, and \<open>pcResult\<close> of a command is its index.  \<open>clDisk\<close> is the disk
  behind the command store, and the answers of the operating system, the random bytes, the
  clock and the connection are arguments.
\<close>

section \<open>The client\<close>

record managementServiceAdmissionRevocationRequest =
  rqChannelID :: u32
  rqServiceID :: string
  rqGrantIDHash :: string
  rqReason :: string
  rqDenyUntil :: int

datatype command_error = RelayError string | DeadlineElapsed

record privateControlCommandResult =
  crAck :: privateControlAck
  crErr :: "command_error option"

datatype queue_error =
    QueueNoRandom | QueueInvalidRequest | QueueFull | QueueInvalidCommand | QueuePending
  | QueueDuplicate | QueueStore store_error

record privateControlClientConfig =
  cfTransport :: string
  cfRelayAddress :: string
  cfUdsSocketPath :: string
  cfServerName :: string
  cfServiceID :: string
  cfCertificateFile :: string
  cfPrivateKeyFile :: string
  cfRelayCAFile :: string
  cfCommandStoreFile :: string

text \<open>Of the TLS configuration: the minimum version and the name the Relay's certificate must have.\<close>

record tls_config =
  tcMinVersion :: nat
  tcServerName :: string

record privateControlClient =
  clConfig :: privateControlClientConfig
  clTLS :: "tls_config option"
  clPending :: pending
  clStore :: bool
  clNotify :: "unit chan"
  clResults :: "privateControlCommandResult chan list"
  clDisk :: disk

text \<open>A \<open>select\<close> of a send and a \<open>default\<close>, on a channel that is never closed.\<close>

definition chan_offer :: "'a \<Rightarrow> 'a chan \<Rightarrow> 'a chan" where
  "chan_offer x c = (case chan_try_send c x of Inl _ \<Rightarrow> c | Inr (_, c') \<Rightarrow> c')"

definition privateControlTransportMTLSTCP :: string where
  "privateControlTransportMTLSTCP = ''mtls-tcp''"

definition privateControlTransportUDS :: string where
  "privateControlTransportUDS = ''uds''"

text \<open>\<open>tls.VersionTLS13\<close>\<close>

definition privateControlTLSMinVersion :: nat where
  "privateControlTLSMinVersion = 0x304"

text \<open>
  What the standard library says of the configured files: whether a certificate and key
  load, the content of a file, and whether it holds a certificate.
\<close>

record tls_files =
  tfKeyPair :: "string \<Rightarrow> string \<Rightarrow> bool"
  tfRead :: "string \<Rightarrow> string option"
  tfHasCert :: "string \<Rightarrow> bool"

datatype client_error =
    ClientServiceID | ClientStore store_error | ClientSettings | ClientKeyPair | ClientReadCA
  | ClientNoCert | ClientSocketPath | ClientTransport

definition is_abs :: "string \<Rightarrow> bool" where
  "is_abs p = (case p of [] \<Rightarrow> False | c # _ \<Rightarrow> c = CHR ''/'')"

definition newPrivateControlClient ::
  "tls_files \<Rightarrow> environment \<Rightarrow> int \<Rightarrow> privateControlClientConfig \<Rightarrow> disk
   \<Rightarrow> (client_error + privateControlClient) \<times> disk" where
  "newPrivateControlClient files env now config dk =
     (if \<not> validManagementServiceID (cfServiceID config) then (Inl ClientServiceID, dk)
      else case openPrivateControlCommandStore env (cfCommandStoreFile config) now dk of
        (Inl e, dk1) \<Rightarrow> (Inl (ClientStore e), dk1)
      | (Inr (filename, pend, n), dk1) \<Rightarrow>
          let client = \<lparr>clConfig = config, clTLS = None, clPending = pend, clStore = True,
                clNotify = make_chan 1, clResults = replicate n (make_chan 1), clDisk = dk1\<rparr>
          in
            if cfTransport config = privateControlTransportMTLSTCP then
              (if trim_space (cfRelayAddress config) = [] \<or> trim_space (cfServerName config) = []
                  \<or> trim_space (cfCertificateFile config) = [] \<or> trim_space (cfPrivateKeyFile config) = []
                  \<or> trim_space (cfRelayCAFile config) = [] then (Inl ClientSettings, dk1)
               else if \<not> tfKeyPair files (cfCertificateFile config) (cfPrivateKeyFile config)
                 then (Inl ClientKeyPair, dk1)
               else case tfRead files (cfRelayCAFile config) of
                 None \<Rightarrow> (Inl ClientReadCA, dk1)
               | Some caData \<Rightarrow>
                   if \<not> tfHasCert files caData then (Inl ClientNoCert, dk1)
                   else (Inr (client\<lparr>clTLS := Some \<lparr>tcMinVersion = privateControlTLSMinVersion,
                                               tcServerName = cfServerName config\<rparr>\<rparr>), dk1))
            else if cfTransport config = privateControlTransportUDS then
              (if \<not> is_abs (cfUdsSocketPath config) then (Inl ClientSocketPath, dk1) else (Inr client, dk1))
            else (Inl ClientTransport, dk1))"

section \<open>Operations\<close>

text \<open>\<open>raw\<close> is what \<open>rand.Read\<close> gives for the message identifier.\<close>

definition newPendingRevocation ::
  "string option \<Rightarrow> managementServiceAdmissionRevocationRequest \<Rightarrow> privateControlClient
   \<Rightarrow> (queue_error + privateControlPendingCommand) \<times> privateControlClient" where
  "newPendingRevocation raw request cl =
     (case newPrivateControlID raw of
        None \<Rightarrow> (Inl QueueNoRandom, cl)
      | Some messageID \<Rightarrow>
          let message = \<lparr>rvSchemaVersion = privateControlSchemaVersion,
                rvType = ''revoke_service_admission'', rvMessageID = messageID,
                rvChannelID = rqChannelID request, rvServiceID = rqServiceID request,
                rvGrantIDHash = rqGrantIDHash request, rvReason = rqReason request,
                rvDenyUntil = rqDenyUntil request\<rparr>;
              command = \<lparr>pcMessage = message, pcResult = length (clResults cl)\<rparr>;
              cl' = cl\<lparr>clResults := clResults cl @ [make_chan 1]\<rparr>
          in if \<not> validPrivateControlRevocation message then (Inl QueueInvalidRequest, cl')
             else (Inr command, cl'))"

definition persistPendingLocked ::
  "environment \<Rightarrow> privateControlClient \<Rightarrow> store_error option \<times> privateControlClient" where
  "persistPendingLocked env cl =
     (if \<not> clStore cl then (None, cl)
      else (case persist env (clPending cl) (clDisk cl) of
              (e, dk) \<Rightarrow> (e, cl\<lparr>clDisk := dk\<rparr>)))"

text \<open>The checks on a batch; \<open>seen\<close> are the identifiers of the commands before.\<close>

fun check_commands ::
  "pending \<Rightarrow> string list \<Rightarrow> privateControlPendingCommand list \<Rightarrow> queue_error option" where
  "check_commands pend seen [] = None"
| "check_commands pend seen (command # commands) =
     (if \<not> validPrivateControlRevocation (pcMessage command) then Some QueueInvalidCommand
      else if mhas pend (rvMessageID (pcMessage command)) then Some QueuePending
      else if rvMessageID (pcMessage command) \<in> set seen then Some QueueDuplicate
      else check_commands pend (rvMessageID (pcMessage command) # seen) commands)"

fun add_commands :: "privateControlPendingCommand list \<Rightarrow> pending \<Rightarrow> pending" where
  "add_commands [] pend = pend"
| "add_commands (command # commands) pend =
     add_commands commands (mput (rvMessageID (pcMessage command)) command pend)"

fun delete_commands :: "string list \<Rightarrow> pending \<Rightarrow> pending" where
  "delete_commands [] pend = pend"
| "delete_commands (messageID # added) pend = delete_commands added (mdel messageID pend)"

definition enqueuePendingCommands ::
  "environment \<Rightarrow> privateControlPendingCommand list \<Rightarrow> privateControlClient
   \<Rightarrow> queue_error option \<times> privateControlClient" where
  "enqueuePendingCommands env commands cl =
     (if commands = [] then (None, cl)
      else if privateControlMaxPendingCommands < mlen (clPending cl) + length commands
        then (Some QueueFull, cl)
      else case check_commands (clPending cl) [] commands of
        Some e \<Rightarrow> (Some e, cl)
      | None \<Rightarrow>
          (case persistPendingLocked env (cl\<lparr>clPending := add_commands commands (clPending cl)\<rparr>) of
             (Some e, cl') \<Rightarrow>
               (Some (QueueStore e),
                cl'\<lparr>clPending := delete_commands (map (rvMessageID \<circ> pcMessage) commands) (clPending cl')\<rparr>)
           | (None, cl') \<Rightarrow> (None, cl'\<lparr>clNotify := chan_offer () (clNotify cl')\<rparr>)))"

definition enqueuePendingCommand ::
  "environment \<Rightarrow> privateControlPendingCommand \<Rightarrow> privateControlClient
   \<Rightarrow> queue_error option \<times> privateControlClient" where
  "enqueuePendingCommand env command cl = enqueuePendingCommands env [command] cl"

definition pendingCommands :: "privateControlClient \<Rightarrow> privateControlPendingCommand list" where
  "pendingCommands cl = map snd (clPending cl)"

text \<open>What \<open>completePendingCommand\<close> and \<open>completePendingAcknowledgement\<close> do with the command found.\<close>

definition finish_command ::
  "environment \<Rightarrow> string \<Rightarrow> privateControlPendingCommand \<Rightarrow> privateControlCommandResult
   \<Rightarrow> privateControlClient \<Rightarrow> (bool \<times> queue_error option) \<times> privateControlClient" where
  "finish_command env messageID command result cl =
     (case persistPendingLocked env (cl\<lparr>clPending := mdel messageID (clPending cl)\<rparr>) of
        (Some e, cl') \<Rightarrow>
          ((True, Some (QueueStore e)), cl'\<lparr>clPending := mput messageID command (clPending cl')\<rparr>)
      | (None, cl') \<Rightarrow>
          ((True, None),
           cl'\<lparr>clResults := (clResults cl')[pcResult command :=
             chan_offer result (clResults cl' ! pcResult command)]\<rparr>))"

definition completePendingCommand ::
  "environment \<Rightarrow> string \<Rightarrow> privateControlCommandResult \<Rightarrow> privateControlClient
   \<Rightarrow> (bool \<times> queue_error option) \<times> privateControlClient" where
  "completePendingCommand env messageID result cl =
     (case mget (clPending cl) messageID of
        None \<Rightarrow> ((False, None), cl)
      | Some command \<Rightarrow> finish_command env messageID command result cl)"

definition completePendingAcknowledgement ::
  "environment \<Rightarrow> privateControlAck \<Rightarrow> privateControlClient
   \<Rightarrow> (bool \<times> queue_error option) \<times> privateControlClient" where
  "completePendingAcknowledgement env response cl =
     (case mget (clPending cl) (akInReplyTo response) of
        None \<Rightarrow> ((False, None), cl)
      | Some command \<Rightarrow>
          if rvDenyUntil (pcMessage command) \<noteq> akDenyUntil response then ((False, None), cl)
          else finish_command env (akInReplyTo response) command \<lparr>crAck = response, crErr = None\<rparr> cl)"

text \<open>
  The loop of \<open>sendPendingCommands\<close> over the commands in the order the map gave them.  Of
  the connection there are the answers to its writes; the result has the error, the bytes
  written, the answers left and the identifiers sent in this session.  The lock is held only
  by \<open>pendingCommands\<close> and by \<open>completePendingCommand\<close>, so the other goroutines use the queue
  between two commands: \<open>between n\<close> is what they do before the command that has \<open>n\<close> others
  behind it, and \<open>envs n\<close> what the operating system answers when that command is completed.
\<close>

datatype send_error = SendQueue queue_error | SendFrame frame_error

definition send_command ::
  "environment \<Rightarrow> int \<Rightarrow> privateControlPendingCommand \<Rightarrow> (int \<times> bool) list \<Rightarrow> string list
   \<Rightarrow> privateControlClient
   \<Rightarrow> send_error option \<times> string \<times> (int \<times> bool) list \<times> string list \<times> privateControlClient" where
  "send_command env now command answers sent cl =
     (if rvMessageID (pcMessage command) \<in> set sent then (None, [], answers, sent, cl)
      else if rvDenyUntil (pcMessage command) \<le> now then
        (case completePendingCommand env (rvMessageID (pcMessage command))
                \<lparr>crAck = zero_ack, crErr = Some DeadlineElapsed\<rparr> cl of
           ((_, Some e), cl') \<Rightarrow> (Some (SendQueue e), [], answers, sent, cl')
         | ((_, None), cl') \<Rightarrow> (None, [], answers, sent, cl'))
      else
        (case writePrivateControlFrame answers (enc_revocation (pcMessage command)) of
           (out, Some e, answers') \<Rightarrow> (Some (SendFrame e), out, answers', sent, cl)
         | (out, None, answers') \<Rightarrow>
             (None, out, answers', rvMessageID (pcMessage command) # sent, cl)))"

primrec send_commands ::
  "(nat \<Rightarrow> environment) \<Rightarrow> (nat \<Rightarrow> privateControlClient \<Rightarrow> privateControlClient) \<Rightarrow> int
   \<Rightarrow> privateControlPendingCommand list \<Rightarrow> (int \<times> bool) list \<Rightarrow> string list \<Rightarrow> privateControlClient
   \<Rightarrow> send_error option \<times> string \<times> (int \<times> bool) list \<times> string list \<times> privateControlClient" where
  "send_commands envs between now [] answers sent cl = (None, [], answers, sent, cl)"
| "send_commands envs between now (command # commands) answers sent cl =
     (case send_command (envs (length commands)) now command answers sent (between (length commands) cl) of
        (Some e, out, answers', sent', cl') \<Rightarrow> (Some e, out, answers', sent', cl')
      | (None, out, answers', sent', cl') \<Rightarrow>
          (case send_commands envs between now commands answers' sent' cl' of
             (e, out', rest) \<Rightarrow> (e, out @ out', rest)))"

definition sendPendingCommands ::
  "(nat \<Rightarrow> environment) \<Rightarrow> (nat \<Rightarrow> privateControlClient \<Rightarrow> privateControlClient) \<Rightarrow> int
   \<Rightarrow> (int \<times> bool) list \<Rightarrow> string list \<Rightarrow> privateControlClient
   \<Rightarrow> send_error option \<times> string \<times> (int \<times> bool) list \<times> string list \<times> privateControlClient" where
  "sendPendingCommands envs between now answers sent cl =
     send_commands envs between now (pendingCommands cl) answers sent cl"

definition queueServiceAdmissionRevocation ::
  "environment \<Rightarrow> string option \<Rightarrow> managementServiceAdmissionRevocationRequest \<Rightarrow> privateControlClient
   \<Rightarrow> (queue_error + string) \<times> privateControlClient" where
  "queueServiceAdmissionRevocation env raw request cl =
     (case newPendingRevocation raw request cl of
        (Inl e, cl1) \<Rightarrow> (Inl e, cl1)
      | (Inr command, cl1) \<Rightarrow>
          (case enqueuePendingCommands env [command] cl1 of
             (Some e, cl2) \<Rightarrow> (Inl e, cl2)
           | (None, cl2) \<Rightarrow> (Inr (rvMessageID (pcMessage command)), cl2)))"

text \<open>The commands of a list of requests, \<open>raws\<close> giving the random bytes of each.\<close>

fun new_commands ::
  "string option list \<Rightarrow> managementServiceAdmissionRevocationRequest list \<Rightarrow> privateControlClient
   \<Rightarrow> (queue_error + privateControlPendingCommand list) \<times> privateControlClient" where
  "new_commands raws [] cl = (Inr [], cl)"
| "new_commands raws (request # requests) cl =
     (case newPendingRevocation (case raws of [] \<Rightarrow> None | raw # _ \<Rightarrow> raw) request cl of
        (Inl e, cl1) \<Rightarrow> (Inl e, cl1)
      | (Inr command, cl1) \<Rightarrow>
          (case new_commands (drop 1 raws) requests cl1 of
             (Inl e, cl2) \<Rightarrow> (Inl e, cl2)
           | (Inr commands, cl2) \<Rightarrow> (Inr (command # commands), cl2)))"

definition queueServiceAdmissionRevocations ::
  "environment \<Rightarrow> string option list \<Rightarrow> managementServiceAdmissionRevocationRequest list
   \<Rightarrow> privateControlClient \<Rightarrow> queue_error option \<times> privateControlClient" where
  "queueServiceAdmissionRevocations env raws requests cl =
     (case new_commands raws requests cl of
        (Inl e, cl1) \<Rightarrow> (Some e, cl1)
      | (Inr commands, cl1) \<Rightarrow> enqueuePendingCommands env commands cl1)"

text \<open>
  \<open>revokeServiceAdmission\<close> submits the command and then waits: the second part is what it
  returns when the \<open>select\<close> is reached again, \<open>None\<close> while it blocks.  Where the result is
  there and the context is done, the \<open>select\<close> takes either (\<open>prefer_done\<close>).
\<close>

datatype revoke_error = RevokeQueue queue_error | RevokeCommand command_error | RevokeContext

definition submit_revocation ::
  "environment \<Rightarrow> string option \<Rightarrow> managementServiceAdmissionRevocationRequest \<Rightarrow> privateControlClient
   \<Rightarrow> (queue_error + privateControlPendingCommand) \<times> privateControlClient" where
  "submit_revocation env raw request cl =
     (case newPendingRevocation raw request cl of
        (Inl e, cl1) \<Rightarrow> (Inl e, cl1)
      | (Inr command, cl1) \<Rightarrow>
          (case enqueuePendingCommand env command cl1 of
             (Some e, cl2) \<Rightarrow> (Inl e, cl2)
           | (None, cl2) \<Rightarrow> (Inr command, cl2)))"

definition await_result ::
  "bool \<Rightarrow> bool \<Rightarrow> privateControlPendingCommand \<Rightarrow> privateControlClient
   \<Rightarrow> (privateControlAck \<times> string \<times> revoke_error option) option \<times> privateControlClient" where
  "await_result context_done prefer_done command cl =
     (let messageID = rvMessageID (pcMessage command)
      in case chan_recv (clResults cl ! pcResult command) of
        (Received result, c') \<Rightarrow>
          if context_done \<and> prefer_done then (Some (zero_ack, messageID, Some RevokeContext), cl)
          else (Some (crAck result, messageID, map_option RevokeCommand (crErr result)),
                cl\<lparr>clResults := (clResults cl)[pcResult command := c']\<rparr>)
      | _ \<Rightarrow>
          if context_done then (Some (zero_ack, messageID, Some RevokeContext), cl)
          else (None, cl))"

end
