(* ===== verification/Queue_Properties.thy ===== *)
theory Queue_Properties
  imports Command_Queue
begin

text \<open>
  What the queue of pending revocations guarantees: its invariant, that a batch is queued
  whole or not at all, that each command's result is delivered once, and what a session
  writes of it.
\<close>

section \<open>Channels and batches\<close>

lemma chan_offer_room: "\<not> chanClosed c \<Longrightarrow> length (chanBuf c) < chanCap c \<Longrightarrow>
    chan_offer x c = c\<lparr>chanBuf := chanBuf c @ [x]\<rparr>"
  by (simp add: chan_offer_def chan_try_send_def)

lemma chan_offer_full: "\<not> chanClosed c \<Longrightarrow> chanCap c \<le> length (chanBuf c) \<Longrightarrow> chan_offer x c = c"
  by (simp add: chan_offer_def chan_try_send_def)

abbreviation command_id :: "privateControlPendingCommand \<Rightarrow> string" where
  "command_id c \<equiv> rvMessageID (pcMessage c)"

lemma check_commands_None:
  "check_commands pend seen commands = None \<longleftrightarrow>
     (\<forall>c \<in> set commands. validPrivateControlRevocation (pcMessage c)
        \<and> \<not> mhas pend (command_id c) \<and> command_id c \<notin> set seen)
     \<and> distinct (map command_id commands)"
proof (induction commands arbitrary: seen)
  case (Cons c commands)
  show ?case by (simp add: Cons.IH) (metis (no_types, lifting) image_iff)
qed simp

lemma add_commands_new:
  "\<forall>c \<in> set commands. \<not> mhas pend (command_id c) \<Longrightarrow> distinct (map command_id commands) \<Longrightarrow>
   add_commands commands pend = pend @ map (\<lambda>c. (command_id c, c)) commands"
proof (induction commands arbitrary: pend)
  case (Cons c commands)
  then have "add_commands commands (mput (command_id c) c pend)
      = mput (command_id c) c pend @ map (\<lambda>c. (command_id c, c)) commands"
    by (intro Cons.IH) (auto simp: image_iff)
  then show ?case using Cons.prems by (simp add: mput_new)
qed simp

lemma mdel_absent: "\<not> mhas m k \<Longrightarrow> mdel k m = m"
  by (simp add: mhas_dom)

lemma mdel_append: "mdel k (m @ m') = mdel k m @ mdel k m'"
  by (simp add: AList.delete_eq)

lemma delete_commands_added:
  "\<forall>c \<in> set commands. \<not> mhas pend (command_id c) \<Longrightarrow> distinct (map command_id commands) \<Longrightarrow>
   delete_commands (map command_id commands) (pend @ map (\<lambda>c. (command_id c, c)) commands) = pend"
proof (induction commands)
  case (Cons c commands)
  have "\<not> mhas (map (\<lambda>c. (command_id c, c)) commands) (command_id c)"
    using Cons.prems(2) by (auto simp: mhas_dom image_iff)
  then have "mdel (command_id c) (pend @ map (\<lambda>c. (command_id c, c)) (c # commands))
      = pend @ map (\<lambda>c. (command_id c, c)) commands"
    using Cons.prems(1) by (simp add: mdel_append mdel_absent del: delete_simps(2)) (simp add: mdel_absent)
  then show ?case using Cons by simp
qed simp

lemma persist_frame:
  "persistPendingLocked env cl = (e, cl') \<Longrightarrow>
   \<exists>dk. cl' = cl\<lparr>clDisk := dk\<rparr>
     \<and> (clStore cl \<longrightarrow> persist env (clPending cl) (clDisk cl) = (e, dk))"
  by (auto simp: persistPendingLocked_def split: if_splits prod.splits intro: exI [of _ "clDisk cl"])

lemma enqueue_cases:
  assumes step: "enqueuePendingCommands env commands cl = (e, cl')"
  obtains (unchanged) "cl' = cl" "e \<noteq> None \<or> commands = []"
  | (rolled_back) dk x where "cl' = cl\<lparr>clDisk := dk\<rparr>" "e \<noteq> None"
      "mlen (clPending cl) + length commands \<le> privateControlMaxPendingCommands"
      "check_commands (clPending cl) [] commands = None"
      "clStore cl \<longrightarrow> persist env (clPending cl @ map (\<lambda>c. (command_id c, c)) commands) (clDisk cl) = (Some x, dk)"
  | (queued) dk where "e = None" "commands \<noteq> []"
      "cl' = cl\<lparr>clPending := clPending cl @ map (\<lambda>c. (command_id c, c)) commands, clDisk := dk,
                clNotify := chan_offer () (clNotify cl)\<rparr>"
      "mlen (clPending cl) + length commands \<le> privateControlMaxPendingCommands"
      "check_commands (clPending cl) [] commands = None"
      "clStore cl \<longrightarrow> persist env (clPending cl') (clDisk cl) = (None, dk)"
proof (cases "commands = [] \<or> privateControlMaxPendingCommands < mlen (clPending cl) + length commands
    \<or> check_commands (clPending cl) [] commands \<noteq> None")
  case True
  then have "cl' = cl \<and> (e \<noteq> None \<or> commands = [])"
    using step
    by (cases "check_commands (clPending cl) [] commands") (auto 0 4 simp: enqueuePendingCommands_def intro: sym split: if_splits)
  then show thesis using unchanged by blast
next
  case False
  let ?p = "clPending cl @ map (\<lambda>c. (command_id c, c)) commands"
  have chk: "\<forall>c \<in> set commands. \<not> mhas (clPending cl) (command_id c)" "distinct (map command_id commands)"
    using False by (auto simp: check_commands_None)
  obtain e1 cl1 where p: "persistPendingLocked env (cl\<lparr>clPending := ?p\<rparr>) = (e1, cl1)" by fastforce
  then obtain dk where cl1: "cl1 = cl\<lparr>clPending := ?p, clDisk := dk\<rparr>"
      "clStore cl \<longrightarrow> persist env ?p (clDisk cl) = (e1, dk)"
    using persist_frame [of env "cl\<lparr>clPending := ?p\<rparr>"] by auto
  have p': "persistPendingLocked env (cl\<lparr>clPending := add_commands commands (clPending cl)\<rparr>) = (e1, cl1)"
    using p add_commands_new [OF chk] by simp
  show thesis
  proof (cases e1)
    case None
    have "e = None \<and> cl' = cl\<lparr>clPending := ?p, clDisk := dk, clNotify := chan_offer () (clNotify cl)\<rparr>"
      using step False p' None cl1(1) by (auto simp: enqueuePendingCommands_def)
    then show thesis
      using False None cl1(2) by (intro queued [of dk]) simp_all
  next
    case (Some e2)
    have "delete_commands (map (rvMessageID \<circ> pcMessage) commands) ?p = clPending cl"
      using delete_commands_added [OF chk] by (simp add: comp_def)
    then have "e \<noteq> None \<and> cl' = cl\<lparr>clDisk := dk\<rparr>"
      using step False p' Some cl1(1) by (auto simp: enqueuePendingCommands_def)
    then show thesis using rolled_back [of dk e2] False Some cl1(2) by simp
  qed
qed

text \<open>What completing a command that is there does.\<close>

lemma finish_cases:
  assumes step: "finish_command env k c result cl = ((completed, e), cl')"
  obtains (finished) dk where "completed" "e = None"
      "cl' = cl\<lparr>clPending := mdel k (clPending cl), clDisk := dk,
                clResults := (clResults cl)[pcResult c := chan_offer result (clResults cl ! pcResult c)]\<rparr>"
      "clStore cl \<longrightarrow> persist env (mdel k (clPending cl)) (clDisk cl) = (None, dk)"
  | (kept) dk where "completed" "e \<noteq> None"
      "cl' = cl\<lparr>clPending := mdel k (clPending cl) @ [(k, c)], clDisk := dk\<rparr>"
      "clStore cl \<longrightarrow> (\<exists>x. persist env (mdel k (clPending cl)) (clDisk cl) = (Some x, dk))"
proof -
  obtain e1 cl1 where p: "persistPendingLocked env (cl\<lparr>clPending := mdel k (clPending cl)\<rparr>) = (e1, cl1)" by fastforce
  then obtain dk where cl1: "cl1 = cl\<lparr>clPending := mdel k (clPending cl), clDisk := dk\<rparr>"
      "clStore cl \<longrightarrow> persist env (mdel k (clPending cl)) (clDisk cl) = (e1, dk)"
    using persist_frame [of env "cl\<lparr>clPending := mdel k (clPending cl)\<rparr>"] by auto
  have new: "mput k c (mdel k (clPending cl)) = mdel k (clPending cl) @ [(k, c)]"
    by (rule mput_new) simp
  show thesis
    using step p cl1 new finished [of dk] kept [of dk] by (cases e1) (auto simp: finish_command_def)
qed

lemma complete_cases:
  assumes step: "completePendingCommand env k result cl = ((completed, e), cl')"
  obtains (absent) "mget (clPending cl) k = None" "\<not> completed" "e = None" "cl' = cl"
  | (found) c where "mget (clPending cl) k = Some c"
      "finish_command env k c result cl = ((completed, e), cl')"
  using step by (auto simp: completePendingCommand_def split: option.splits)

lemma ack_cases:
  assumes step: "completePendingAcknowledgement env a cl = ((completed, e), cl')"
  obtains (absent) "\<not> completed" "e = None" "cl' = cl"
      "\<forall>c. mget (clPending cl) (akInReplyTo a) = Some c \<longrightarrow> rvDenyUntil (pcMessage c) \<noteq> akDenyUntil a"
  | (found) c where "mget (clPending cl) (akInReplyTo a) = Some c" "rvDenyUntil (pcMessage c) = akDenyUntil a"
      "finish_command env (akInReplyTo a) c \<lparr>crAck = a, crErr = None\<rparr> cl = ((completed, e), cl')"
  using step by (auto simp: completePendingAcknowledgement_def split: option.splits if_splits)

section \<open>The invariant\<close>

text \<open>Channel \<open>n\<close> belongs to a pending command.\<close>

definition awaiting :: "privateControlClient \<Rightarrow> nat \<Rightarrow> bool" where
  "awaiting cl n \<longleftrightarrow> n \<in> (pcResult \<circ> snd) ` set (clPending cl)"

definition result_chan_ok :: "'a chan \<Rightarrow> bool" where
  "result_chan_ok c \<longleftrightarrow> chanCap c = 1 \<and> length (chanBuf c) \<le> 1 \<and> \<not> chanClosed c"

definition queue_inv :: "privateControlClient \<Rightarrow> bool" where
  "queue_inv cl \<longleftrightarrow> pending_ok (clPending cl)
     \<and> distinct (map (pcResult \<circ> snd) (clPending cl))
     \<and> (\<forall>n. awaiting cl n \<longrightarrow> n < length (clResults cl) \<and> clResults cl ! n = make_chan 1)
     \<and> (\<forall>c \<in> set (clResults cl). result_chan_ok c) \<and> result_chan_ok (clNotify cl)"

text \<open>A batch of new commands: each has an unused channel of its own.\<close>

definition fresh_batch :: "privateControlClient \<Rightarrow> privateControlPendingCommand list \<Rightarrow> bool" where
  "fresh_batch cl commands \<longleftrightarrow> distinct (map pcResult commands)
     \<and> (\<forall>c \<in> set commands. rvDenyUntil (pcMessage c) < 2 ^ 63 \<and> \<not> awaiting cl (pcResult c)
          \<and> pcResult c < length (clResults cl) \<and> clResults cl ! pcResult c = make_chan 1)"

lemma result_chan_make [simp]: "result_chan_ok (make_chan 1)" "result_chan_ok (make_chan (Suc 0))"
  by (simp_all add: result_chan_ok_def make_chan_def)

lemma result_chan_offer: "result_chan_ok c \<Longrightarrow> result_chan_ok (chan_offer x c)"
  by (auto simp: result_chan_ok_def chan_offer_def chan_try_send_def)

lemma offer_make [simp]: "chanBuf (chan_offer x (make_chan 1)) = [x]"
    "chanBuf (chan_offer x (make_chan (Suc 0))) = [x]"
  by (simp_all add: chan_offer_def chan_try_send_def make_chan_def)

lemma pending_ok_permute:
  assumes "pending_ok p" and "mset q = mset p"
  shows "pending_ok q"
proof -
  have "mset (map fst q) = mset (map fst p)" using assms(2) by simp
  then have "distinct (map fst q) = distinct (map fst p)" by (rule mset_eq_imp_distinct_iff)
  then show ?thesis
    using assms mset_eq_setD [OF assms(2)] mset_eq_length [OF assms(2)]
    unfolding pending_ok_def gomap_ok_def by simp
qed

lemma queue_inv_permute:
  assumes "queue_inv cl" and "mset q = mset (clPending cl)"
  shows "queue_inv (cl\<lparr>clPending := q, clDisk := dk\<rparr>)"
proof -
  have "mset (map (pcResult \<circ> snd) q) = mset (map (pcResult \<circ> snd) (clPending cl))" using assms(2) by simp
  then have "distinct (map (pcResult \<circ> snd) q) = distinct (map (pcResult \<circ> snd) (clPending cl))"
    by (rule mset_eq_imp_distinct_iff)
  then show ?thesis
    using assms mset_eq_setD [OF assms(2)] pending_ok_permute [OF _ assms(2)]
    by (simp add: queue_inv_def awaiting_def)
qed

lemma queue_inv_disk: "queue_inv cl \<Longrightarrow> queue_inv (cl\<lparr>clDisk := dk\<rparr>)"
  using queue_inv_permute [of cl "clPending cl" dk] by simp

lemma mset_mdel: "gomap_ok m \<Longrightarrow> mget m k = Some v \<Longrightarrow> mset m = add_mset (k, v) (mset (mdel k m))"
proof (induction m)
  case (Cons p m)
  show ?case
  proof (cases "fst p = k")
    case True
    then have "\<not> mhas m k" using Cons.prems(1) by (auto simp: gomap_ok_def mhas_dom)
    then show ?thesis using Cons True by (cases p) (auto simp: mdel_absent)
  next
    case False
    then show ?thesis using Cons by (cases p) (auto simp: gomap_ok_def)
  qed
qed simp

lemma awaiting_mdel:
  assumes "queue_inv cl" and "mget (clPending cl) k = Some c"
  shows "awaiting (cl\<lparr>clPending := mdel k (clPending cl), clDisk := dk, clResults := rs\<rparr>) n
      \<longleftrightarrow> awaiting cl n \<and> n \<noteq> pcResult c"
proof -
  have m: "mset (clPending cl) = add_mset (k, c) (mset (mdel k (clPending cl)))"
    using assms mset_mdel by (auto simp: queue_inv_def pending_ok_def)
  then have "distinct (pcResult c # map (pcResult \<circ> snd) (mdel k (clPending cl)))"
    using assms(1) mset_eq_imp_distinct_iff [of "pcResult c # map (pcResult \<circ> snd) (mdel k (clPending cl))"
        "map (pcResult \<circ> snd) (clPending cl)"]
    by (simp add: queue_inv_def)
  then have "pcResult c \<notin> (pcResult \<circ> snd) ` set (mdel k (clPending cl))" by simp
  moreover have s: "set (clPending cl) = insert (k, c) (set (mdel k (clPending cl)))"
    by (metis m set_mset_add_mset_insert set_mset_mset)
  have "(pcResult \<circ> snd) ` set (clPending cl) = insert (pcResult c) ((pcResult \<circ> snd) ` set (mdel k (clPending cl)))"
    by (subst s) simp
  ultimately have "n \<in> (pcResult \<circ> snd) ` set (mdel k (clPending cl))
      \<longleftrightarrow> n \<in> (pcResult \<circ> snd) ` set (clPending cl) \<and> n \<noteq> pcResult c"
    by (simp only: insert_iff) blast
  then show ?thesis by (simp add: awaiting_def)
qed

lemma queue_inv_done:
  assumes inv: "queue_inv cl" and c: "mget (clPending cl) k = Some c"
  shows "queue_inv (cl\<lparr>clPending := mdel k (clPending cl), clDisk := dk,
           clResults := (clResults cl)[pcResult c := chan_offer r (clResults cl ! pcResult c)]\<rparr>)"
    (is "queue_inv ?cl")
proof -
  have kc: "(k, c) \<in> set (clPending cl)" using c by (rule map_of_SomeD)
  then have n: "pcResult c < length (clResults cl)"
    using inv by (force simp: queue_inv_def awaiting_def)
  have "pending_ok (mdel k (clPending cl))"
    using inv mlen_del_le [of k "clPending cl"] unfolding queue_inv_def pending_ok_def set_mdel by force
  moreover have "distinct (map (pcResult \<circ> snd) (mdel k (clPending cl)))"
    using inv unfolding queue_inv_def AList.delete_eq by (blast intro: distinct_map_filter)
  moreover have "\<forall>m. awaiting ?cl m \<longrightarrow> m < length (clResults ?cl) \<and> clResults ?cl ! m = make_chan 1"
    using inv unfolding awaiting_mdel [OF inv c] by (auto simp: queue_inv_def)
  moreover have "\<forall>c \<in> set (clResults ?cl). result_chan_ok c"
    using inv n set_update_subset_insert [of "clResults cl" "pcResult c"]
    unfolding queue_inv_def by (fastforce intro: result_chan_offer)
  ultimately show ?thesis using inv by (simp add: queue_inv_def)
qed

lemma finish_inv:
  assumes "queue_inv cl" and "mget (clPending cl) k = Some c"
    and "finish_command env k c r cl = ((completed, e), cl')"
  shows "queue_inv cl'"
  using assms(3)
proof (cases rule: finish_cases)
  case (finished dk)
  then show ?thesis using queue_inv_done [OF assms(1,2)] by simp
next
  case (kept dk)
  have "mset (mdel k (clPending cl) @ [(k, c)]) = mset (clPending cl)"
    using assms(1) mset_mdel [OF _ assms(2)] by (simp add: queue_inv_def pending_ok_def)
  then show ?thesis using kept queue_inv_permute [OF assms(1)] by simp
qed

lemma pending_ok_batch:
  assumes inv: "queue_inv cl" and fresh: "fresh_batch cl commands"
    and "mlen (clPending cl) + length commands \<le> privateControlMaxPendingCommands"
    and "check_commands (clPending cl) [] commands = None"
  shows "pending_ok (clPending cl @ map (\<lambda>c. (command_id c, c)) commands)" (is "pending_ok ?p")
proof -
  have chk: "\<forall>c \<in> set commands. validPrivateControlRevocation (pcMessage c) \<and> \<not> mhas (clPending cl) (command_id c)"
      "distinct (map command_id commands)"
    using assms(4) by (auto simp: check_commands_None)
  have "\<forall>c \<in> set commands. command_id c \<notin> fst ` set (clPending cl)"
    using chk(1) by (simp add: mhas_dom)
  then have "set (map fst (clPending cl)) \<inter> set (map command_id commands) = {}"
    unfolding disjoint_iff by (metis (no_types, lifting) imageE set_map)
  then have "gomap_ok ?p"
    using inv chk(2) by (simp add: queue_inv_def pending_ok_def gomap_ok_def comp_def)
  then show ?thesis
    using inv chk fresh assms(3) by (auto simp: queue_inv_def pending_ok_def fresh_batch_def command_ok_def)
qed

lemma enqueue_inv:
  assumes inv: "queue_inv cl" and fresh: "fresh_batch cl commands"
    and "enqueuePendingCommands env commands cl = (e, cl')"
  shows "queue_inv cl'"
  using assms(3)
proof (cases rule: enqueue_cases)
  case (queued dk)
  let ?p = "clPending cl @ map (\<lambda>c. (command_id c, c)) commands"
  have p: "pending_ok ?p" using pending_ok_batch [OF inv fresh queued(4,5)] .
  have aw: "awaiting cl' n \<longleftrightarrow> awaiting cl n \<or> n \<in> pcResult ` set commands" for n
    unfolding queued(3) by (simp add: awaiting_def image_Un image_image)
  have "\<forall>c \<in> set commands. pcResult c \<notin> (pcResult \<circ> snd) ` set (clPending cl)"
    using fresh by (simp add: fresh_batch_def awaiting_def)
  then have "set (map (pcResult \<circ> snd) (clPending cl)) \<inter> set (map pcResult commands) = {}"
    unfolding disjoint_iff by (metis (no_types, lifting) imageE set_map)
  then have d: "distinct (map (pcResult \<circ> snd) ?p)"
    using inv fresh by (simp add: queue_inv_def fresh_batch_def comp_def)
  have "\<forall>n. awaiting cl' n \<longrightarrow> n < length (clResults cl') \<and> clResults cl' ! n = make_chan 1"
    using inv fresh unfolding aw unfolding queued(3) by (auto simp: queue_inv_def fresh_batch_def)
  with p d inv show ?thesis
    unfolding queue_inv_def unfolding queued(3) by (simp add: result_chan_offer)
qed (use inv queue_inv_disk in auto)

section \<open>New commands\<close>

lemma new_pending_cases:
  assumes "newPendingRevocation raw request cl = (r, cl')"
  obtains (no_id) "r = Inl QueueNoRandom" "cl' = cl"
  | (invalid) "r = Inl QueueInvalidRequest" "cl' = cl\<lparr>clResults := clResults cl @ [make_chan 1]\<rparr>"
  | (made) command where "r = Inr command" "cl' = cl\<lparr>clResults := clResults cl @ [make_chan 1]\<rparr>"
      "pcResult command = length (clResults cl)" "validPrivateControlRevocation (pcMessage command)"
      "rvChannelID (pcMessage command) = rqChannelID request" "rvServiceID (pcMessage command) = rqServiceID request"
      "rvGrantIDHash (pcMessage command) = rqGrantIDHash request" "rvReason (pcMessage command) = rqReason request"
      "rvDenyUntil (pcMessage command) = rqDenyUntil request"
      "newPrivateControlID raw = Some (command_id command)"
  using assms by (force simp: newPendingRevocation_def Let_def split: option.splits if_splits)

text \<open>The message of a command is that of its request.\<close>

definition command_of ::
  "managementServiceAdmissionRevocationRequest \<Rightarrow> privateControlPendingCommand \<Rightarrow> bool" where
  "command_of request c \<longleftrightarrow> rvChannelID (pcMessage c) = rqChannelID request
     \<and> rvServiceID (pcMessage c) = rqServiceID request \<and> rvGrantIDHash (pcMessage c) = rqGrantIDHash request
     \<and> rvReason (pcMessage c) = rqReason request \<and> rvDenyUntil (pcMessage c) = rqDenyUntil request"

lemma new_commands_results:
  assumes "new_commands raws requests cl = (r, cl')"
  shows "\<exists>k. cl' = cl\<lparr>clResults := clResults cl @ replicate k (make_chan 1)\<rparr>
     \<and> (\<forall>commands. r = Inr commands \<longrightarrow> k = length requests \<and> list_all2 command_of requests commands
          \<and> map pcResult commands = [length (clResults cl)..<length (clResults cl) + length requests])"
  using assms
proof (induction raws requests cl arbitrary: r cl' rule: new_commands.induct)
  case (1 raws cl)
  then show ?case by (auto intro: exI [of _ 0])
next
  case (2 raws request requests cl)
  let ?raw = "case raws of [] \<Rightarrow> None | raw # _ \<Rightarrow> raw"
  obtain r1 cl1 where n: "newPendingRevocation ?raw request cl = (r1, cl1)" by fastforce
  from n show ?case
  proof (cases rule: new_pending_cases)
    case no_id
    then show ?thesis using 2(2) n by (auto intro: exI [of _ 0])
  next
    case invalid
    then show ?thesis using 2(2) n by (auto intro: exI [of _ 1])
  next
    case (made command)
    obtain r2 cl2 where m: "new_commands (drop 1 raws) requests cl1 = (r2, cl2)" by fastforce
    from "2.IH" [OF n [symmetric] made(1) m] obtain k where
      k: "cl2 = cl1\<lparr>clResults := clResults cl1 @ replicate k (make_chan 1)\<rparr>"
      "\<forall>commands. r2 = Inr commands \<longrightarrow> k = length requests \<and> list_all2 command_of requests commands
          \<and> map pcResult commands = [length (clResults cl1)..<length (clResults cl1) + length requests]"
      by blast
    have cl': "cl' = cl\<lparr>clResults := clResults cl @ replicate (Suc k) (make_chan 1)\<rparr>"
      using 2(2) n made(1,2) m k(1) by (cases r2) auto
    have "command_of request command" using made by (simp add: command_of_def)
    then have "r = Inr commands \<longrightarrow> Suc k = length (request # requests) \<and> list_all2 command_of (request # requests) commands
          \<and> map pcResult commands = [length (clResults cl)..<length (clResults cl) + length (request # requests)]"
      for commands
      using 2(2) n made m k by (cases r2) (auto simp: upt_conv_Cons simp del: upt_Suc)
    with cl' show ?thesis by blast
  qed
qed

lemma queue_inv_alloc:
  "queue_inv cl \<Longrightarrow> queue_inv (cl\<lparr>clResults := clResults cl @ replicate k (make_chan 1)\<rparr>)"
  unfolding queue_inv_def awaiting_def by (auto simp: nth_append)

lemma awaiting_less: "queue_inv cl \<Longrightarrow> awaiting cl n \<Longrightarrow> n < length (clResults cl)"
  by (simp add: queue_inv_def)

lemma new_commands_fresh:
  assumes inv: "queue_inv cl" and "new_commands raws requests cl = (Inr commands, cl')"
    and deny: "\<forall>r \<in> set requests. rqDenyUntil r < 2 ^ 63"
  shows "fresh_batch cl' commands"
proof -
  obtain cl': "cl' = cl\<lparr>clResults := clResults cl @ replicate (length requests) (make_chan 1)\<rparr>"
    and rel: "list_all2 command_of requests commands"
    and res: "map pcResult commands = [length (clResults cl)..<length (clResults cl) + length requests]"
    using new_commands_results [OF assms(2)] by blast
  have "rvDenyUntil (pcMessage c) < 2 ^ 63 \<and> \<not> awaiting cl' (pcResult c)
      \<and> pcResult c < length (clResults cl') \<and> clResults cl' ! pcResult c = make_chan 1"
    if c: "c \<in> set commands" for c
  proof -
    from c have "pcResult c \<in> set (map pcResult commands)" by simp
    then have n: "length (clResults cl) \<le> pcResult c" "pcResult c < length (clResults cl) + length requests"
      unfolding res by simp_all
    obtain i where "i < length commands" "c = commands ! i" using c by (auto simp: in_set_conv_nth)
    then have "requests ! i \<in> set requests" "command_of (requests ! i) c"
      using rel by (simp_all add: list_all2_conv_all_nth)
    then have "rvDenyUntil (pcMessage c) < 2 ^ 63" using deny by (simp add: command_of_def)
    moreover have "\<not> awaiting cl' (pcResult c)"
      using awaiting_less [OF inv] n(1) unfolding cl' by (fastforce simp: awaiting_def)
    ultimately show ?thesis using n unfolding cl' by (simp add: nth_append)
  qed
  then show ?thesis by (simp add: fresh_batch_def res)
qed

lemma queue_revocations_cases:
  assumes "queueServiceAdmissionRevocations env raws requests cl = (e, cl')" and "queue_inv cl"
    and "\<forall>r \<in> set requests. rqDenyUntil r < 2 ^ 63"
  obtains (refused) k where "cl' = cl\<lparr>clResults := clResults cl @ replicate k (make_chan 1)\<rparr>" "e \<noteq> None"
  | (batch) k commands cl1 where "cl1 = cl\<lparr>clResults := clResults cl @ replicate k (make_chan 1)\<rparr>"
      "queue_inv cl1" "fresh_batch cl1 commands" "list_all2 command_of requests commands"
      "\<forall>c \<in> set commands. length (clResults cl) \<le> pcResult c"
      "enqueuePendingCommands env commands cl1 = (e, cl')"
proof -
  obtain r cl1 where n: "new_commands raws requests cl = (r, cl1)" by fastforce
  obtain k where k: "cl1 = cl\<lparr>clResults := clResults cl @ replicate k (make_chan 1)\<rparr>"
      "\<forall>commands. r = Inr commands \<longrightarrow> list_all2 command_of requests commands
        \<and> map pcResult commands = [length (clResults cl)..<length (clResults cl) + length requests]"
    using new_commands_results [OF n] by blast
  show thesis
  proof (cases r)
    case (Inl e1)
    then show thesis using refused [of k] n k(1) assms(1) by (auto simp: queueServiceAdmissionRevocations_def)
  next
    case (Inr commands)
    have "queue_inv cl1" unfolding k(1) by (rule queue_inv_alloc [OF assms(2)])
    moreover have "fresh_batch cl1 commands"
      using new_commands_fresh [OF assms(2) n [unfolded Inr] assms(3)] .
    moreover have "set (map pcResult commands) = {length (clResults cl)..<length (clResults cl) + length requests}"
      using k(2) Inr by simp
    then have "\<forall>c \<in> set commands. length (clResults cl) \<le> pcResult c" by auto
    ultimately show thesis
      using batch [of cl1 k commands] n k Inr assms(1) by (simp add: queueServiceAdmissionRevocations_def)
  qed
qed

end
