(* ===== verification/Queue_Runs.thy ===== *)
theory Queue_Runs
  imports Queue_Properties
begin

text \<open>
  Runs of the queue: every operation is one step (the code holds \<open>commandMu\<close> while it
  changes the map and the store; a sending is a step for each command), in any order and with any answers of the operating
  system, the clock, the random source and the Relay.
\<close>

section \<open>Steps\<close>

inductive queue_step :: "privateControlClient \<Rightarrow> privateControlClient \<Rightarrow> bool" where
  submit_batch: "queueServiceAdmissionRevocations env raws requests cl = (e, cl') \<Longrightarrow>
     \<forall>r \<in> set requests. rqDenyUntil r < 2 ^ 63 \<Longrightarrow> queue_step cl cl'"
| submit_one: "queueServiceAdmissionRevocation env raw request cl = (q, cl') \<Longrightarrow>
     rqDenyUntil request < 2 ^ 63 \<Longrightarrow> queue_step cl cl'"
| submit_wait: "submit_revocation env raw request cl = (p, cl') \<Longrightarrow>
     rqDenyUntil request < 2 ^ 63 \<Longrightarrow> queue_step cl cl'"
| complete: "completePendingCommand env k result cl = (b, cl') \<Longrightarrow> queue_step cl cl'"
| acknowledge: "completePendingAcknowledgement env ack cl = (b, cl') \<Longrightarrow> queue_step cl cl'"
| send: "send_command env now command answers sent cl = (e, out, answers', sent', cl') \<Longrightarrow> queue_step cl cl'"
| notified: "queue_step cl (cl\<lparr>clNotify := snd (chan_recv (clNotify cl))\<rparr>)"
| reordered: "mset p = mset (clPending cl) \<Longrightarrow> queue_step cl (cl\<lparr>clPending := p\<rparr>)"

inductive_cases queue_stepE: "queue_step cl cl'"

lemma one_as_batch:
  "queueServiceAdmissionRevocation env raw request cl = (q, cl') \<Longrightarrow>
   \<exists>e. queueServiceAdmissionRevocations env [raw] [request] cl = (e, cl')"
  by (auto simp: queueServiceAdmissionRevocation_def queueServiceAdmissionRevocations_def
      split: prod.splits sum.splits option.splits)

lemma wait_as_batch:
  "submit_revocation env raw request cl = (p, cl') \<Longrightarrow>
   \<exists>e. queueServiceAdmissionRevocations env [raw] [request] cl = (e, cl')"
  by (auto simp: submit_revocation_def enqueuePendingCommand_def queueServiceAdmissionRevocations_def
      split: prod.splits sum.splits option.splits)

text \<open>Sending changes the client only by completing commands.\<close>

inductive complete_step :: "privateControlClient \<Rightarrow> privateControlClient \<Rightarrow> bool" where
  "completePendingCommand env k result cl = (b, cl') \<Longrightarrow> complete_step cl cl'"

lemma send_command_cases:
  assumes "send_command env now command answers sent cl = (e, out, answers', sent', cl')"
  obtains (skipped) "command_id command \<in> set sent" "e = None" "out = []" "answers' = answers" "sent' = sent" "cl' = cl"
  | (overdue) b x where "command_id command \<notin> set sent" "rvDenyUntil (pcMessage command) \<le> now"
      "completePendingCommand env (command_id command) \<lparr>crAck = zero_ack, crErr = Some DeadlineElapsed\<rparr> cl = ((b, x), cl')"
      "e = map_option SendQueue x" "out = []" "answers' = answers" "sent' = sent"
  | (failed) x where "command_id command \<notin> set sent" "now < rvDenyUntil (pcMessage command)"
      "e = Some (SendFrame x)" "sent' = sent" "cl' = cl"
  | (sent) "command_id command \<notin> set sent" "now < rvDenyUntil (pcMessage command)" "e = None"
      "writePrivateControlFrame answers (enc_revocation (pcMessage command)) = (out, None, answers')"
      "sent' = command_id command # sent" "cl' = cl"
proof (cases "command_id command \<in> set sent")
  case True
  show thesis by (rule skipped [OF True]) (use assms True in \<open>simp_all add: send_command_def\<close>)
next
  case new: False
  show thesis
  proof (cases "rvDenyUntil (pcMessage command) \<le> now")
    case True
    obtain b x cl1 where "completePendingCommand env (command_id command)
        \<lparr>crAck = zero_ack, crErr = Some DeadlineElapsed\<rparr> cl = ((b, x), cl1)" by (metis prod.collapse)
    note c = this
    show thesis
    proof (rule overdue [OF new True])
      show "completePendingCommand env (command_id command) \<lparr>crAck = zero_ack, crErr = Some DeadlineElapsed\<rparr> cl = ((b, x), cl')"
        using assms new True c by (cases x) (simp_all add: send_command_def)
      show "e = map_option SendQueue x" "out = []" "answers' = answers" "sent' = sent"
        using assms new True c by (cases x, simp_all add: send_command_def)+
    qed
  next
    case False
    obtain o1 x a1 where "writePrivateControlFrame answers (enc_revocation (pcMessage command)) = (o1, x, a1)"
      by (metis prod.collapse)
    note w = this
    from False have d: "now < rvDenyUntil (pcMessage command)" by simp
    show thesis
    proof (cases x)
      case None
      show thesis by (rule sent [OF new d]) (use assms new False w None in \<open>simp_all add: send_command_def\<close>)
    next
      case (Some y)
      show thesis by (rule failed [OF new d, of y]) (use assms new False w Some in \<open>simp_all add: send_command_def\<close>)
    qed
  qed
qed

lemma send_command_completes:
  "send_command env now command answers sent cl = (e, out, answers', sent', cl') \<Longrightarrow> cl' = cl \<or> complete_step cl cl'"
  by (auto elim!: send_command_cases intro: complete_step.intros)

lemma send_commands_cases:
  assumes "send_commands envs between now (command # commands) answers sent cl = (e, out, answers', sent', cl')"
  obtains (stopped) x where "e = Some x"
      "send_command (envs (length commands)) now command answers sent (between (length commands) cl)
       = (Some x, out, answers', sent', cl')"
  | (went_on) out1 answers1 sent1 cl1 out2 where
      "send_command (envs (length commands)) now command answers sent (between (length commands) cl)
       = (None, out1, answers1, sent1, cl1)"
      "send_commands envs between now commands answers1 sent1 cl1 = (e, out2, answers', sent', cl')" "out = out1 @ out2"
  using assms by (auto split: prod.splits option.splits)

section \<open>The invariant holds throughout\<close>

lemma complete_inv: "queue_inv cl \<Longrightarrow> complete_step cl cl' \<Longrightarrow> queue_inv cl'"
  by (auto elim!: complete_step.cases elim: complete_cases dest: finish_inv)

lemma ack_inv: "queue_inv cl \<Longrightarrow> completePendingAcknowledgement env a cl = ((b, e), cl') \<Longrightarrow> queue_inv cl'"
  by (auto elim!: ack_cases dest: finish_inv)

lemma batch_inv:
  assumes "queue_inv cl" and "queueServiceAdmissionRevocations env raws requests cl = (e, cl')"
    and "\<forall>r \<in> set requests. rqDenyUntil r < 2 ^ 63"
  shows "queue_inv cl'"
  using assms(2,1,3)
proof (cases rule: queue_revocations_cases)
  case (refused k)
  then show ?thesis using queue_inv_alloc [OF assms(1)] by simp
next
  case (batch k commands cl1)
  then show ?thesis using enqueue_inv by blast
qed

lemma queue_step_inv: "queue_step cl cl' \<Longrightarrow> queue_inv cl \<Longrightarrow> queue_inv cl'"
proof (induction rule: queue_step.induct)
  case (submit_one env raw request cl q cl')
  then show ?case using one_as_batch batch_inv by (metis empty_iff insert_iff list.set)
next
  case (submit_wait env raw request cl p cl')
  then show ?case using wait_as_batch batch_inv by (metis empty_iff insert_iff list.set)
next
  case (complete env k result cl b cl')
  then show ?case using complete_inv complete_step.intros by blast
next
  case (acknowledge env ack cl b cl')
  then show ?case using ack_inv by (metis prod.collapse)
next
  case (send env now command answers sent cl e out answers' sent' cl')
  then show ?case using send_command_completes complete_inv by blast
next
  case (notified cl)
  then show ?case
    by (auto simp: queue_inv_def awaiting_def chan_recv_def result_chan_ok_def split: list.split)
next
  case (reordered p cl)
  then show ?case using queue_inv_permute [of cl p "clDisk cl"] by simp
qed (use batch_inv in blast)

text \<open>The queue is a bounded table in the sense of the prelude.\<close>

interpretation queue_table: bounded_table queue_step queue_inv clPending privateControlMaxPendingCommands
  by unfold_locales (blast intro: queue_step_inv, simp_all add: queue_inv_def pending_ok_def)

section \<open>Every result is delivered once\<close>

definition delivers :: "privateControlClient \<Rightarrow> privateControlClient \<Rightarrow> bool" where
  "delivers cl cl' \<longleftrightarrow> length (clResults cl) \<le> length (clResults cl')
     \<and> (\<forall>n < length (clResults cl).
          if awaiting cl n
          then awaiting cl' n \<and> clResults cl' ! n = make_chan 1
             \<or> \<not> awaiting cl' n \<and> (\<exists>r. chanBuf (clResults cl' ! n) = [r])
          else \<not> awaiting cl' n \<and> clResults cl' ! n = clResults cl ! n)"

lemma delivers_trans: "delivers a b \<Longrightarrow> delivers b c \<Longrightarrow> delivers a c"
  unfolding delivers_def by (smt (verit) order_less_le_trans order_trans)

lemma delivers_same:
  assumes "queue_inv cl" and "\<And>n. awaiting cl' n = awaiting cl n" and "clResults cl' = clResults cl"
  shows "delivers cl cl'"
  using assms by (auto simp: delivers_def queue_inv_def)

lemma delivers_refl: "queue_inv cl \<Longrightarrow> delivers cl cl"
  by (rule delivers_same) simp_all

lemma awaiting_permute: "mset q = mset (clPending cl) \<Longrightarrow> awaiting (cl\<lparr>clPending := q, clDisk := dk\<rparr>) n = awaiting cl n"
  by (auto simp: awaiting_def dest: mset_eq_setD)

lemma finish_delivers:
  assumes inv: "queue_inv cl" and c: "mget (clPending cl) k = Some c"
    and "finish_command env k c r cl = ((completed, e), cl')"
  shows "delivers cl cl'"
  using assms(3)
proof (cases rule: finish_cases)
  case (finished dk)
  have a: "awaiting cl (pcResult c)" using c by (force simp: awaiting_def dest: map_of_SomeD)
  then have n: "pcResult c < length (clResults cl)" "clResults cl ! pcResult c = make_chan 1"
    using inv by (simp_all add: queue_inv_def)
  have aw: "awaiting cl' m \<longleftrightarrow> awaiting cl m \<and> m \<noteq> pcResult c" for m
    unfolding finished(3) by (rule awaiting_mdel [OF inv c])
  have m: "awaiting cl m \<Longrightarrow> clResults cl ! m = make_chan 1" for m
    using inv by (simp add: queue_inv_def)
  show ?thesis
    unfolding delivers_def aw unfolding finished(3)
    using a n m by (auto simp: nth_list_update)
next
  case (kept dk)
  have "mset (mdel k (clPending cl) @ [(k, c)]) = mset (clPending cl)"
    using inv mset_mdel [OF _ c] by (simp add: queue_inv_def pending_ok_def)
  then show ?thesis
    using kept(3) awaiting_permute by (intro delivers_same [OF inv]) simp_all
qed

lemma complete_delivers: "queue_inv cl \<Longrightarrow> complete_step cl cl' \<Longrightarrow> delivers cl cl'"
  by (auto elim!: complete_step.cases elim: complete_cases dest: finish_delivers delivers_refl)

lemma enqueue_delivers:
  assumes "enqueuePendingCommands env commands cl = (e, cl')"
    and old: "\<forall>c \<in> set commands. n \<le> pcResult c"
  shows "(\<forall>m < n. awaiting cl' m = awaiting cl m) \<and> clResults cl' = clResults cl"
  using assms(1)
proof (cases rule: enqueue_cases)
  case (queued dk)
  then show ?thesis using old by (auto simp: awaiting_def image_Un image_image)
qed (auto simp: awaiting_def)

lemma batch_delivers:
  assumes inv: "queue_inv cl" and "queueServiceAdmissionRevocations env raws requests cl = (e, cl')"
    and "\<forall>r \<in> set requests. rqDenyUntil r < 2 ^ 63"
  shows "delivers cl cl'"
proof -
  have m: "awaiting cl m \<Longrightarrow> clResults cl ! m = make_chan 1" for m
    using inv by (simp add: queue_inv_def)
  show ?thesis
    using assms(2,1,3)
  proof (cases rule: queue_revocations_cases)
    case (refused k)
    then show ?thesis using m by (auto simp: delivers_def awaiting_def nth_append)
  next
    case (batch k commands cl1)
    have "awaiting cl1 m = awaiting cl m" for m using batch(1) by (simp add: awaiting_def)
    then show ?thesis
      using m enqueue_delivers [OF batch(6,5)] batch(1) by (auto simp: delivers_def nth_append)
  qed
qed

lemma queue_step_delivers: "queue_step cl cl' \<Longrightarrow> queue_inv cl \<Longrightarrow> delivers cl cl'"
proof (induction rule: queue_step.induct)
  case (submit_one env raw request cl q cl')
  then show ?case using one_as_batch batch_delivers by (metis empty_iff insert_iff list.set)
next
  case (submit_wait env raw request cl p cl')
  then show ?case using wait_as_batch batch_delivers by (metis empty_iff insert_iff list.set)
next
  case (complete env k result cl b cl')
  then show ?case using complete_delivers complete_step.intros by blast
next
  case (acknowledge env ack cl b cl')
  then obtain b1 e where "completePendingAcknowledgement env ack cl = ((b1, e), cl')" by (metis prod.collapse)
  then show ?case
    using acknowledge(2) by (auto elim!: ack_cases dest: finish_delivers delivers_refl)
next
  case (send env now command answers sent cl e out answers' sent' cl')
  then show ?case using send_command_completes complete_delivers delivers_refl by blast
next
  case (notified cl)
  then show ?case by (rule delivers_same) (simp_all add: awaiting_def)
next
  case (reordered p cl)
  then show ?case
    using awaiting_permute [of p cl "clDisk cl"] by (intro delivers_same) simp_all
qed (use batch_delivers in blast)

lemma queue_run_delivers: "queue_step\<^sup>*\<^sup>* cl cl' \<Longrightarrow> queue_inv cl \<Longrightarrow> delivers cl cl'"
proof (induction rule: rtranclp_induct)
  case (step b c)
  then show ?case using queue_table.run_inv queue_step_delivers delivers_trans by blast
qed (rule delivers_refl)

section \<open>What is opened satisfies the invariant\<close>

lemma field_keeps_deny:
  assumes "(n, f) \<in> set fields_revocation" and "f v s = Some s'" and "rvDenyUntil s < 2 ^ 63"
  shows "rvDenyUntil s' < 2 ^ 63"
  using assms dec_int64_range [of v "rvDenyUntil s"]
  by (auto simp: fields_revocation_def field_def)

lemma dec_revocation_deny:
  "dec_struct fields_revocation strict v s = Some s' \<Longrightarrow> rvDenyUntil s < 2 ^ 63 \<Longrightarrow> rvDenyUntil s' < 2 ^ 63"
  by (rule dec_struct_keeps [where P = "\<lambda>s. rvDenyUntil s < 2 ^ 63"]) (use field_keeps_deny in blast)

abbreviation commands_deny :: "privateControlPersistedCommands \<Rightarrow> bool" where
  "commands_deny s \<equiv> (\<forall>cs. psCommands s = Some cs \<longrightarrow> list_all (\<lambda>c. rvDenyUntil c < 2 ^ 63) cs)"

lemma dec_commands_deny:
  assumes "dec_slice zero_revocation (dec_struct fields_revocation True) v old = Some r"
    and "\<forall>cs. old = Some cs \<longrightarrow> list_all (\<lambda>c. rvDenyUntil c < 2 ^ 63) cs"
  shows "\<forall>cs. r = Some cs \<longrightarrow> list_all (\<lambda>c. rvDenyUntil c < 2 ^ 63) cs"
proof (intro allI impI)
  fix cs assume r: "r = Some cs"
  have z: "rvDenyUntil zero_revocation < 2 ^ 63" by (simp add: zero_revocation_def)
  have o: "list_all (\<lambda>c. rvDenyUntil c < 2 ^ 63) (case old of None \<Rightarrow> [] | Some xs \<Rightarrow> xs)"
    using assms(2) by (auto split: option.split)
  obtain vs where "dec_elems zero_revocation (dec_struct fields_revocation True) vs
      (case old of None \<Rightarrow> [] | Some xs \<Rightarrow> xs) = Some cs"
    using assms(1) r by (auto simp: dec_slice_def split: json.splits)
  then show "list_all (\<lambda>c. rvDenyUntil c < 2 ^ 63) cs"
    by (rule dec_elems_keeps [where P = "\<lambda>c. rvDenyUntil c < 2 ^ 63", rotated]) (use z o dec_revocation_deny in blast)+
qed

lemma field_keeps_commands:
  assumes "(n, f) \<in> set fields_persisted" and "f v s = Some s'" and "commands_deny s"
  shows "commands_deny s'"
  using assms dec_commands_deny [of v "psCommands s"]
  by (auto simp: fields_persisted_def field_def)

lemma load_store_deny:
  assumes "load_store env dk = Inr cs"
  shows "list_all (\<lambda>c. rvDenyUntil c < 2 ^ 63) cs"
proof (cases "dkStore dk")
  case None
  then show ?thesis using assms by (simp add: load_store_def split: if_splits)
next
  case (Some data)
  then obtain v st where "dec_struct fields_persisted True v zero_persisted = Some st" "psCommands st = Some cs"
    using assms by (auto simp: load_store_def split: if_splits option.splits prod.splits)
  moreover have "commands_deny zero_persisted" by (simp add: zero_persisted_def)
  moreover have "dec_struct fields_persisted True v zero_persisted = Some st \<Longrightarrow>
      commands_deny zero_persisted \<Longrightarrow> commands_deny st"
    by (rule dec_struct_keeps [where P = commands_deny]) (use field_keeps_commands in blast)
  ultimately show ?thesis by blast
qed

text \<open>The commands loaded, with the channels numbered in the order they were made.\<close>

definition loading_ok :: "pending \<Rightarrow> nat \<Rightarrow> bool" where
  "loading_ok pend n \<longleftrightarrow> gomap_ok pend \<and> map (pcResult \<circ> snd) pend = [0..<n]
     \<and> (\<forall>k c. (k, c) \<in> set pend \<longrightarrow> k = command_id c \<and> command_ok (pcMessage c))"

lemma load_pending_inv:
  assumes "load_pending now cs pend expired n = Inr (pend', expired', n')"
    and "loading_ok pend n" and "list_all (\<lambda>c. rvDenyUntil c < 2 ^ 63) cs"
  shows "loading_ok pend' n'"
  using assms
proof (induction now cs pend expired n rule: load_pending.induct)
  case (2 now c cs pend expired n)
  let ?c = "\<lparr>pcMessage = c, pcResult = n\<rparr>"
  show ?case
  proof (cases "rvDenyUntil c \<le> now")
    case True
    then show ?thesis using 2 by (simp split: if_splits)
  next
    case False
    have c: "validPrivateControlRevocation c" "\<not> mhas pend (rvMessageID c)" using "2.prems"(1) by (auto split: if_splits)
    have "loading_ok (mput (rvMessageID c) ?c pend) (Suc n)"
      using "2.prems"(2,3) c by (auto simp: loading_ok_def mput_new command_ok_def gomap_ok_def mhas_dom)
    then show ?thesis using "2.IH"(2) "2.prems" c False by simp
  qed
qed simp

lemma open_inv:
  assumes "openPrivateControlCommandStore env f now dk = (Inr (file, pend, n), dk')"
  shows "pending_ok pend \<and> map (pcResult \<circ> snd) pend = [0..<n]"
proof -
  obtain cs ex where l: "load_store env dk = Inr cs" "load_pending now cs [] False 0 = Inr (pend, ex, n)"
    and len: "mlen pend \<le> privateControlMaxPendingCommands"
    using assms by (auto simp: openPrivateControlCommandStore_def Let_def
        split: if_splits sum.splits prod.splits option.splits)
  have "loading_ok [] 0" by (simp add: loading_ok_def)
  then have "loading_ok pend n" using load_pending_inv [OF l(2)] load_store_deny [OF l(1)] by blast
  then show ?thesis using len by (simp add: loading_ok_def pending_ok_def)
qed

lemma new_client_inv:
  assumes "newPrivateControlClient files env now config dk = (Inr cl, dk')"
  shows "queue_inv cl"
proof -
  obtain f pend n dk1 tls where o: "openPrivateControlCommandStore env (cfCommandStoreFile config) now dk = (Inr (f, pend, n), dk1)"
    and cl: "cl = \<lparr>clConfig = config, clTLS = tls, clPending = pend, clStore = True,
                clNotify = make_chan 1, clResults = replicate n (make_chan 1), clDisk = dk1\<rparr>"
    using assms by (auto simp: newPrivateControlClient_def Let_def split: if_splits sum.splits prod.splits option.splits)
  note op = open_inv [OF o]
  have "(pcResult \<circ> snd) ` set pend = set [0..<n]" using op by (metis set_map)
  then show ?thesis
    using op by (simp add: queue_inv_def cl awaiting_def)
qed

section \<open>Samples\<close>

definition sample_config :: privateControlClientConfig where
  "sample_config = \<lparr>cfTransport = ''uds'', cfRelayAddress = [], cfUdsSocketPath = ''/s'', cfServerName = [],
     cfServiceID = ''rec'', cfCertificateFile = [], cfPrivateKeyFile = [], cfRelayCAFile = [],
     cfCommandStoreFile = ''f''\<rparr>"

definition new_client :: privateControlClient where
  "new_client = \<lparr>clConfig = sample_config, clTLS = None, clPending = [], clStore = True,
     clNotify = make_chan 1, clResults = [], clDisk = empty_disk\<rparr>"

definition sample_client :: privateControlClient where
  "sample_client = new_client\<lparr>clPending := sample_pending, clResults := [make_chan 1]\<rparr>"

definition sample_request :: managementServiceAdmissionRevocationRequest where
  "sample_request = \<lparr>rqChannelID = 7, rqServiceID = ''rec'', rqGrantIDHash = [],
     rqReason = ''acl_removed'', rqDenyUntil = 5000\<rparr>"

lemma trim_f: "trim_space ''f'' = ''f''"
  by (rule trim_space_visible) (simp_all add: visible_def)

lemma new_client_made: "newPrivateControlClient files good_env now sample_config empty_disk = (Inr new_client, empty_disk)"
  by (simp add: newPrivateControlClient_def sample_config_def openPrivateControlCommandStore_def Let_def trim_f
      load_store_def good_env_def empty_disk_def new_client_def validManagementServiceID_def
      privateControlServiceIDPattern_def service_id_char_def is_alnum_def is_digit_def is_lower_def
      privateControlTransportMTLSTCP_def privateControlTransportUDS_def is_abs_def)

lemma sample_client_inv: "queue_inv sample_client"
  using sample_pending_ok
  by (simp add: queue_inv_def sample_client_def new_client_def awaiting_def sample_pending_def)

lemma sample_message: "command_of sample_request \<lparr>pcMessage = sample_command, pcResult = n\<rparr>"
  by (simp add: command_of_def sample_request_def sample_command_def)

section \<open>What a session writes\<close>

definition frame_of :: "json \<Rightarrow> string" where
  "frame_of v = put_be32 (length (json_print v)) @ json_print v"

lemma write_frame_done: "writePrivateControlFrame answers v = (out, None, answers') \<Longrightarrow> out = frame_of v"
  by (auto simp: writePrivateControlFrame_def frame_of_def Let_def split: if_splits prod.splits option.splits
      dest!: write_bytes_done)

text \<open>The commands of a list still to be sent, and those whose time is over.\<close>

definition unsent ::
  "int \<Rightarrow> string list \<Rightarrow> privateControlPendingCommand list \<Rightarrow> privateControlPendingCommand list" where
  "unsent now sent cs = filter (\<lambda>c. command_id c \<notin> set sent \<and> now < rvDenyUntil (pcMessage c)) cs"

definition overdue ::
  "int \<Rightarrow> string list \<Rightarrow> privateControlPendingCommand list \<Rightarrow> privateControlPendingCommand list" where
  "overdue now sent cs = filter (\<lambda>c. command_id c \<notin> set sent \<and> rvDenyUntil (pcMessage c) \<le> now) cs"

lemma unsent_simps [simp]: "unsent now sent [] = []"
  "unsent now sent (c # cs) = (if command_id c \<notin> set sent \<and> now < rvDenyUntil (pcMessage c)
     then c # unsent now sent cs else unsent now sent cs)"
  by (simp_all add: unsent_def)

lemma overdue_simps [simp]: "overdue now sent [] = []"
  "overdue now sent (c # cs) = (if command_id c \<notin> set sent \<and> rvDenyUntil (pcMessage c) \<le> now
     then c # overdue now sent cs else overdue now sent cs)"
  by (simp_all add: overdue_def)

lemma sent_irrelevant: "k \<notin> command_id ` set cs \<Longrightarrow>
    unsent now (k # sent) cs = unsent now sent cs \<and> overdue now (k # sent) cs = overdue now sent cs"
  by (induction cs) auto

definition deadline_result :: privateControlCommandResult where
  "deadline_result = \<lparr>crAck = zero_ack, crErr = Some DeadlineElapsed\<rparr>"

lemma complete_done:
  assumes "completePendingCommand env k r cl = ((b, None), cl1)" and "queue_inv cl"
    and c: "mget (clPending cl) k = Some c"
  shows "queue_inv cl1" "\<And>k'. mget (clPending cl1) k' = (if k' = k then None else mget (clPending cl) k')"
    "pcResult c < length (clResults cl1)" "chanBuf (clResults cl1 ! pcResult c) = [r]" "\<not> awaiting cl1 (pcResult c)"
proof -
  have f: "finish_command env k c r cl = ((b, None), cl1)"
    using assms(1) c by (simp add: completePendingCommand_def)
  show "queue_inv cl1" using finish_inv [OF assms(2) c f] .
  from f obtain dk where cl1: "cl1 = cl\<lparr>clPending := mdel k (clPending cl), clDisk := dk,
                clResults := (clResults cl)[pcResult c := chan_offer r (clResults cl ! pcResult c)]\<rparr>"
    by (cases rule: finish_cases) auto
  show "mget (clPending cl1) k' = (if k' = k then None else mget (clPending cl) k')" for k'
    by (simp add: cl1 mget_del)
  have "awaiting cl (pcResult c)" using c by (force simp: awaiting_def dest: map_of_SomeD)
  then have n: "pcResult c < length (clResults cl)" "clResults cl ! pcResult c = make_chan 1"
    using assms(2) by (simp_all add: queue_inv_def)
  then show "pcResult c < length (clResults cl1)" "chanBuf (clResults cl1 ! pcResult c) = [r]"
    by (simp_all add: cl1)
  show "\<not> awaiting cl1 (pcResult c)" unfolding cl1 awaiting_mdel [OF assms(2) c] by simp
qed

text \<open>What a successful send of \<open>cs\<close> does.\<close>

definition send_effect ::
  "int \<Rightarrow> string list \<Rightarrow> privateControlPendingCommand list \<Rightarrow> privateControlClient
   \<Rightarrow> string \<Rightarrow> string list \<Rightarrow> privateControlClient \<Rightarrow> bool" where
  "send_effect now sent cs cl out sent' cl' \<longleftrightarrow>
     out = concat (map (frame_of \<circ> enc_revocation \<circ> pcMessage) (unsent now sent cs))
     \<and> set sent' = set sent \<union> command_id ` set (unsent now sent cs)
     \<and> (\<forall>k. mget (clPending cl') k =
          (if k \<in> command_id ` set (overdue now sent cs) then None else mget (clPending cl) k))
     \<and> (\<forall>c \<in> set (overdue now sent cs). chanBuf (clResults cl' ! pcResult c) = [deadline_result])"

lemma send_effect_skip:
  "command_id c \<in> set sent \<Longrightarrow> send_effect now sent (c # cs) cl out sent' cl' = send_effect now sent cs cl out sent' cl'"
  by (simp add: send_effect_def)

lemma send_effect_send:
  assumes "command_id c \<notin> set sent" and "now < rvDenyUntil (pcMessage c)" and "command_id c \<notin> command_id ` set cs"
    and "send_effect now (command_id c # sent) cs cl out sent' cl'"
  shows "send_effect now sent (c # cs) cl (frame_of (enc_revocation (pcMessage c)) @ out) sent' cl'"
  using assms sent_irrelevant [OF assms(3), of now sent] by (simp add: send_effect_def)

lemma send_effect_overdue:
  assumes "command_id c \<notin> set sent" and "rvDenyUntil (pcMessage c) \<le> now"
    and "\<And>k. mget (clPending cl1) k = (if k = command_id c then None else mget (clPending cl) k)"
    and "chanBuf (clResults cl' ! pcResult c) = [deadline_result]"
    and "send_effect now sent cs cl1 out sent' cl'"
  shows "send_effect now sent (c # cs) cl out sent' cl'"
  using assms by (simp add: send_effect_def)

text \<open>While nothing else happens, sending is a run of the queue; with the others it is one of theirs.\<close>

lemma send_commands_run:
  "send_commands envs between now commands answers sent cl = (e, out, answers', sent', cl') \<Longrightarrow>
   \<forall>n c. queue_step\<^sup>*\<^sup>* c (between n c) \<Longrightarrow> queue_step\<^sup>*\<^sup>* cl cl'"
proof (induction commands arbitrary: answers sent cl out)
  case (Cons command commands)
  let ?cl = "between (length commands) cl"
  have o: "queue_step\<^sup>*\<^sup>* cl ?cl" using Cons.prems(2) by blast
  from Cons.prems(1) show ?case
  proof (cases rule: send_commands_cases)
    case (stopped x)
    then show ?thesis using o send by (metis rtranclp.rtrancl_into_rtrancl)
  next
    case (went_on out1 answers1 sent1 cl1 out2)
    then show ?thesis
      using o send Cons.IH [OF went_on(2) Cons.prems(2)] by (meson converse_rtranclp_into_rtranclp rtranclp_trans)
  qed
qed simp

lemma send_run:
  "sendPendingCommands envs between now answers sent cl = (e, out, answers', sent', cl') \<Longrightarrow>
   \<forall>n c. queue_step\<^sup>*\<^sup>* c (between n c) \<Longrightarrow> queue_step\<^sup>*\<^sup>* cl cl'"
  unfolding sendPendingCommands_def by (rule send_commands_run)

lemma send_commands_out:
  assumes "send_commands envs between now commands answers sent cl = (None, out, answers', sent', cl')"
    and "distinct (map command_id commands)"
  shows "out = concat (map (frame_of \<circ> enc_revocation \<circ> pcMessage) (unsent now sent commands))
     \<and> set sent' = set sent \<union> command_id ` set (unsent now sent commands)"
  using assms
proof (induction commands arbitrary: answers sent cl out)
  case (Cons command commands)
  have k: "command_id command \<notin> command_id ` set commands" and d: "distinct (map command_id commands)"
    using Cons.prems(2) by simp_all
  from Cons.prems(1) show ?case
  proof (cases rule: send_commands_cases)
    case (went_on out1 answers1 sent1 cl1 out2)
    note IH = Cons.IH [OF went_on(2) d]
    from went_on(1) show ?thesis
    proof (cases rule: send_command_cases)
      case sent
      then show ?thesis
        using IH went_on(3) write_frame_done [OF sent(4)] sent_irrelevant [OF k, of now sent] by simp
    qed (use IH went_on(3) in auto)
  qed simp
qed simp

lemma send_commands_done:
  assumes "send_commands envs (\<lambda>_. id) now commands answers sent cl = (None, out, answers', sent', cl')"
    and "queue_inv cl" and "distinct (map command_id commands)"
    and "\<forall>c \<in> set commands. mget (clPending cl) (command_id c) = Some c"
  shows "send_effect now sent commands cl out sent' cl'"
  using assms
proof (induction commands arbitrary: answers sent cl out)
  case Nil
  then show ?case by (simp add: send_effect_def)
next
  case (Cons command commands)
  let ?k = "command_id command"
  have k: "?k \<notin> command_id ` set commands" and d: "distinct (map command_id commands)"
    and cmd: "mget (clPending cl) ?k = Some command"
    using Cons.prems(3,4) by simp_all
  from Cons.prems(1) show ?case
  proof (cases rule: send_commands_cases)
    case (went_on out1 answers1 sent1 cl1 out2)
    from went_on(1) show ?thesis
    proof (cases rule: send_command_cases)
      case skipped
      then show ?thesis using Cons.IH [OF went_on(2)] Cons.prems(2,4) d went_on(3) by (simp add: send_effect_skip)
    next
      case (overdue b x)
      then have c: "completePendingCommand (envs (length commands)) ?k deadline_result cl = ((b, None), cl1)"
        by (simp add: deadline_result_def)
      note f = complete_done [OF c Cons.prems(2), of command]
      have "\<forall>c \<in> set commands. mget (clPending cl1) (command_id c) = Some c"
        using Cons.prems(4) k f(2) [OF cmd] by (auto simp: image_iff)
      then have IH: "send_effect now sent commands cl1 out sent' cl'"
        using Cons.IH [OF went_on(2) f(1) [OF cmd] d] overdue(5,7) went_on(3) by simp
      have "queue_step\<^sup>*\<^sup>* cl1 cl'" by (rule send_commands_run [OF went_on(2)]) simp
      then have "delivers cl1 cl'" using queue_run_delivers f(1) [OF cmd] by blast
      then have "chanBuf (clResults cl' ! pcResult command) = [deadline_result]"
        using f(3-5) [OF cmd] by (auto simp: delivers_def)
      then show ?thesis using send_effect_overdue [OF overdue(1,2) f(2) [OF cmd] _ IH] by blast
    next
      case sent
      have "send_effect now (?k # sent) commands cl out2 sent' cl'"
        using Cons.IH [OF went_on(2)] Cons.prems(2,4) d sent by simp
      then show ?thesis
        using send_effect_send [OF sent(1,2) k] went_on(3) write_frame_done [OF sent(4)] by simp
    qed simp
  qed simp
qed

lemma pending_distinct:
  assumes "queue_inv cl"
  shows "distinct (map command_id (pendingCommands cl))"
proof -
  have p: "pending_ok (clPending cl)" using assms by (simp add: queue_inv_def)
  then have "map command_id (pendingCommands cl) = map fst (clPending cl)"
    by (auto simp: pendingCommands_def pending_ok_def)
  then show ?thesis using p by (simp add: pending_ok_def gomap_ok_def)
qed

lemma sent_skipped:
  assumes "\<forall>c \<in> set commands. command_id c \<in> set sent"
  shows "send_commands envs (\<lambda>_. id) now commands answers sent cl = (None, [], answers, sent, cl)"
    and "\<exists>cl'. send_commands envs between now commands answers sent cl = (None, [], answers, sent, cl')"
proof -
  show "send_commands envs (\<lambda>_. id) now commands answers sent cl = (None, [], answers, sent, cl)"
    using assms by (induction commands) (simp_all add: send_command_def)
  show "\<exists>cl'. send_commands envs between now commands answers sent cl = (None, [], answers, sent, cl')"
    using assms
  proof (induction commands arbitrary: cl)
    case (Cons command commands)
    from Cons.IH [of "between (length commands) cl"] Cons.prems show ?case by (auto simp: send_command_def)
  qed simp
qed

section \<open>Properties\<close>

text \<open>
  From its construction on, whatever operations the client's queue goes through, there
  are at most 64 pending commands, each valid, filed under its own message identifier and
  with an open, still empty result channel that no other command has.
\<close>

theorem queue_invariant:
  assumes "newPrivateControlClient files env now config dk = (Inr cl0, dk')" and "queue_step\<^sup>*\<^sup>* cl0 cl"
  shows "mlen (clPending cl) \<le> privateControlMaxPendingCommands \<and> gomap_ok (clPending cl)
     \<and> (\<forall>k c. (k, c) \<in> set (clPending cl) \<longrightarrow> k = command_id c \<and> validPrivateControlRevocation (pcMessage c)
          \<and> pcResult c < length (clResults cl) \<and> clResults cl ! pcResult c = make_chan 1)
     \<and> distinct (map (pcResult \<circ> snd) (clPending cl))"
proof -
  have inv: "queue_inv cl" using queue_table.run_inv [OF assms(2) new_client_inv [OF assms(1)]] .
  have "awaiting cl (pcResult c)" if "(k, c) \<in> set (clPending cl)" for k c
    using that by (force simp: awaiting_def)
  with inv show ?thesis
    using queue_table.run_bound [OF assms(2) new_client_inv [OF assms(1)]]
    by (auto simp: queue_inv_def pending_ok_def command_ok_def)
qed

text \<open>
  C15. Whatever happens to the queue between two moments, the result channel of a command
  that was pending is either still empty, its command still pending, or it got exactly one
  result and its command is gone; the channel of a command that was not pending is as it
  was, and its command stays gone.  So each command is answered once.
\<close>

theorem result_delivered_once:
  assumes "queue_inv cl" and "queue_step\<^sup>*\<^sup>* cl cl'" and "n < length (clResults cl)"
  shows "if awaiting cl n
     then awaiting cl' n \<and> chanBuf (clResults cl' ! n) = []
        \<or> \<not> awaiting cl' n \<and> (\<exists>r. chanBuf (clResults cl' ! n) = [r])
     else \<not> awaiting cl' n \<and> clResults cl' ! n = clResults cl ! n"
  using queue_run_delivers [OF assms(2,1)] assms(3) by (auto simp: delivers_def make_chan_def)

text \<open>
  C29. Queueing a batch is all or nothing.  If it fails, the pending commands and the
  notification are as they were; if it succeeds, exactly the commands of the batch are added,
  the store holds them together with those that were pending, and the session is notified.
  It is refused for want of room exactly if more than 64 commands would be pending.
\<close>

theorem enqueue_all_or_nothing:
  assumes "enqueuePendingCommands env commands cl = (e, cl')" and "queue_inv cl"
  shows "clResults cl' = clResults cl
     \<and> (e \<noteq> None \<or> commands = [] \<longrightarrow> clPending cl' = clPending cl \<and> clNotify cl' = clNotify cl)
     \<and> (e = None \<and> commands \<noteq> [] \<longrightarrow>
          clPending cl' = clPending cl @ map (\<lambda>c. (command_id c, c)) commands
          \<and> chanBuf (clNotify cl') \<noteq> []
          \<and> (clStore cl \<longrightarrow> dkStore (clDisk cl') = Some (store_data (clPending cl'))))
     \<and> (e = Some QueueFull \<longleftrightarrow>
          commands \<noteq> [] \<and> privateControlMaxPendingCommands < mlen (clPending cl) + length commands)"
proof -
  have full: "e = Some QueueFull \<longleftrightarrow>
      commands \<noteq> [] \<and> privateControlMaxPendingCommands < mlen (clPending cl) + length commands"
  proof -
    have "check_commands p seen cs \<noteq> Some QueueFull" for p seen cs
      by (induction cs arbitrary: seen) auto
    then show ?thesis
      using assms(1) by (fastforce simp: enqueuePendingCommands_def split: if_splits option.splits prod.splits)
  qed
  from assms(1) show ?thesis
  proof (cases rule: enqueue_cases)
    case (queued dk)
    have "chanBuf (chan_offer () (clNotify cl)) \<noteq> []"
      using assms(2) by (cases "chanBuf (clNotify cl)")
        (auto simp: queue_inv_def result_chan_ok_def chan_offer_def chan_try_send_def)
    moreover have "clStore cl \<longrightarrow> dkStore dk = Some (store_data (clPending cl'))"
      using queued(6) persist_success by blast
    ultimately show ?thesis using queued full by simp
  qed (use full in auto)
qed

text \<open>
  A revocation the queue has accepted survives a crash: a process that opens the store
  afterwards, the system calls working, finds the command of every accepted request whose
  deadline has not passed, and all commands that were pending before.
\<close>

theorem accepted_revocations_survive:
  assumes "queue_inv cl" and "clStore cl" and "\<forall>r \<in> set requests. rqDenyUntil r < 2 ^ 63" and "requests \<noteq> []"
    and "queueServiceAdmissionRevocations env raws requests cl = (None, cl')"
    and "\<And>c. \<not> envFails env' c" and "trim_space filename \<noteq> []"
  shows "\<exists>pend n dk. openPrivateControlCommandStore env' filename now (clDisk cl')
         = (Inr (trim_space filename, pend, n), dk)
     \<and> (\<forall>r \<in> set requests. now < rqDenyUntil r \<longrightarrow> (\<exists>k c. mget pend k = Some c \<and> command_of r c))
     \<and> (\<forall>k c. mget (clPending cl) k = Some c \<and> now < rvDenyUntil (pcMessage c)
          \<longrightarrow> map_option pcMessage (mget pend k) = Some (pcMessage c))"
  using assms(5,1,3)
proof (cases rule: queue_revocations_cases)
  case (batch k commands cl1)
  have store: "clStore cl1" "clPending cl1 = clPending cl" using assms(2) batch(1) by simp_all
  have ne: "commands \<noteq> []" using assms(4) batch(4) by auto
  have inv': "queue_inv cl'" using enqueue_inv [OF batch(2,3,6)] .
  from batch(6) ne obtain dk where
    pend: "clPending cl' = clPending cl @ map (\<lambda>c. (command_id c, c)) commands"
    and disk: "persist env (clPending cl') (clDisk cl1) = (None, clDisk cl')"
    using store by (cases rule: enqueue_cases) auto
  have ok: "pending_ok (clPending cl')" using inv' by (simp add: queue_inv_def)
  obtain pend' n dk2 where
    o: "openPrivateControlCommandStore env' filename now (clDisk cl') = (Inr (trim_space filename, pend', n), dk2)"
    and get: "\<forall>k. map_option pcMessage (mget pend' k) =
          (case mget (clPending cl') k of None \<Rightarrow> None
           | Some c \<Rightarrow> if now < rvDenyUntil (pcMessage c) then Some (pcMessage c) else None)"
    using store_reopen [OF ok disk assms(6,7)] by blast
  have g: "gomap_ok (clPending cl')" using ok by (simp add: pending_ok_def)
  have "\<exists>k c. mget pend' k = Some c \<and> command_of r c" if r: "r \<in> set requests" "now < rqDenyUntil r" for r
  proof -
    obtain c where c: "c \<in> set commands" "command_of r c"
      using batch(4) r(1) by (metis list_all2_conv_all_nth in_set_conv_nth)
    then have "(command_id c, c) \<in> set (clPending cl')" using pend by simp
    then have "mget (clPending cl') (command_id c) = Some c" using mget_in_set [OF g] by blast
    moreover have "now < rvDenyUntil (pcMessage c)" using c(2) r(2) by (simp add: command_of_def)
    ultimately have "map_option pcMessage (mget pend' (command_id c)) = Some (pcMessage c)" using get by simp
    then obtain z where "mget pend' (command_id c) = Some z" "pcMessage z = pcMessage c" by auto
    then show ?thesis using c(2) unfolding command_of_def by metis
  qed
  moreover have "map_option pcMessage (mget pend' k) = Some (pcMessage c)"
    if "mget (clPending cl) k = Some c" "now < rvDenyUntil (pcMessage c)" for k c
    using get that pend by (simp add: map_add_def)
  ultimately show ?thesis using o by blast
qed (use assms(5) in simp)

text \<open>
  An enqueue that fails is not undone on the disk: where the directory cannot be
  synced after the rename, the caller is told of a failure and memory is rolled back, but the
  store already holds the new commands, and the next process sends them.
\<close>

theorem failed_enqueue_stays_on_disk:
  assumes "envFails env = (\<lambda>c. c = SyncDir)" and "\<not> envWindows env" and "clStore cl"
    and "commands \<noteq> []" and "mlen (clPending cl) + length commands \<le> privateControlMaxPendingCommands"
    and "check_commands (clPending cl) [] commands = None"
  shows "\<exists>cl'. enqueuePendingCommands env commands cl = (Some (QueueStore (StoreCall SyncDir)), cl')
     \<and> clPending cl' = clPending cl
     \<and> dkStore (clDisk cl') = Some (store_data (clPending cl @ map (\<lambda>c. (command_id c, c)) commands))"
proof -
  have chk: "\<forall>c \<in> set commands. \<not> mhas (clPending cl) (command_id c)" "distinct (map command_id commands)"
    using assms(6) by (auto simp: check_commands_None)
  have "delete_commands (map (rvMessageID \<circ> pcMessage) commands)
      (clPending cl @ map (\<lambda>c. (command_id c, c)) commands) = clPending cl"
    using delete_commands_added [OF chk] by (simp add: comp_def)
  then show ?thesis
    using assms add_commands_new [OF chk]
    by (simp add: enqueuePendingCommands_def persistPendingLocked_def persist_def persist_calls_def do_call_def
        failed_call_def)
qed

text \<open>
  C30. An acknowledgement completes a command exactly if one is pending under the identifier
  it answers, with the same deadline; otherwise nothing changes.  A completed command is
  pending no longer, the others are, and its channel holds the acknowledgement; if the store
  cannot be written, the command stays pending.
\<close>

theorem acknowledgement_completes:
  assumes "completePendingAcknowledgement env a cl = ((completed, e), cl')" and "queue_inv cl"
  shows "(completed \<longleftrightarrow> (\<exists>c. mget (clPending cl) (akInReplyTo a) = Some c
            \<and> rvDenyUntil (pcMessage c) = akDenyUntil a))
     \<and> (\<not> completed \<longrightarrow> cl' = cl \<and> e = None)
     \<and> (completed \<and> e = None \<longrightarrow>
          (\<forall>k. mget (clPending cl') k = (if k = akInReplyTo a then None else mget (clPending cl) k))
          \<and> (\<exists>c. mget (clPending cl) (akInReplyTo a) = Some c
               \<and> chanBuf (clResults cl' ! pcResult c) = [\<lparr>crAck = a, crErr = None\<rparr>]))
     \<and> (e \<noteq> None \<longrightarrow> (\<forall>k. mget (clPending cl') k = mget (clPending cl) k) \<and> clResults cl' = clResults cl)"
  using assms(1)
proof (cases rule: ack_cases)
  case (found c)
  have "awaiting cl (pcResult c)" using found(1) by (force simp: awaiting_def dest: map_of_SomeD)
  then have n: "pcResult c < length (clResults cl)" "clResults cl ! pcResult c = make_chan 1"
    using assms(2) by (simp_all add: queue_inv_def)
  from found(3) show ?thesis
  proof (cases rule: finish_cases)
    case (finished dk)
    then show ?thesis using found n by (simp add: mget_del)
  next
    case (kept dk)
    have "mget (mdel (akInReplyTo a) (clPending cl) @ [(akInReplyTo a, c)]) k = mget (clPending cl) k" for k
      using found(1) by (auto simp: map_add_def mget_del split: option.split)
    then show ?thesis using found kept by simp
  qed
qed auto

text \<open>
  Commands sent in a session and not acknowledged do not expire in it: whatever the
  time, \<open>sendPendingCommands\<close> does nothing with them, so a Relay that never answers leaves a
  full queue full and every further revocation is refused, long after the deadlines.  What
  the other goroutines do meanwhile does not change what is written and what counts as sent.
\<close>

theorem sent_commands_never_expire:
  assumes "\<forall>k c. (k, c) \<in> set (clPending cl) \<longrightarrow> command_id c \<in> set sent"
    and "mlen (clPending cl) = privateControlMaxPendingCommands" and "commands \<noteq> []"
  shows "sendPendingCommands envs (\<lambda>_. id) now answers sent cl = (None, [], answers, sent, cl)
     \<and> (\<exists>cl'. sendPendingCommands envs between now answers sent cl = (None, [], answers, sent, cl'))
     \<and> enqueuePendingCommands env commands cl = (Some QueueFull, cl)"
proof -
  have "\<forall>c \<in> set (pendingCommands cl). command_id c \<in> set sent"
    using assms(1) by (auto simp: pendingCommands_def)
  then have "send_commands envs (\<lambda>_. id) now (pendingCommands cl) answers sent cl = (None, [], answers, sent, cl)"
    "\<exists>cl'. send_commands envs between now (pendingCommands cl) answers sent cl = (None, [], answers, sent, cl')"
    by (rule sent_skipped)+
  then show ?thesis
    using assms(2,3) by (cases commands) (simp_all add: sendPendingCommands_def enqueuePendingCommands_def)
qed

text \<open>
  If sending succeeds, what the connection got is one frame for each pending command
  not sent before in the session and not yet overdue, in the order of the map, and nothing
  else, whatever the others do meanwhile; those commands count as sent.  If nothing else
  happens, the overdue ones are gone and answered with the deadline error, and every other
  command is still pending.
\<close>

theorem send_writes_each_once:
  assumes "sendPendingCommands envs between now answers sent cl = (None, out, answers', sent', cl')" and "queue_inv cl"
  shows "out = concat (map (frame_of \<circ> enc_revocation \<circ> pcMessage) (unsent now sent (pendingCommands cl)))
     \<and> set sent' = set sent \<union> command_id ` set (unsent now sent (pendingCommands cl))
     \<and> (between = (\<lambda>_. id) \<longrightarrow>
          (\<forall>k. mget (clPending cl') k =
             (if k \<in> command_id ` set (overdue now sent (pendingCommands cl)) then None else mget (clPending cl) k))
          \<and> (\<forall>c \<in> set (overdue now sent (pendingCommands cl)).
               chanBuf (clResults cl' ! pcResult c) = [deadline_result]))"
proof -
  have d: "distinct (map command_id (pendingCommands cl))" by (rule pending_distinct [OF assms(2)])
  have m: "\<forall>c \<in> set (pendingCommands cl). mget (clPending cl) (command_id c) = Some c"
    using assms(2) by (auto simp: queue_inv_def pendingCommands_def pending_ok_def mget_in_set)
  note run = assms(1) [unfolded sendPendingCommands_def]
  have "send_effect now sent (pendingCommands cl) cl out sent' cl'" if "between = (\<lambda>_. id)"
    using send_commands_done [OF run [unfolded that] assms(2) d m] .
  then show ?thesis using send_commands_out [OF run d] by (simp add: send_effect_def)
qed

section \<open>Witnesses\<close>

abbreviation sample_pending_command :: privateControlPendingCommand where
  "sample_pending_command \<equiv> \<lparr>pcMessage = sample_command, pcResult = 0\<rparr>"

abbreviation sample_raw :: string where
  "sample_raw \<equiv> replicate 16 CHR ''a''"

lemma sample_message_id: "rvMessageID sample_command = sample_id"
  by (simp add: sample_command_def)

lemma sample_new: "newPendingRevocation (Some sample_raw) sample_request new_client
    = (Inr sample_pending_command, new_client\<lparr>clResults := [make_chan 1]\<rparr>)"
  using sample_command_ok
  by (simp add: newPendingRevocation_def newPrivateControlID_def sample_request_def sample_command_def
      new_client_def command_ok_def sample_id_def)

lemma sample_enqueue:
  "\<exists>dk. enqueuePendingCommands good_env [sample_pending_command] (new_client\<lparr>clResults := rs\<rparr>)
     = (None, new_client\<lparr>clResults := rs, clPending := sample_pending, clDisk := dk,
          clNotify := chan_offer () (make_chan 1)\<rparr>)"
proof -
  obtain dk where "persist good_env sample_pending empty_disk = (None, dk)" using good_persist by blast
  then show ?thesis
    using sample_command_ok
    by (intro exI [of _ dk]) (simp add: enqueuePendingCommands_def persistPendingLocked_def new_client_def
        command_ok_def privateControlMaxPendingCommands_def sample_pending_def sample_message_id)
qed

lemma sample_submit:
  "\<exists>dk. queueServiceAdmissionRevocations good_env [Some sample_raw] [sample_request] new_client
     = (None, new_client\<lparr>clResults := [make_chan 1], clPending := sample_pending, clDisk := dk,
          clNotify := chan_offer () (make_chan 1)\<rparr>)"
  using sample_enqueue [of "[make_chan 1]"] by (simp add: queueServiceAdmissionRevocations_def sample_new)

lemma sample_deny: "\<forall>r \<in> set [sample_request]. rqDenyUntil r < 2 ^ 63"
  by (simp add: sample_request_def)

lemma new_client_inv': "queue_inv new_client"
  by (rule new_client_inv [OF new_client_made])

lemma queue_invariant_witness:
  "\<exists>cl. queueServiceAdmissionRevocations good_env [Some sample_raw] [sample_request] new_client = (None, cl)
     \<and> clPending cl = sample_pending \<and> mlen (clPending cl) \<le> privateControlMaxPendingCommands"
proof -
  obtain dk where q: "queueServiceAdmissionRevocations good_env [Some sample_raw] [sample_request] new_client
     = (None, new_client\<lparr>clResults := [make_chan 1], clPending := sample_pending, clDisk := dk,
          clNotify := chan_offer () (make_chan 1)\<rparr>)" (is "_ = (None, ?cl)")
    using sample_submit by blast
  have "queue_step\<^sup>*\<^sup>* new_client ?cl"
    using submit_batch [OF q sample_deny] by blast
  from queue_invariant [OF new_client_made this] q show ?thesis by auto
qed

lemma result_delivered_once_witness:
  "\<exists>cl b. completePendingCommand good_env sample_id deadline_result sample_client = (b, cl)
     \<and> awaiting sample_client 0
     \<and> (awaiting cl 0 \<and> chanBuf (clResults cl ! 0) = [] \<or> \<not> awaiting cl 0 \<and> (\<exists>r. chanBuf (clResults cl ! 0) = [r]))"
proof -
  obtain b cl where c: "completePendingCommand good_env sample_id deadline_result sample_client = (b, cl)" by fastforce
  have "awaiting sample_client 0" by (simp add: awaiting_def sample_client_def sample_pending_def)
  moreover have "0 < length (clResults sample_client)" by (simp add: sample_client_def)
  ultimately show ?thesis
    using result_delivered_once [OF sample_client_inv r_into_rtranclp [of queue_step, OF complete [OF c]], of 0] c
    by auto
qed

lemma enqueue_all_or_nothing_witness:
  "\<exists>cl. enqueuePendingCommands good_env [sample_pending_command] (new_client\<lparr>clResults := [make_chan 1]\<rparr>) = (None, cl)
     \<and> clPending cl = [(sample_id, sample_pending_command)]
     \<and> dkStore (clDisk cl) = Some (store_data (clPending cl))"
proof -
  have inv: "queue_inv (new_client\<lparr>clResults := [make_chan 1]\<rparr>)"
    using queue_inv_alloc [OF new_client_inv', of 1] by (simp add: new_client_def)
  obtain cl where e: "enqueuePendingCommands good_env [sample_pending_command]
      (new_client\<lparr>clResults := [make_chan 1]\<rparr>) = (None, cl)"
    using sample_enqueue by blast
  show ?thesis
    using enqueue_all_or_nothing [OF e inv] e by (auto simp: new_client_def sample_message_id)
qed

lemma accepted_revocations_survive_witness:
  "\<exists>cl pend n dk. queueServiceAdmissionRevocations good_env [Some sample_raw] [sample_request] new_client = (None, cl)
     \<and> openPrivateControlCommandStore good_env ''f'' 100 (clDisk cl) = (Inr (''f'', pend, n), dk)
     \<and> (\<exists>k c. mget pend k = Some c \<and> command_of sample_request c)"
proof -
  obtain cl where q: "queueServiceAdmissionRevocations good_env [Some sample_raw] [sample_request] new_client = (None, cl)"
    using sample_submit by blast
  have s: "clStore new_client" and f: "\<not> envFails good_env c" and t: "trim_space ''f'' \<noteq> []" for c
    by (simp_all add: new_client_def good_env_def trim_f)
  have "100 < rqDenyUntil sample_request" by (simp add: sample_request_def)
  then show ?thesis
    using accepted_revocations_survive [OF new_client_inv' s sample_deny _ q f t, of 100] q by (auto simp: trim_f)
qed

lemma failed_enqueue_stays_on_disk_witness:
  "\<exists>cl. enqueuePendingCommands \<lparr>envFails = \<lambda>c. c = SyncDir, envWindows = False, envPart = []\<rparr>
       [sample_pending_command] new_client = (Some (QueueStore (StoreCall SyncDir)), cl)
     \<and> clPending cl = [] \<and> dkStore (clDisk cl) = Some (store_data [(sample_id, sample_pending_command)])"
  using failed_enqueue_stays_on_disk [of "\<lparr>envFails = \<lambda>c. c = SyncDir, envWindows = False, envPart = []\<rparr>"
      new_client "[sample_pending_command]"] sample_command_ok
  by (simp add: new_client_def privateControlMaxPendingCommands_def command_ok_def sample_message_id)

definition sample_ack :: privateControlAck where
  "sample_ack = \<lparr>akSchemaVersion = privateControlSchemaVersion, akType = ''ack'', akMessageID = sample_id,
     akInReplyTo = sample_id, akOutcome = ''applied'', akDenyUntil = 5000, akAffectedMembershipCount = 1,
     akTalkReleaseCount = 0\<rparr>"

lemma sample_client_get: "mget (clPending sample_client) sample_id = Some sample_pending_command"
  by (simp add: sample_client_def sample_pending_def)

lemma acknowledgement_completes_witness:
  "\<exists>cl. completePendingAcknowledgement good_env sample_ack sample_client = ((True, None), cl)
     \<and> mget (clPending cl) sample_id = None
     \<and> chanBuf (clResults cl ! 0) = [\<lparr>crAck = sample_ack, crErr = None\<rparr>]"
proof -
  obtain b e cl where a: "completePendingAcknowledgement good_env sample_ack sample_client = ((b, e), cl)"
    by (metis prod.collapse)
  have "\<exists>dk. persist good_env [] empty_disk = (None, dk)" by (rule good_persist)
  then have "e = None"
    using a sample_client_get
    by (auto simp: completePendingAcknowledgement_def finish_command_def persistPendingLocked_def
        sample_ack_def sample_command_def sample_client_def sample_pending_def new_client_def)
  then show ?thesis
    using acknowledgement_completes [OF a sample_client_inv] a sample_client_get
    by (simp add: sample_ack_def sample_command_def)
qed

definition many_pending :: pending where
  "many_pending = map (\<lambda>i. let k = b64_encode (replicate 15 CHR ''a'' @ [char_of i])
     in (k, \<lparr>pcMessage = sample_command\<lparr>rvMessageID := k\<rparr>, pcResult = i\<rparr>)) [0..<64]"

lemma sent_commands_never_expire_witness:
  "sendPendingCommands (\<lambda>_. good_env) (\<lambda>_. id) 9999999 [] (map fst many_pending) (sample_client\<lparr>clPending := many_pending\<rparr>)
       = (None, [], [], map fst many_pending, sample_client\<lparr>clPending := many_pending\<rparr>)
     \<and> enqueuePendingCommands good_env [sample_pending_command] (sample_client\<lparr>clPending := many_pending\<rparr>)
       = (Some QueueFull, sample_client\<lparr>clPending := many_pending\<rparr>)"
proof -
  let ?cl = "sample_client\<lparr>clPending := many_pending\<rparr>"
  have "\<forall>k c. (k, c) \<in> set (clPending ?cl) \<longrightarrow> command_id c \<in> set (map fst many_pending)"
    by (auto simp: many_pending_def Let_def image_iff)
  moreover have "mlen (clPending ?cl) = privateControlMaxPendingCommands"
    by (simp add: many_pending_def privateControlMaxPendingCommands_def)
  ultimately show ?thesis
    using sent_commands_never_expire [of ?cl "map fst many_pending" "[sample_pending_command]"] by blast
qed

lemma send_writes_each_once_witness:
  "\<exists>answers'. sendPendingCommands (\<lambda>_. good_env) (\<lambda>_. id) 100 [(4, False), (1000, False)] [] sample_client
       = (None, frame_of (enc_revocation sample_command), answers', [sample_id], sample_client)
     \<and> unsent 100 [] (pendingCommands sample_client) = [sample_pending_command]
     \<and> frame_of (enc_revocation sample_command) = concat (map (frame_of \<circ> enc_revocation \<circ> pcMessage)
          (unsent 100 [] (pendingCommands sample_client)))"
proof -
  have p: "pendingCommands sample_client = [sample_pending_command]"
    by (simp add: pendingCommands_def sample_client_def sample_pending_def)
  have len: "length (json_print (enc_revocation sample_command)) \<le> 600"
    by (rule length_print_revocation [OF sample_command_ok])
  obtain c cs where j: "json_print (enc_revocation sample_command) = c # cs" and "2 \<le> length (c # cs)"
    unfolding enc_revocation_def json_print_obj by simp
  have "writePrivateControlBytes [(4, False), (1000, False)] (put_be32 n) = (put_be32 n, None, [(1000, False)])" for n
    by (simp add: put_be32_def)
  moreover have "writePrivateControlBytes [(1000, False)] (c # cs) = (c # cs, None, [])"
    using len unfolding j by simp
  ultimately have w: "writePrivateControlFrame [(4, False), (1000, False)] (enc_revocation sample_command)
      = (frame_of (enc_revocation sample_command), None, [])"
    using len \<open>2 \<le> length (c # cs)\<close> unfolding writePrivateControlFrame_def frame_of_def j Let_def
    by (auto simp: privateControlMaxFrameBytes_def simp del: writePrivateControlBytes.simps)
  have d: "rvDenyUntil sample_command = 5000" by (simp add: sample_command_def)
  have s: "sendPendingCommands (\<lambda>_. good_env) (\<lambda>_. id) 100 [(4, False), (1000, False)] [] sample_client
       = (None, frame_of (enc_revocation sample_command), [], [sample_id], sample_client)"
    unfolding sendPendingCommands_def p by (simp add: send_command_def w d sample_message_id)
  from send_writes_each_once [OF s sample_client_inv] s show ?thesis
    by (simp add: p d)
qed

end
