(* ===== verification/Acl_Reload.thy ===== *)
theory Acl_Reload
  imports Authorizer Queue_Runs
begin

text \<open>
  Reloading the access control files (\<open>management_acl_reload.go\<close>): what the replacement of
  an authorizer takes away is first queued as revocations, and only then adopted.  The
  revoker of the API is the client's command queue, or nil.
\<close>

section \<open>Targets\<close>

record managementAutomaticRevocationTarget =
  atChannelID :: u32
  atServiceID :: string
  atReason :: string

text \<open>In seconds.\<close>

definition managementAPIAutomaticRevocationDenyWindow :: int where
  "managementAPIAutomaticRevocationDenyWindow = 90 * 60"

definition managementAdmissionACLEquivalent ::
  "managementAdmissionACL \<Rightarrow> managementAdmissionACL \<Rightarrow> bool" where
  "managementAdmissionACLEquivalent left right =
     (aclRole left = aclRole right \<and> aclAllowListen left = aclAllowListen right \<and>
      aclAllowTalk left = aclAllowTalk right \<and> aclAllowInterrupt left = aclAllowInterrupt right \<and>
      aclInterruptPriority left = aclInterruptPriority right \<and> aclEnabled left = aclEnabled right)"

definition target_key :: "string \<Rightarrow> u32 \<Rightarrow> string" where
  "target_key serviceID channelID = serviceID @ ''/'' @ word_to_dec channelID"

text \<open>
  The loop over the admissions of one service; \<open>newService\<close> is its replacement, \<open>None\<close> if it
  is not there or not enabled any more.
\<close>

fun admission_targets ::
  "string \<Rightarrow> managementAPIService option \<Rightarrow> (managementAdmissionKey, managementAdmissionACL) gomap
   \<Rightarrow> (string, managementAutomaticRevocationTarget) gomap
   \<Rightarrow> (string, managementAutomaticRevocationTarget) gomap" where
  "admission_targets serviceID newService [] targets = targets"
| "admission_targets serviceID newService ((key, oldACL) # admissions) targets =
     admission_targets serviceID newService admissions
       (if \<not> aclEnabled oldACL then targets
        else
          let reason = (case newService of
                None \<Rightarrow> ''service_disabled''
              | Some new \<Rightarrow>
                  (case mget (svcAdmissions new) key of
                     None \<Rightarrow> ''acl_removed''
                   | Some newACL \<Rightarrow>
                       if \<not> managementAdmissionACLEquivalent oldACL newACL then ''acl_removed'' else []))
          in if reason = [] then targets
             else
               let mapKey = target_key serviceID (fst key)
               in if \<not> mhas targets mapKey \<or> reason = ''service_disabled''
                  then mput mapKey \<lparr>atChannelID = fst key, atServiceID = serviceID, atReason = reason\<rparr> targets
                  else targets)"

fun service_targets ::
  "managementAPIAuthorizer \<Rightarrow> (string, managementAPIService) gomap
   \<Rightarrow> (string, managementAutomaticRevocationTarget) gomap
   \<Rightarrow> (string, managementAutomaticRevocationTarget) gomap" where
  "service_targets replacement [] targets = targets"
| "service_targets replacement ((serviceID, oldService) # services) targets =
     service_targets replacement services
       (if \<not> svcEnabled oldService then targets
        else admission_targets serviceID
          (case mget (auServices replacement) serviceID of
             None \<Rightarrow> None | Some new \<Rightarrow> if svcEnabled new then Some new else None)
          (svcAdmissions oldService) targets)"

definition managementAutomaticRevocations ::
  "managementAPIAuthorizer \<Rightarrow> managementAPIAuthorizer \<Rightarrow> managementAutomaticRevocationTarget list" where
  "managementAutomaticRevocations previous replacement =
     sort_key (\<lambda>t. (atServiceID t, atChannelID t))
       (map snd (service_targets replacement (auServices previous) []))"

section \<open>Durations\<close>

text \<open>
  \<open>time.ParseDuration\<close>, in nanoseconds.  Of a decimal fraction it computes \<open>f * (unit / 10^k)\<close> in
  float64 and truncates; \<open>frac f unit k\<close> stands for that product.
\<close>

fun leading_int :: "string \<Rightarrow> nat \<Rightarrow> (nat \<times> string) option" where
  "leading_int [] x = Some (x, [])"
| "leading_int (c # s) x =
     (if \<not> is_digit c then Some (x, c # s)
      else if 2 ^ 63 div 10 < x then None
      else if 2 ^ 63 < 10 * x + digit_val c then None
      else leading_int s (10 * x + digit_val c))"

fun leading_fraction :: "string \<Rightarrow> nat \<Rightarrow> nat \<Rightarrow> bool \<Rightarrow> nat \<times> nat \<times> string" where
  "leading_fraction [] x k overflow = (x, k, [])"
| "leading_fraction (c # s) x k overflow =
     (if \<not> is_digit c then (x, k, c # s)
      else if overflow \<or> (2 ^ 63 - 1) div 10 < x \<or> 2 ^ 63 < 10 * x + digit_val c
        then leading_fraction s x k True
      else leading_fraction s (10 * x + digit_val c) (Suc k) False)"

definition duration_units :: "(string, nat) gomap" where
  "duration_units =
     [(''ns'', 1), (''us'', 10 ^ 3), ([char_of (0xC2 :: nat), char_of (0xB5 :: nat), CHR ''s''], 10 ^ 3),
      ([char_of (0xCE :: nat), char_of (0xBC :: nat), CHR ''s''], 10 ^ 3), (''ms'', 10 ^ 6), (''s'', 10 ^ 9),
      (''m'', 60 * 10 ^ 9), (''h'', 3600 * 10 ^ 9)]"

definition number_char :: "char \<Rightarrow> bool" where
  "number_char c \<longleftrightarrow> c = CHR ''.'' \<or> is_digit c"

lemma leading_int_length: "leading_int s x = Some (v, r) \<Longrightarrow> length r \<le> length s"
  by (induction s x rule: leading_int.induct) (auto split: if_splits)

lemma leading_fraction_length: "leading_fraction s x k ov = (f, k', r) \<Longrightarrow> length r \<le> length s"
  by (induction s x k ov rule: leading_fraction.induct) (auto split: if_splits)

text \<open>One number with its unit: its nanoseconds and the rest of the text.\<close>

definition next_unit :: "(nat \<Rightarrow> nat \<Rightarrow> nat \<Rightarrow> nat) \<Rightarrow> string \<Rightarrow> (nat \<times> string) option" where
  "next_unit frac s =
     (if s = [] \<or> \<not> number_char (hd s) then None
      else case leading_int s 0 of None \<Rightarrow> None | Some (v, s1) \<Rightarrow>
        (case (if s1 \<noteq> [] \<and> hd s1 = CHR ''.''
               then (case leading_fraction (tl s1) 0 0 False of (f, k, r) \<Rightarrow> (f, k, r, length r \<noteq> length (tl s1)))
               else (0, 0, s1, False)) of (f, k, s2, post) \<Rightarrow>
           let u = takeWhile (\<lambda>c. \<not> number_char c) s2; rest = dropWhile (\<lambda>c. \<not> number_char c) s2
           in if length s1 = length s \<and> \<not> post then None
              else if u = [] then None
              else case mget duration_units u of None \<Rightarrow> None | Some unit \<Rightarrow>
                if 2 ^ 63 div unit < v then None
                else if 0 < f
                  then (if 2 ^ 63 < v * unit + frac f unit k then None else Some (v * unit + frac f unit k, rest))
                else Some (v * unit, rest)))"

lemma next_unit_length:
  assumes "next_unit frac s = Some (v, r)"
  shows "length r < length s"
proof -
  obtain s2 where s2: "length s2 \<le> length s" "takeWhile (\<lambda>c. \<not> number_char c) s2 \<noteq> []"
    "r = dropWhile (\<lambda>c. \<not> number_char c) s2"
  proof -
    obtain v1 s1 where s1: "leading_int s 0 = Some (v1, s1)"
      using assms by (auto simp: next_unit_def split: if_splits option.splits)
    define t where "t = (if s1 \<noteq> [] \<and> hd s1 = CHR ''.''
           then (case leading_fraction (tl s1) 0 0 False of (f, k, r) \<Rightarrow> (f, k, r, length r \<noteq> length (tl s1)))
           else (0, 0, s1, False))"
    obtain f k s2 post where "t = (f, k, s2, post)" by (cases t)
    note q = this [unfolded t_def]
    obtain f' k' r' where lf: "leading_fraction (tl s1) 0 0 False = (f', k', r')" by (metis prod_cases3)
    have "length s2 \<le> length s1"
      using q leading_fraction_length [OF lf] unfolding lf by (auto split: if_splits)
    then have "length s2 \<le> length s" using leading_int_length [OF s1] by simp
    moreover have "takeWhile (\<lambda>c. \<not> number_char c) s2 \<noteq> [] \<and> r = dropWhile (\<lambda>c. \<not> number_char c) s2"
      using assms unfolding next_unit_def s1 option.case prod.case q Let_def
      by (simp split: if_splits option.splits)
    ultimately show thesis using that by blast
  qed
  have "length s2 = length (takeWhile (\<lambda>c. \<not> number_char c) s2) + length r"
    unfolding s2(3) length_append [symmetric] takeWhile_dropWhile_id ..
  then show ?thesis using s2(1,2) by (cases "takeWhile (\<lambda>c. \<not> number_char c) s2") simp_all
qed

function parse_units :: "(nat \<Rightarrow> nat \<Rightarrow> nat \<Rightarrow> nat) \<Rightarrow> string \<Rightarrow> nat \<Rightarrow> nat option" where
  "parse_units frac s d =
     (if s = [] then Some d
      else case next_unit frac s of None \<Rightarrow> None | Some (v, rest) \<Rightarrow>
        if 2 ^ 63 < (d + v) mod 2 ^ 64 then None else parse_units frac rest ((d + v) mod 2 ^ 64))"
  by pat_completeness auto

termination
  by (relation "measure (\<lambda>(frac, s, d). length s)") (auto dest: next_unit_length)

declare parse_units.simps [simp del]

definition parse_duration :: "(nat \<Rightarrow> nat \<Rightarrow> nat \<Rightarrow> nat) \<Rightarrow> string \<Rightarrow> int option" where
  "parse_duration frac s =
     (let neg = (s \<noteq> [] \<and> hd s = CHR ''-'');
          s = (if s \<noteq> [] \<and> (hd s = CHR ''-'' \<or> hd s = CHR ''+'') then tl s else s)
      in if s = ''0'' then Some 0
         else if s = [] then None
         else (case parse_units frac s 0 of
                 None \<Rightarrow> None
               | Some d \<Rightarrow>
                   if neg then Some (- int d)
                   else if 2 ^ 63 - 1 < d then None else Some (int d)))"

text \<open>In nanoseconds, \<open>None\<close> for an error.\<close>

definition parseManagementACLReloadInterval :: "(nat \<Rightarrow> nat \<Rightarrow> nat \<Rightarrow> nat) \<Rightarrow> string \<Rightarrow> int option" where
  "parseManagementACLReloadInterval frac value =
     (let value = trim_space value
      in if value = [] then Some (5 * 10 ^ 9)
         else (case parse_duration frac value of
                 None \<Rightarrow> None
               | Some interval \<Rightarrow>
                   if interval < 10 ^ 9 \<or> 60 * 10 ^ 9 < interval then None else Some interval))"

lemma reload_interval_range:
  "parseManagementACLReloadInterval frac value = Some d \<Longrightarrow> 10 ^ 9 \<le> d \<and> d \<le> 60 * 10 ^ 9"
  by (auto simp: parseManagementACLReloadInterval_def Let_def split: if_splits option.splits)

section \<open>Reloading\<close>

datatype reload_error = ReloadFiles load_error | ReloadNoQueue | ReloadQueue queue_error

definition revocation_request ::
  "int \<Rightarrow> managementAutomaticRevocationTarget \<Rightarrow> managementServiceAdmissionRevocationRequest" where
  "revocation_request denyUntil target =
     \<lparr>rqChannelID = atChannelID target, rqServiceID = atServiceID target, rqGrantIDHash = [],
      rqReason = atReason target, rqDenyUntil = denyUntil\<rparr>"

text \<open>
  The result is the number of revocations or the error, with the authorizer and the queue
  after the call.
\<close>

definition reloadAuthorizer ::
  "environment \<Rightarrow> string option list \<Rightarrow> int \<Rightarrow> string option \<Rightarrow> string option \<Rightarrow> string option
   \<Rightarrow> managementAPIAuthorizer \<Rightarrow> privateControlClient option
   \<Rightarrow> (reload_error + nat) \<times> managementAPIAuthorizer \<times> privateControlClient option" where
  "reloadAuthorizer env raws now servicesFile channelACLFile globalPermissionsFile previous revoker =
     (case loadManagementAPIAuthorizer servicesFile channelACLFile globalPermissionsFile of
        Inl e \<Rightarrow> (Inl (ReloadFiles e), previous, revoker)
      | Inr replacement \<Rightarrow>
          let targets = managementAutomaticRevocations previous replacement
          in if targets = [] then (Inr 0, replacement, revoker)
             else
               (case revoker of
                  None \<Rightarrow> (Inl ReloadNoQueue, previous, revoker)
                | Some client \<Rightarrow>
                    let denyUntil = now + managementAPIAutomaticRevocationDenyWindow
                    in (case queueServiceAdmissionRevocations env raws
                             (map (revocation_request denyUntil) targets) client of
                          (Some e, client') \<Rightarrow> (Inl (ReloadQueue e), previous, Some client')
                        | (None, client') \<Rightarrow> (Inr (length targets), replacement, Some client'))))"

text \<open>The ticks of \<open>runAuthorizerReload\<close>: what each reload meets, and the state after the last.\<close>

record reload_tick =
  rtEnv :: environment
  rtRaws :: "string option list"
  rtNow :: int
  rtServices :: "string option"
  rtChannelACL :: "string option"
  rtPermissions :: "string option"

fun reload_ticks ::
  "reload_tick list \<Rightarrow> managementAPIAuthorizer \<times> privateControlClient option
   \<Rightarrow> managementAPIAuthorizer \<times> privateControlClient option" where
  "reload_ticks [] s = s"
| "reload_ticks (t # ts) s =
     reload_ticks ts (snd (reloadAuthorizer (rtEnv t) (rtRaws t) (rtNow t) (rtServices t) (rtChannelACL t)
       (rtPermissions t) (fst s) (snd s)))"

definition runAuthorizerReload ::
  "int \<Rightarrow> reload_tick list \<Rightarrow> managementAPIAuthorizer \<times> privateControlClient option
   \<Rightarrow> managementAPIAuthorizer \<times> privateControlClient option" where
  "runAuthorizerReload interval ticks s = (if interval = 0 then s else reload_ticks ticks s)"

section \<open>What the targets are\<close>

text \<open>A sender of a channel is admitted for a service with certain permissions.\<close>

definition admitted ::
  "managementAPIAuthorizer \<Rightarrow> string \<Rightarrow> managementAdmissionKey \<Rightarrow> managementAdmissionACL \<Rightarrow> bool" where
  "admitted a sid key acl \<longleftrightarrow> (\<exists>svc. mget (auServices a) sid = Some svc \<and> svcEnabled svc
     \<and> mget (svcAdmissions svc) key = Some acl \<and> aclEnabled acl)"

definition service_enabled :: "managementAPIAuthorizer \<Rightarrow> string \<Rightarrow> bool" where
  "service_enabled a sid \<longleftrightarrow> (\<exists>svc. mget (auServices a) sid = Some svc \<and> svcEnabled svc)"

text \<open>The replacement takes an admission to the channel away from the service, or changes it.\<close>

definition loses :: "managementAPIAuthorizer \<Rightarrow> managementAPIAuthorizer \<Rightarrow> string \<Rightarrow> u32 \<Rightarrow> bool" where
  "loses previous replacement sid channel \<longleftrightarrow>
     (\<exists>sender acl. admitted previous sid (channel, sender) acl \<and> \<not> admitted replacement sid (channel, sender) acl)"

definition target_of :: "managementAPIAuthorizer \<Rightarrow> string \<Rightarrow> u32 \<Rightarrow> managementAutomaticRevocationTarget" where
  "target_of replacement sid channel = \<lparr>atChannelID = channel, atServiceID = sid,
     atReason = (if service_enabled replacement sid then ''acl_removed'' else ''service_disabled'')\<rparr>"

lemma equivalent_eq: "managementAdmissionACLEquivalent left right \<longleftrightarrow> left = right"
  by (cases left; cases right) (auto simp: managementAdmissionACLEquivalent_def)

lemma target_key_inject:
  assumes "validManagementServiceID sid" and "validManagementServiceID sid'"
  shows "target_key sid c = target_key sid' c' \<longleftrightarrow> sid = sid' \<and> c = c'"
  using split_at_sep [of sid "CHR ''/''" "word_to_dec c" sid' "word_to_dec c'"] service_id_no_char(1) [OF assms(1)]
    service_id_no_char(1) [OF assms(2)]
  by (auto simp: target_key_def)

text \<open>The map of targets holds exactly the pairs in \<open>S\<close>, each under its key.\<close>

definition targets_are ::
  "managementAPIAuthorizer \<Rightarrow> (string \<times> u32) set \<Rightarrow> (string, managementAutomaticRevocationTarget) gomap \<Rightarrow> bool" where
  "targets_are replacement S targets \<longleftrightarrow> gomap_ok targets
     \<and> set targets = (\<lambda>(sid, c). (target_key sid c, target_of replacement sid c)) ` S"

definition valid_pairs :: "(string \<times> u32) set \<Rightarrow> bool" where
  "valid_pairs S \<longleftrightarrow> (\<forall>(sid, c) \<in> S. validManagementServiceID sid)"

lemma targets_are_key:
  assumes "targets_are r S t" and "valid_pairs S" and "validManagementServiceID sid"
  shows "mhas t (target_key sid c) \<longleftrightarrow> (sid, c) \<in> S"
proof
  assume "mhas t (target_key sid c)"
  then have "target_key sid c \<in> fst ` set t" by (simp add: mhas_dom)
  then obtain s' c' where p: "(s', c') \<in> S" "target_key sid c = target_key s' c'"
    using assms(1) unfolding targets_are_def by auto
  then have "validManagementServiceID s'" using assms(2) by (auto simp: valid_pairs_def)
  from target_key_inject [OF assms(3) this] p show "(sid, c) \<in> S" by simp
next
  assume "(sid, c) \<in> S"
  then have "(target_key sid c, target_of r sid c) \<in> set t"
    using assms(1) unfolding targets_are_def by auto
  then show "mhas t (target_key sid c)" by (force simp: mhas_dom)
qed

lemma targets_are_add:
  assumes t: "targets_are r S t" and v: "valid_pairs S" "validManagementServiceID sid"
  shows "targets_are r (insert (sid, c) S)
     (if \<not> mhas t (target_key sid c) \<or> P then mput (target_key sid c) (target_of r sid c) t else t)"
proof (cases "mhas t (target_key sid c)")
  case False
  then show ?thesis using t by (auto simp: targets_are_def mput_new gomap_ok_def mhas_dom)
next
  case True
  let ?k = "target_key sid c"
  have S: "insert (sid, c) S = S" using targets_are_key [OF t v] True by blast
  have g: "gomap_ok t" using t by (simp add: targets_are_def)
  have m: "(?k, target_of r sid c) \<in> set t"
    using targets_are_key [OF t v, of c] True t unfolding targets_are_def by auto
  have "\<forall>p \<in> set t. fst p = ?k \<longrightarrow> p = (?k, target_of r sid c)"
    using m g by (metis gomap_ok_def eq_key_imp_eq_value prod.collapse)
  then have "set (mput ?k (target_of r sid c) t) = set t"
    unfolding set_mput [OF g] using m by blast
  then show ?thesis using t g S by (simp add: targets_are_def)
qed

text \<open>The replacement of a service does not admit the sender with these permissions.\<close>

definition lost :: "managementAPIService option \<Rightarrow> managementAdmissionKey \<Rightarrow> managementAdmissionACL \<Rightarrow> bool" where
  "lost new key acl \<longleftrightarrow> (case new of None \<Rightarrow> True | Some s \<Rightarrow> mget (svcAdmissions s) key \<noteq> Some acl)"

abbreviation enabled_service :: "managementAPIAuthorizer \<Rightarrow> string \<Rightarrow> managementAPIService option" where
  "enabled_service a sid \<equiv> (case mget (auServices a) sid of
     None \<Rightarrow> None | Some new \<Rightarrow> if svcEnabled new then Some new else None)"

definition lost_pairs ::
  "string \<Rightarrow> managementAPIService option \<Rightarrow> (managementAdmissionKey, managementAdmissionACL) gomap
   \<Rightarrow> (string \<times> u32) set" where
  "lost_pairs sid new adm =
     (\<lambda>p. (sid, fst (fst p))) ` {p \<in> set adm. aclEnabled (snd p) \<and> lost new (fst p) (snd p)}"

lemma lost_pairs_simps [simp]:
  "lost_pairs sid new [] = {}"
  "lost_pairs sid new (p # adm) = (if aclEnabled (snd p) \<and> lost new (fst p) (snd p)
     then insert (sid, fst (fst p)) (lost_pairs sid new adm) else lost_pairs sid new adm)"
  by (auto simp: lost_pairs_def)

lemma admission_targets_are:
  assumes "targets_are r S t" and "valid_pairs S" and "validManagementServiceID sid"
  shows "targets_are r (S \<union> lost_pairs sid (enabled_service r sid) adm)
     (admission_targets sid (enabled_service r sid) adm t)"
  using assms
proof (induction adm arbitrary: S t)
  case (Cons p adm)
  obtain key acl where p: "p = (key, acl)" by (cases p)
  let ?new = "enabled_service r sid"
  define reason where "reason = (case ?new of None \<Rightarrow> ''service_disabled''
      | Some new \<Rightarrow> (case mget (svcAdmissions new) key of None \<Rightarrow> ''acl_removed''
          | Some newACL \<Rightarrow> if \<not> managementAdmissionACLEquivalent acl newACL then ''acl_removed'' else []))"
  have reason: "reason = (if lost ?new key acl
      then (if service_enabled r sid then ''acl_removed'' else ''service_disabled'') else [])"
    by (auto simp: reason_def lost_def service_enabled_def equivalent_eq split: option.splits)
  show ?case
  proof (cases "aclEnabled acl \<and> lost ?new key acl")
    case False
    then have eq: "admission_targets sid ?new (p # adm) t = admission_targets sid ?new adm t"
      using reason unfolding p reason_def by (simp split: if_splits)
    have "lost_pairs sid ?new (p # adm) = lost_pairs sid ?new adm" using False p by auto
    then show ?thesis unfolding eq using Cons.IH [OF Cons.prems] by (simp only:)
  next
    case True
    have v: "valid_pairs (insert (sid, fst key) S)" using Cons.prems by (auto simp: valid_pairs_def)
    let ?t = "if \<not> mhas t (target_key sid (fst key)) \<or> reason = ''service_disabled''
        then mput (target_key sid (fst key)) (target_of r sid (fst key)) t else t"
    have "target_of r sid (fst key) = \<lparr>atChannelID = fst key, atServiceID = sid, atReason = reason\<rparr>"
      using True reason by (simp add: target_of_def)
    moreover have "reason \<noteq> []" using True reason by simp
    ultimately have eq: "admission_targets sid ?new (p # adm) t = admission_targets sid ?new adm ?t"
      using True unfolding p admission_targets.simps(2) reason_def [symmetric] Let_def by simp
    have "targets_are r (insert (sid, fst key) S \<union> lost_pairs sid ?new adm) (admission_targets sid ?new adm ?t)"
      by (rule Cons.IH [OF targets_are_add [OF Cons.prems] v Cons.prems(3)])
    moreover have "lost_pairs sid ?new (p # adm) = insert (sid, fst key) (lost_pairs sid ?new adm)"
      using True p by auto
    ultimately show ?thesis unfolding eq by (simp only: Un_insert_left Un_insert_right)
  qed
qed simp

text \<open>What holds of an authorizer that was loaded.\<close>

definition authorizer_ok :: "managementAPIAuthorizer \<Rightarrow> bool" where
  "authorizer_ok a \<longleftrightarrow> gomap_ok (auServices a)
     \<and> (\<forall>sid svc. (sid, svc) \<in> set (auServices a) \<longrightarrow> validManagementServiceID sid \<and> gomap_ok (svcAdmissions svc))"

lemma loaded_authorizer_ok:
  assumes "loadManagementAPIAuthorizer f1 f2 f3 = Inr a"
  shows "authorizer_ok a"
proof -
  from load_stages [OF assms] obtain srows arows prows where ld: "loaded_from srows arows prows a" .
  then have g: "gomap_ok (auServices a)" unfolding loaded_from_def perm_read_def by force
  have "validManagementServiceID sid \<and> gomap_ok (svcAdmissions svc)" if "(sid, svc) \<in> set (auServices a)" for sid svc
    using that loaded_service [OF ld, of sid svc] mget_in_set [OF g] unfolding service_loaded_def by blast
  with g show ?thesis by (simp add: authorizer_ok_def)
qed

definition service_pairs :: "managementAPIAuthorizer \<Rightarrow> string \<times> managementAPIService \<Rightarrow> (string \<times> u32) set" where
  "service_pairs r p = (if svcEnabled (snd p)
     then lost_pairs (fst p) (enabled_service r (fst p)) (svcAdmissions (snd p)) else {})"

lemma valid_pairs_lost: "valid_pairs S \<Longrightarrow> validManagementServiceID sid \<Longrightarrow> valid_pairs (S \<union> lost_pairs sid new adm)"
  by (auto simp: valid_pairs_def lost_pairs_def)

lemma service_targets_are:
  assumes "targets_are r S t" and "valid_pairs S" and "\<forall>p \<in> set svcs. validManagementServiceID (fst p)"
  shows "targets_are r (S \<union> (\<Union>p \<in> set svcs. service_pairs r p)) (service_targets r svcs t)"
  using assms
proof (induction svcs arbitrary: S t)
  case (Cons p svcs)
  obtain sid svc where p: "p = (sid, svc)" by (cases p)
  have v: "validManagementServiceID sid" using Cons.prems(3) p by simp
  show ?case
  proof (cases "svcEnabled svc")
    case False
    then show ?thesis using Cons p by (simp add: service_pairs_def)
  next
    case True
    have "targets_are r ((S \<union> service_pairs r p) \<union> (\<Union>p \<in> set svcs. service_pairs r p))
        (service_targets r svcs (admission_targets sid (enabled_service r sid) (svcAdmissions svc) t))"
      using Cons.prems(3) True p
      by (intro Cons.IH) (simp_all add: service_pairs_def admission_targets_are [OF Cons.prems(1,2) v]
          valid_pairs_lost [OF Cons.prems(2) v])
    then show ?thesis using True p by (simp add: Un_assoc)
  qed
qed simp

lemma service_pairs_lose:
  assumes "authorizer_ok a"
  shows "(\<Union>p \<in> set (auServices a). service_pairs r p) = {(sid, c). loses a r sid c}"
proof -
  have g: "gomap_ok (auServices a)" using assms by (simp add: authorizer_ok_def)
  have lost: "aclEnabled acl \<Longrightarrow> lost (enabled_service r sid) k acl \<longleftrightarrow> \<not> admitted r sid k acl" for sid k acl
    by (auto simp: lost_def admitted_def split: option.splits)
  have "(sid, c) \<in> service_pairs r p \<longleftrightarrow> sid = fst p \<and> svcEnabled (snd p)
      \<and> (\<exists>d acl. mget (svcAdmissions (snd p)) (c, d) = Some acl \<and> aclEnabled acl \<and> \<not> admitted r sid (c, d) acl)"
    if "p \<in> set (auServices a)" for p sid c
  proof -
    have "gomap_ok (svcAdmissions (snd p))" using assms that by (cases p) (auto simp: authorizer_ok_def)
    then show ?thesis
      using lost by (force simp: service_pairs_def lost_pairs_def mget_in_set)
  qed
  then show ?thesis
    using g by (auto simp: loses_def admitted_def mget_in_set) blast+
qed

lemma targets_spec:
  assumes "authorizer_ok a"
  shows "targets_are r {(sid, c). loses a r sid c} (service_targets r (auServices a) [])"
proof -
  have "targets_are r {} []" "valid_pairs {}" by (simp_all add: targets_are_def valid_pairs_def)
  moreover have "\<forall>p \<in> set (auServices a). validManagementServiceID (fst p)"
    using assms by (auto simp: authorizer_ok_def)
  ultimately have "targets_are r ({} \<union> (\<Union>p \<in> set (auServices a). service_pairs r p)) (service_targets r (auServices a) [])"
    by (rule service_targets_are)
  then show ?thesis unfolding service_pairs_lose [OF assms] by simp
qed

abbreviation target_pair :: "managementAutomaticRevocationTarget \<Rightarrow> string \<times> u32" where
  "target_pair t \<equiv> (atServiceID t, atChannelID t)"

lemma targets_list:
  assumes "authorizer_ok a"
  shows "set (managementAutomaticRevocations a r) = (\<lambda>(sid, c). target_of r sid c) ` {(sid, c). loses a r sid c}"
    and "sorted (map target_pair (managementAutomaticRevocations a r))"
    and "distinct (map target_pair (managementAutomaticRevocations a r))"
proof -
  let ?t = "service_targets r (auServices a) []" and ?S = "{(sid, c). loses a r sid c}"
  have t: "gomap_ok ?t" "set ?t = (\<lambda>(sid, c). (target_key sid c, target_of r sid c)) ` ?S"
    using targets_spec [OF assms] by (simp_all add: targets_are_def)
  then show set: "set (managementAutomaticRevocations a r) = (\<lambda>(sid, c). target_of r sid c) ` ?S"
    by (auto simp: managementAutomaticRevocations_def image_image case_prod_unfold)
  show "sorted (map target_pair (managementAutomaticRevocations a r))"
    by (simp add: managementAutomaticRevocations_def)
  have "distinct (map (\<lambda>p. target_pair (snd p)) ?t)"
  proof (unfold distinct_map, intro conjI)
    show "distinct ?t" using t(1) by (auto simp: gomap_ok_def distinct_map)
    have "p = (target_key (atServiceID (snd p)) (atChannelID (snd p)),
        target_of r (atServiceID (snd p)) (atChannelID (snd p)))" if "p \<in> set ?t" for p
      using that t(2) by (auto simp: target_of_def)
    then show "inj_on (\<lambda>p. target_pair (snd p)) (set ?t)" by (intro inj_onI) (metis prod.inject)
  qed
  then have d: "distinct (map target_pair (map snd ?t))" by (simp add: comp_def)
  have "mset (map target_pair (managementAutomaticRevocations a r)) = mset (map target_pair (map snd ?t))"
    unfolding managementAutomaticRevocations_def mset_map mset_sort ..
  then show "distinct (map target_pair (managementAutomaticRevocations a r))"
    using d mset_eq_imp_distinct_iff by blast
qed

lemma targets_iff:
  assumes "authorizer_ok a"
  shows "t \<in> set (managementAutomaticRevocations a r) \<longleftrightarrow>
     loses a r (atServiceID t) (atChannelID t) \<and> t = target_of r (atServiceID t) (atChannelID t)"
proof
  assume "t \<in> set (managementAutomaticRevocations a r)"
  then obtain sid c where "loses a r sid c" "t = target_of r sid c" using targets_list(1) [OF assms] by auto
  then show "loses a r (atServiceID t) (atChannelID t) \<and> t = target_of r (atServiceID t) (atChannelID t)"
    by (simp add: target_of_def)
next
  let ?p = "(atServiceID t, atChannelID t)"
  assume t: "loses a r (atServiceID t) (atChannelID t) \<and> t = target_of r (atServiceID t) (atChannelID t)"
  then have "(\<lambda>(sid, c). target_of r sid c) ?p \<in> set (managementAutomaticRevocations a r)"
    unfolding targets_list(1) [OF assms] by (intro imageI) simp
  then show "t \<in> set (managementAutomaticRevocations a r)" using t by simp
qed

lemma length_targets:
  assumes "authorizer_ok a"
  shows "length (managementAutomaticRevocations a r) = card {(sid, c). loses a r sid c}"
proof -
  have "{(sid, c). loses a r sid c} = set (map target_pair (managementAutomaticRevocations a r))"
    unfolding set_map targets_list(1) [OF assms] by (force simp: target_of_def)
  then show ?thesis using distinct_card [OF targets_list(3) [OF assms]] by simp
qed

section \<open>The queue as the reload sees it\<close>

definition requests_ok :: "managementServiceAdmissionRevocationRequest list \<Rightarrow> bool" where
  "requests_ok rs \<longleftrightarrow> (\<forall>r \<in> set rs. rqDenyUntil r < 2 ^ 63)"

text \<open>
  What the reload needs of a durable queue: a batch accepted is held whole, a batch refused
  leaves what is held, and nothing held is dropped by queueing.
\<close>

locale revocation_queue =
  fixes queue :: "'e \<Rightarrow> managementServiceAdmissionRevocationRequest list \<Rightarrow> 'q \<Rightarrow> bool \<times> 'q"
    and holds :: "'q \<Rightarrow> managementServiceAdmissionRevocationRequest \<Rightarrow> bool"
    and inv :: "'q \<Rightarrow> bool"
  assumes queue_keeps: "inv q \<Longrightarrow> requests_ok rs \<Longrightarrow> queue e rs q = (ok, q') \<Longrightarrow> inv q'"
    and queue_accepts: "inv q \<Longrightarrow> requests_ok rs \<Longrightarrow> queue e rs q = (True, q') \<Longrightarrow> r \<in> set rs \<Longrightarrow> holds q' r"
    and queue_holds: "inv q \<Longrightarrow> requests_ok rs \<Longrightarrow> queue e rs q = (ok, q') \<Longrightarrow> holds q r \<Longrightarrow> holds q' r"
    and queue_refuses: "inv q \<Longrightarrow> requests_ok rs \<Longrightarrow> queue e rs q = (False, q') \<Longrightarrow> holds q' r \<Longrightarrow> holds q r"
begin

text \<open>Every channel a service loses is covered once its targets have been accepted.\<close>

lemma losses_covered:
  assumes "inv q" and "authorizer_ok a" and "deny < 2 ^ 63"
    and "queue e (map (revocation_request deny) (managementAutomaticRevocations a r)) q = (True, q')"
    and "loses a r sid c"
  shows "holds q' (revocation_request deny (target_of r sid c))"
proof (rule queue_accepts [OF assms(1) _ assms(4)])
  show "requests_ok (map (revocation_request deny) (managementAutomaticRevocations a r))"
    using assms(3) by (simp add: requests_ok_def revocation_request_def)
  have "target_of r sid c \<in> set (managementAutomaticRevocations a r)"
    using assms(5) by (simp add: targets_iff [OF assms(2)]) (simp add: target_of_def)
  then show "revocation_request deny (target_of r sid c)
      \<in> set (map (revocation_request deny) (managementAutomaticRevocations a r))" by simp
qed

end

definition queue_requests ::
  "environment \<times> string option list \<Rightarrow> managementServiceAdmissionRevocationRequest list
   \<Rightarrow> privateControlClient \<Rightarrow> bool \<times> privateControlClient" where
  "queue_requests e rs cl = (case queueServiceAdmissionRevocations (fst e) (snd e) rs cl of
     (err, cl') \<Rightarrow> (err = None, cl'))"

definition holds_request :: "privateControlClient \<Rightarrow> managementServiceAdmissionRevocationRequest \<Rightarrow> bool" where
  "holds_request cl r \<longleftrightarrow> (\<exists>k c. mget (clPending cl) k = Some c \<and> command_of r c)"

lemma batch_pending:
  assumes "queueServiceAdmissionRevocations env raws rs cl = (e, cl')" and "queue_inv cl" and "requests_ok rs"
  shows "e \<noteq> None \<Longrightarrow> clPending cl' = clPending cl"
    and "e = None \<Longrightarrow> \<exists>commands. list_all2 command_of rs commands
      \<and> clPending cl' = clPending cl @ map (\<lambda>c. (command_id c, c)) commands"
proof -
  have "(e \<noteq> None \<longrightarrow> clPending cl' = clPending cl) \<and> (e = None \<longrightarrow> (\<exists>commands. list_all2 command_of rs commands
      \<and> clPending cl' = clPending cl @ map (\<lambda>c. (command_id c, c)) commands))"
    using assms unfolding requests_ok_def
  proof (cases rule: queue_revocations_cases)
    case (batch k commands cl1)
    from batch(6) show ?thesis
    proof (cases rule: enqueue_cases)
      case unchanged
      then show ?thesis using batch(1,4) by auto
    next
      case (rolled_back dk)
      then show ?thesis using batch(1) by auto
    next
      case (queued dk)
      then show ?thesis using batch(1,4) by auto
    qed
  qed auto
  then show "e \<noteq> None \<Longrightarrow> clPending cl' = clPending cl"
    "e = None \<Longrightarrow> \<exists>commands. list_all2 command_of rs commands
      \<and> clPending cl' = clPending cl @ map (\<lambda>c. (command_id c, c)) commands" by blast+
qed

lemma queued_on_disk:
  assumes "queueServiceAdmissionRevocations env raws rs cl = (None, cl')" and "queue_inv cl"
    and "\<forall>r \<in> set rs. rqDenyUntil r < 2 ^ 63" and "clStore cl" and "rs \<noteq> []"
  shows "dkStore (clDisk cl') = Some (store_data (clPending cl'))"
  using assms(1-3)
proof (cases rule: queue_revocations_cases)
  case (batch k commands cl1)
  have "commands \<noteq> []" "clStore cl1" using batch(1,4) assms(4,5) by auto
  with batch(6) show ?thesis
    by (cases rule: enqueue_cases) (auto dest: persist_success)
qed simp

lemma holds_request_set: "queue_inv cl \<Longrightarrow> holds_request cl r \<longleftrightarrow> (\<exists>p \<in> set (clPending cl). command_of r (snd p))"
  by (force simp: holds_request_def queue_inv_def pending_ok_def mget_in_set)

interpretation client_queue: revocation_queue queue_requests holds_request queue_inv
proof unfold_locales
  fix q rs e ok q' r
  assume q: "queue_inv q" "requests_ok rs"
  show "queue_inv q'" if "queue_requests e rs q = (ok, q')"
    using that q batch_inv by (auto simp: queue_requests_def requests_ok_def split: prod.splits)
next
  fix q rs e q' r
  assume q: "queue_inv q" "requests_ok rs" "queue_requests e rs q = (True, q')" "r \<in> set rs"
  then obtain b where b: "queueServiceAdmissionRevocations (fst e) (snd e) rs q = (None, q')"
    by (auto simp: queue_requests_def split: prod.splits)
  have inv': "queue_inv q'" using batch_inv [OF q(1) b] q(2) by (simp add: requests_ok_def)
  obtain commands where c: "list_all2 command_of rs commands"
      "clPending q' = clPending q @ map (\<lambda>c. (command_id c, c)) commands"
    using batch_pending(2) [OF b q(1,2)] by blast
  then obtain c where "c \<in> set commands" "command_of r c"
    using q(4) by (metis list_all2_conv_all_nth in_set_conv_nth)
  then show "holds_request q' r" using c(2) by (force simp: holds_request_set [OF inv'])
next
  fix q rs e ok q' r
  assume q: "queue_inv q" "requests_ok rs" "queue_requests e rs q = (ok, q')" "holds_request q r"
  then obtain err where b: "queueServiceAdmissionRevocations (fst e) (snd e) rs q = (err, q')"
    by (auto simp: queue_requests_def split: prod.splits)
  have inv': "queue_inv q'" using batch_inv [OF q(1) b] q(2) by (simp add: requests_ok_def)
  have "set (clPending q) \<subseteq> set (clPending q')" using batch_pending [OF b q(1,2)] by (cases err) auto
  then show "holds_request q' r" using q(4) by (auto simp: holds_request_set [OF inv'] holds_request_set [OF q(1)])
next
  fix q rs e q' r
  assume q: "queue_inv q" "requests_ok rs" "queue_requests e rs q = (False, q')" "holds_request q' r"
  then obtain err where b: "queueServiceAdmissionRevocations (fst e) (snd e) rs q = (Some err, q')"
    by (auto simp: queue_requests_def split: prod.splits)
  show "holds_request q r" using batch_pending(1) [OF b q(1,2)] q(4) by (simp add: holds_request_def)
qed

section \<open>Properties\<close>


text \<open>
  The result depends on what the two authorizers admit and on nothing else: in
  particular on no order of iteration over their maps.
\<close>

theorem automatic_revocations_determined:
  assumes "loadManagementAPIAuthorizer f1 f2 f3 = Inr a" and "loadManagementAPIAuthorizer g1 g2 g3 = Inr a'"
    and "\<And>sid c. loses a r sid c = loses a' r' sid c" and "\<And>sid. service_enabled r sid = service_enabled r' sid"
  shows "managementAutomaticRevocations a r = managementAutomaticRevocations a' r'"
proof -
  let ?xs = "managementAutomaticRevocations a r" and ?ys = "managementAutomaticRevocations a' r'"
  note ok = loaded_authorizer_ok [OF assms(1)] loaded_authorizer_ok [OF assms(2)]
  have "target_of r sid c = target_of r' sid c" for sid c using assms(4) by (simp add: target_of_def)
  then have set: "set ?xs = set ?ys" using assms(3) targets_list(1) ok by simp
  have "map target_pair ?xs = map target_pair ?ys"
    using set by (intro sorted_distinct_set_unique targets_list(2,3) ok) simp
  moreover have "inj_on target_pair (set ?xs \<union> set ?ys)"
    unfolding set by (intro inj_onI) (metis Pair_inject Un_absorb ok(2) targets_iff)
  ultimately show ?thesis by (rule map_inj_on)
qed

lemma reload_queued:
  assumes "reloadAuthorizer env raws now f1 f2 f3 previous (Some cl) = (Inr n, a, revoker)"
    and "loadManagementAPIAuthorizer g1 g2 g3 = Inr previous" and "queue_inv cl" and "clStore cl"
    and "now + managementAPIAutomaticRevocationDenyWindow < 2 ^ 63"
  shows "loadManagementAPIAuthorizer f1 f2 f3 = Inr a \<and> n = card {(sid, c). loses previous a sid c}
     \<and> (\<exists>cl'. revoker = Some cl' \<and> queue_inv cl'
          \<and> (\<forall>sid c. loses previous a sid c \<longrightarrow>
               (\<exists>k cmd. mget (clPending cl') k = Some cmd \<and> rvServiceID (pcMessage cmd) = sid
                  \<and> rvChannelID (pcMessage cmd) = c
                  \<and> rvDenyUntil (pcMessage cmd) = now + managementAPIAutomaticRevocationDenyWindow))
          \<and> (n \<noteq> 0 \<longrightarrow> dkStore (clDisk cl') = Some (store_data (clPending cl'))))"
proof -
  let ?d = "now + managementAPIAutomaticRevocationDenyWindow"
  let ?ts = "managementAutomaticRevocations previous a"
  note ok = loaded_authorizer_ok [OF assms(2)]
  have load: "loadManagementAPIAuthorizer f1 f2 f3 = Inr a"
    using assms(1) by (auto simp: reloadAuthorizer_def Let_def split: sum.splits if_splits prod.splits option.splits)
  have n: "n = card {(sid, c). loses previous a sid c}"
    using assms(1) load length_targets [OF ok, of a]
    by (auto simp: reloadAuthorizer_def Let_def split: if_splits prod.splits option.splits)
  show ?thesis
  proof (cases "?ts = []")
    case True
    then have "revoker = Some cl" using assms(1) load by (simp add: reloadAuthorizer_def)
    moreover have "\<not> loses previous a sid c" for sid c
      using targets_iff [OF ok, of "target_of a sid c" a] True by (simp add: target_of_def)
    moreover have "n = 0" using True n length_targets [OF ok, of a] by simp
    ultimately show ?thesis using load n assms(3) by simp
  next
    case False
    then obtain cl' where q: "queueServiceAdmissionRevocations env raws (map (revocation_request ?d) ?ts) cl = (None, cl')"
      and rv: "revoker = Some cl'"
      using assms(1) load by (auto simp: reloadAuthorizer_def Let_def split: prod.splits option.splits)
    have rok: "requests_ok (map (revocation_request ?d) ?ts)"
      using assms(5) by (simp add: requests_ok_def revocation_request_def)
    have inv': "queue_inv cl'" using batch_inv [OF assms(3) q] rok by (simp add: requests_ok_def)
    have "queue_requests (env, raws) (map (revocation_request ?d) ?ts) cl = (True, cl')"
      using q by (simp add: queue_requests_def)
    note covered = client_queue.losses_covered [OF assms(3) ok assms(5) this]
    have "\<exists>k cmd. mget (clPending cl') k = Some cmd \<and> rvServiceID (pcMessage cmd) = sid
        \<and> rvChannelID (pcMessage cmd) = c \<and> rvDenyUntil (pcMessage cmd) = ?d"
      if "loses previous a sid c" for sid c
      using covered [OF that]
      by (force simp: holds_request_def command_of_def revocation_request_def target_of_def)
    moreover have "dkStore (clDisk cl') = Some (store_data (clPending cl'))"
      using queued_on_disk [OF q assms(3) _ assms(4)] rok False by (simp add: requests_ok_def)
    ultimately show ?thesis using load n rv inv' by blast
  qed
qed

text \<open>
  C12. A reload that succeeds has adopted exactly what the files say, and for every channel
  a service lost by it, even in part, a command that denies the service the channel for the
  next 90 minutes is pending and in the durable store.
\<close>

theorem reload_covers_losses:
  assumes "reloadAuthorizer env raws now f1 f2 f3 previous (Some cl) = (Inr n, a, revoker)"
    and "loadManagementAPIAuthorizer g1 g2 g3 = Inr previous" and "queue_inv cl" and "clStore cl"
    and "now + managementAPIAutomaticRevocationDenyWindow < 2 ^ 63"
  shows "loadManagementAPIAuthorizer f1 f2 f3 = Inr a \<and> n = card {(sid, c). loses previous a sid c}
     \<and> (\<exists>cl'. revoker = Some cl' \<and> queue_inv cl'
          \<and> (\<forall>sid c. loses previous a sid c \<longrightarrow>
               (\<exists>k cmd. mget (clPending cl') k = Some cmd \<and> rvServiceID (pcMessage cmd) = sid
                  \<and> rvChannelID (pcMessage cmd) = c
                  \<and> rvDenyUntil (pcMessage cmd) = now + managementAPIAutomaticRevocationDenyWindow))
          \<and> (n \<noteq> 0 \<longrightarrow> dkStore (clDisk cl') = Some (store_data (clPending cl'))))"
  using assms by (rule reload_queued)

text \<open>
  C32. A reload that fails leaves the authorizer and the pending commands as they were.
\<close>

theorem failed_reload_changes_nothing:
  assumes "reloadAuthorizer env raws now f1 f2 f3 previous (Some cl) = (Inl e, a, revoker)" and "queue_inv cl"
    and "now + managementAPIAutomaticRevocationDenyWindow < 2 ^ 63"
  shows "a = previous \<and> (\<exists>cl'. revoker = Some cl' \<and> clPending cl' = clPending cl \<and> queue_inv cl')"
proof (cases "loadManagementAPIAuthorizer f1 f2 f3")
  case (Inl e1)
  then show ?thesis using assms by (auto simp: reloadAuthorizer_def)
next
  case (Inr r)
  let ?rs = "map (revocation_request (now + managementAPIAutomaticRevocationDenyWindow)) (managementAutomaticRevocations previous r)"
  obtain err cl' where q: "queueServiceAdmissionRevocations env raws ?rs cl = (Some err, cl')"
      "a = previous" "revoker = Some cl'"
    using assms(1) Inr by (auto simp: reloadAuthorizer_def Let_def split: if_splits prod.splits option.splits)
  have "requests_ok ?rs" using assms(3) by (simp add: requests_ok_def revocation_request_def)
  then show ?thesis
    using batch_pending(1) [OF q(1) assms(2)] batch_inv [OF assms(2) q(1)] q by (simp add: requests_ok_def)
qed

text \<open>
  A change of the files that takes away more than 64 channels of services is never
  adopted, however often it is read and whatever the Relay acknowledges in between: the
  services keep their access.
\<close>

theorem large_reload_never_adopted:
  assumes "authorizer_ok previous" and "loadManagementAPIAuthorizer f1 f2 f3 = Inr r"
    and "privateControlMaxPendingCommands < card {(sid, c). loses previous r sid c}"
  shows "\<exists>e revoker'. reloadAuthorizer env raws now f1 f2 f3 previous revoker = (Inl e, previous, revoker')"
proof -
  let ?ts = "managementAutomaticRevocations previous r"
  let ?rs = "map (revocation_request (now + managementAPIAutomaticRevocationDenyWindow)) ?ts"
  have len: "privateControlMaxPendingCommands < length ?ts"
    using assms(3) length_targets [OF assms(1)] by simp
  then have ne: "?ts \<noteq> []" by auto
  have full: "fst (queueServiceAdmissionRevocations env raws ?rs cl) \<noteq> None" for cl
  proof -
    have "fst (enqueuePendingCommands env commands cl1) \<noteq> None" if "length commands = length ?ts" for commands cl1
      using that len by (cases commands) (auto simp: enqueuePendingCommands_def)
    then show ?thesis
      using new_commands_results [of raws ?rs cl] list_all2_lengthD
      by (fastforce simp: queueServiceAdmissionRevocations_def split: prod.split sum.split)
  qed
  show ?thesis
  proof (cases revoker)
    case None
    then show ?thesis using assms(2) ne by (simp add: reloadAuthorizer_def Let_def)
  next
    case (Some cl)
    then show ?thesis using assms(2) ne full [of cl]
      by (auto simp: reloadAuthorizer_def Let_def split: prod.split option.split)
  qed
qed

section \<open>Witnesses\<close>

definition bare_f2 :: "string option" where
  "bare_f2 = Some (csv_text [channelACLHeader])"

definition bare_f3 :: "string option" where
  "bare_f3 = Some (csv_text [globalPermissionsHeader])"

definition bare_authorizer :: managementAPIAuthorizer where
  "bare_authorizer = \<lparr>auFingerprints = [(sample_fp, ''rec'')],
     auServices = [(''rec'', sample_service\<lparr>svcChannels := [], svcAdmissions := [], svcGlobalPermissions := []\<rparr>)]\<rparr>"

lemma bare_rows:
  "readManagementCSV bare_f2 channelACLHeader = Inr []"
  "readManagementCSV bare_f3 globalPermissionsHeader = Inr []"
  unfolding bare_f2_def bare_f3_def
  by (rule readManagementCSV_text; simp add: channelACLHeader_def globalPermissionsHeader_def)+

lemma bare_loaded: "loadManagementAPIAuthorizer sample_f1 bare_f2 bare_f3 = Inr bare_authorizer"
  by (simp add: loadManagementAPIAuthorizer_def sample_rows(1) sample_loops(1) bare_rows bare_authorizer_def)

lemma sample_loses: "loses sample_authorizer bare_authorizer sid c \<longleftrightarrow> sid = ''rec'' \<and> c = 7"
  by (auto simp: loses_def admitted_def sample_authorizer_def bare_authorizer_def sample_service_def sample_acl_def)

lemma sample_losses: "{(sid, c). loses sample_authorizer bare_authorizer sid c} = {(''rec'', 7)}"
  by (auto simp: sample_loses)


lemma automatic_revocations_determined_witness:
  "managementAutomaticRevocations sample_authorizer bare_authorizer
     = managementAutomaticRevocations sample_authorizer (bare_authorizer\<lparr>auFingerprints := []\<rparr>)"
  by (rule automatic_revocations_determined [OF sample_loaded sample_loaded])
    (simp_all add: loses_def admitted_def service_enabled_def)

lemma sample_target: "managementAutomaticRevocations sample_authorizer bare_authorizer
    = [\<lparr>atChannelID = 7, atServiceID = ''rec'', atReason = ''acl_removed''\<rparr>]"
  by (simp add: managementAutomaticRevocations_def sample_authorizer_def bare_authorizer_def sample_service_def
      sample_acl_def mhas_def)

lemma sample_reload:
  "\<exists>cl. reloadAuthorizer good_env [Some sample_raw] (-400) sample_f1 bare_f2 bare_f3 sample_authorizer (Some new_client)
     = (Inr 1, bare_authorizer, Some cl)"
proof -
  have "revocation_request 5000 \<lparr>atChannelID = 7, atServiceID = ''rec'', atReason = ''acl_removed''\<rparr> = sample_request"
    by (simp add: revocation_request_def sample_request_def)
  then show ?thesis
    using sample_submit
    by (auto simp: reloadAuthorizer_def bare_loaded sample_target Let_def
        managementAPIAutomaticRevocationDenyWindow_def)
qed

lemma reload_covers_losses_witness:
  "\<exists>cl. reloadAuthorizer good_env [Some sample_raw] (-400) sample_f1 bare_f2 bare_f3 sample_authorizer
       (Some new_client) = (Inr 1, bare_authorizer, Some cl)
     \<and> (\<exists>k cmd. mget (clPending cl) k = Some cmd \<and> rvServiceID (pcMessage cmd) = ''rec''
          \<and> rvChannelID (pcMessage cmd) = 7 \<and> rvDenyUntil (pcMessage cmd) = 5000)"
proof -
  obtain cl where r: "reloadAuthorizer good_env [Some sample_raw] (-400) sample_f1 bare_f2 bare_f3 sample_authorizer
      (Some new_client) = (Inr 1, bare_authorizer, Some cl)" using sample_reload by blast
  have "clStore new_client" by (simp add: new_client_def)
  from reload_covers_losses [OF r sample_loaded new_client_inv' this] r show ?thesis
    by (auto simp: sample_loses managementAPIAutomaticRevocationDenyWindow_def)
qed

lemma failed_reload_changes_nothing_witness:
  "\<exists>cl. reloadAuthorizer good_env [] 100 sample_f1 bare_f2 bare_f3 sample_authorizer (Some sample_client)
       = (Inl (ReloadQueue QueueNoRandom), sample_authorizer, Some cl) \<and> clPending cl = clPending sample_client"
proof -
  have r: "reloadAuthorizer good_env [] 100 sample_f1 bare_f2 bare_f3 sample_authorizer (Some sample_client)
      = (Inl (ReloadQueue QueueNoRandom), sample_authorizer, Some sample_client)"
    by (simp add: reloadAuthorizer_def bare_loaded sample_target Let_def queueServiceAdmissionRevocations_def
        newPendingRevocation_def newPrivateControlID_def)
  from failed_reload_changes_nothing [OF r sample_client_inv] r show ?thesis
    by (simp add: managementAPIAutomaticRevocationDenyWindow_def)
qed

definition many_admissions :: "(managementAdmissionKey, managementAdmissionACL) gomap" where
  "many_admissions = map (\<lambda>i. ((word_of_nat i, 9), sample_acl)) [0..<65]"

definition many_authorizer :: managementAPIAuthorizer where
  "many_authorizer = \<lparr>auFingerprints = [(sample_fp, ''rec'')],
     auServices = [(''rec'', sample_service\<lparr>svcAdmissions := many_admissions\<rparr>)]\<rparr>"

lemma many_ok: "gomap_ok many_admissions"
proof -
  have "distinct (map (\<lambda>i. (word_of_nat i :: u32, 9 :: u32)) [0..<65])"
    by (auto simp: distinct_map inj_on_def word_of_nat_eq_iff take_bit_eq_mod)
  then show ?thesis by (simp add: many_admissions_def gomap_ok_def comp_def)
qed

lemma many_get: "mget many_admissions k = Some acl \<longleftrightarrow> (\<exists>i < 65. k = (word_of_nat i, 9)) \<and> acl = sample_acl"
  unfolding mget_in_set [OF many_ok] by (auto simp: many_admissions_def)

lemma many_admitted: "admitted many_authorizer sid k acl \<longleftrightarrow> sid = ''rec'' \<and> mget many_admissions k = Some acl"
  by (auto simp: admitted_def many_authorizer_def many_get sample_service_def sample_acl_def)

lemma bare_admitted: "\<not> admitted bare_authorizer sid k acl"
  by (auto simp: admitted_def bare_authorizer_def split: if_splits)

lemma many_losses: "{(sid, c). loses many_authorizer bare_authorizer sid c} = (\<lambda>i. (''rec'', word_of_nat i)) ` {..<65}"
  by (auto simp: loses_def many_admitted bare_admitted many_get)

lemma large_reload_never_adopted_witness:
  "\<exists>e rv. reloadAuthorizer good_env [Some sample_raw] 100 sample_f1 bare_f2 bare_f3 many_authorizer (Some new_client)
     = (Inl e, many_authorizer, rv)"
proof (rule large_reload_never_adopted [OF _ bare_loaded])
  have "validManagementServiceID ''rec''"
    by (simp add: validManagementServiceID_def privateControlServiceIDPattern_def service_id_char_def
        is_alnum_def is_digit_def is_lower_def)
  then show "authorizer_ok many_authorizer"
    using many_ok by (simp add: authorizer_ok_def many_authorizer_def gomap_ok_def)
  have "inj_on (\<lambda>i. (''rec'', word_of_nat i :: u32)) {..<65}"
    by (auto simp: inj_on_def word_of_nat_eq_iff take_bit_eq_mod)
  then show "privateControlMaxPendingCommands < card {(sid, c). loses many_authorizer bare_authorizer sid c}"
    unfolding many_losses by (simp add: card_image privateControlMaxPendingCommands_def)
qed

end
