(* ===== verification/Grants.thy ===== *)
theory Grants
  imports Acl_Reload
begin

text \<open>
  Service Admission grants (\<open>service_admission_grants.go\<close>): loading the issuer, issuing a
  signed grant, tracking what was issued, and checking a revocation request against it
  (\<open>service_admission_api.go\<close>).  Instants and durations are nanoseconds, an instant since the
  Unix epoch.  The hash, the signature and the reading of the key file are the standard
  library's and arguments here.
\<close>

section \<open>Data\<close>

definition second :: int where
  "second = 10 ^ 9"

definition unix :: "int \<Rightarrow> int" where
  "unix t = t div second"

definition truncate_second :: "int \<Rightarrow> int" where
  "truncate_second t = t - t mod second"

definition serviceAdmissionGrantMinimumLifetime :: int where
  "serviceAdmissionGrantMinimumLifetime = 60 * second"

definition serviceAdmissionGrantMaximumLifetime :: int where
  "serviceAdmissionGrantMaximumLifetime = 3600 * second"

definition serviceAdmissionGrantDefaultLifetime :: int where
  "serviceAdmissionGrantDefaultLifetime = 5 * 60 * second"

definition serviceAdmissionGrantMaximumBytes :: nat where
  "serviceAdmissionGrantMaximumBytes = 768"

definition serviceAdmissionGrantMaximumTracked :: nat where
  "serviceAdmissionGrantMaximumTracked = 4096"

definition serviceAdmissionGrantKeyIDPattern :: "string \<Rightarrow> bool" where
  "serviceAdmissionGrantKeyIDPattern s = (1 \<le> length s \<and> length s \<le> 128 \<and> list_all service_id_char s)"

record issuedServiceAdmissionGrant =
  igServiceID :: string
  igChannelID :: u32
  igExpiresAt :: int

record serviceAdmissionGrantIssuer =
  isPrivateKey :: string
  isKeyID :: string
  isIssuer :: string
  isAudience :: string
  isLifetime :: int
  isIssued :: "(string, issuedServiceAdmissionGrant) gomap"

record serviceAdmissionGrantHeader =
  ghAlgorithm :: string
  ghKeyID :: string
  ghType :: string

record serviceAdmissionGrantClaims =
  gcIssuer :: string
  gcAudience :: string
  gcServiceID :: string
  gcGrantID :: string
  gcIssuedAt :: int
  gcExpiresAt :: int
  gcChannelID :: u32
  gcSenderID :: u32
  gcRole :: string
  gcPermissions :: u8
  gcPriority :: "u8 option"
  gcJWKThumbprint :: string

definition enc_header :: "serviceAdmissionGrantHeader \<Rightarrow> json" where
  "enc_header h = JObj [(''alg'', JStr (ghAlgorithm h)), (''kid'', JStr (ghKeyID h)), (''typ'', JStr (ghType h))]"

definition enc_claims :: "serviceAdmissionGrantClaims \<Rightarrow> json" where
  "enc_claims c = JObj
     ([(''iss'', JStr (gcIssuer c)), (''aud'', JStr (gcAudience c)), (''svc'', JStr (gcServiceID c)),
       (''jti'', JStr (gcGrantID c)), (''iat'', enc_int (gcIssuedAt c)), (''exp'', enc_int (gcExpiresAt c)),
       (''ch'', enc_word (gcChannelID c)), (''sid'', enc_word (gcSenderID c)), (''role'', JStr (gcRole c)),
       (''perm'', enc_word (gcPermissions c))]
      @ omit_nil ''pri'' enc_word (gcPriority c)
      @ [(''cnf'', JObj [(''jkt'', JStr (gcJWKThumbprint c))])])"

record managementServiceAdmissionGrantRequest =
  grChannelID :: u32
  grSenderID :: u32
  grRole :: string
  grRequestTalk :: bool
  grRequestInterrupt :: bool
  grServicePublicKey :: string

section \<open>Configuration\<close>

record managementAPIConfig =
  acListen :: string
  acCertificateFile :: string
  acPrivateKeyFile :: string
  acClientCAFile :: string
  acServicesFile :: string
  acChannelACLFile :: string
  acGlobalPermissionsFile :: string
  acGrantSigningKeyFile :: string
  acGrantKeyID :: string
  acGrantIssuer :: string
  acGrantAudience :: string
  acGrantTTLSeconds :: string
  acEventDelivery :: string
  acAclReloadInterval :: string

text \<open>
  Reading a signing key: the content of a file, the PEM block at its start (type, bytes and
  what follows it), and the PKCS#8 key in the bytes, \<open>Some None\<close> if it is not an Ed25519 key.
\<close>

record key_files =
  kfRead :: "string \<Rightarrow> string option"
  kfPem :: "string \<Rightarrow> (string \<times> string \<times> string) option"
  kfPKCS8 :: "string \<Rightarrow> string option option"

datatype issuer_error =
    IssuerMissing nat | IssuerKeyID | IssuerValue | IssuerTTL
  | KeyRead | KeyPem | KeyParse | KeyNotEd25519

definition loadServiceAdmissionSigningKey :: "key_files \<Rightarrow> string \<Rightarrow> issuer_error + string" where
  "loadServiceAdmissionSigningKey kf filename =
     (case kfRead kf filename of
        None \<Rightarrow> Inl KeyRead
      | Some data \<Rightarrow>
          (case kfPem kf data of
             None \<Rightarrow> Inl KeyPem
           | Some (type, bytes, remaining) \<Rightarrow>
               if type \<noteq> ''PRIVATE KEY'' \<or> trim_space remaining \<noteq> [] then Inl KeyPem
               else (case kfPKCS8 kf bytes of
                       None \<Rightarrow> Inl KeyParse
                     | Some None \<Rightarrow> Inl KeyNotEd25519
                     | Some (Some key) \<Rightarrow> if length key \<noteq> 64 then Inl KeyNotEd25519 else Inr key)))"

definition validServiceAdmissionIssuerValue :: "string \<Rightarrow> bool" where
  "validServiceAdmissionIssuerValue value =
     (1 \<le> length value \<and> length value \<le> 256 \<and> trim_space value = value)"

text \<open>The first of the required values that is blank.\<close>

fun first_blank :: "nat \<Rightarrow> string list \<Rightarrow> nat option" where
  "first_blank n [] = None"
| "first_blank n (v # vs) = (if trim_space v = [] then Some n else first_blank (Suc n) vs)"

text \<open>No issuer, where no value is configured, is \<open>Inr None\<close>.\<close>

definition loadServiceAdmissionGrantIssuer ::
  "key_files \<Rightarrow> managementAPIConfig \<Rightarrow> issuer_error + serviceAdmissionGrantIssuer option" where
  "loadServiceAdmissionGrantIssuer kf config =
     (let values = [acGrantSigningKeyFile config, acGrantKeyID config, acGrantIssuer config, acGrantAudience config]
      in if \<not> list_ex (\<lambda>value. trim_space value \<noteq> []) values then Inr None
         else case first_blank 0 values of
           Some n \<Rightarrow> Inl (IssuerMissing n)
         | None \<Rightarrow>
             if \<not> serviceAdmissionGrantKeyIDPattern (acGrantKeyID config) then Inl IssuerKeyID
             else if \<not> validServiceAdmissionIssuerValue (acGrantIssuer config)
                  \<or> \<not> validServiceAdmissionIssuerValue (acGrantAudience config) then Inl IssuerValue
             else
               let value = trim_space (acGrantTTLSeconds config);
                   lifetime = (if value = [] then Some serviceAdmissionGrantDefaultLifetime
                     else (case parse_int64 value of
                             None \<Rightarrow> None
                           | Some seconds \<Rightarrow>
                               if seconds < serviceAdmissionGrantMinimumLifetime div second
                                  \<or> serviceAdmissionGrantMaximumLifetime div second < seconds then None
                               else Some (seconds * second)))
               in (case lifetime of
                     None \<Rightarrow> Inl IssuerTTL
                   | Some lifetime \<Rightarrow>
                       (case loadServiceAdmissionSigningKey kf (acGrantSigningKeyFile config) of
                          Inl e \<Rightarrow> Inl e
                        | Inr key \<Rightarrow> Inr (Some
                            \<lparr>isPrivateKey = key, isKeyID = acGrantKeyID config, isIssuer = acGrantIssuer config,
                             isAudience = acGrantAudience config, isLifetime = lifetime, isIssued = []\<rparr>))))"

section \<open>Issuing\<close>

text \<open>The hash and \<open>ed25519.Sign\<close> of a key and a message.\<close>

record crypto =
  crSha256 :: "string \<Rightarrow> string"
  crSign :: "string \<Rightarrow> string \<Rightarrow> string"

datatype grant_error =
  GrantNotAuthorized | GrantNoTalk | GrantNoInterrupt | GrantPublicKey | GrantRandom | GrantTooLarge
| GrantTracking

definition decodeServiceAdmissionPublicKey :: "string \<Rightarrow> string option" where
  "decodeServiceAdmissionPublicKey value =
     (case b64_decode value of
        None \<Rightarrow> None
      | Some decoded \<Rightarrow> if length decoded \<noteq> 32 \<or> b64_encode decoded \<noteq> value then None else Some decoded)"

text \<open>\<open>raw\<close> are 24 random bytes, \<open>None\<close> where \<open>rand.Read\<close> fails.\<close>

definition newServiceAdmissionGrantID :: "string option \<Rightarrow> string option" where
  "newServiceAdmissionGrantID raw = map_option b64_encode raw"

definition signServiceAdmissionGrant ::
  "crypto \<Rightarrow> string \<Rightarrow> string \<Rightarrow> serviceAdmissionGrantClaims \<Rightarrow> string option" where
  "signServiceAdmissionGrant cr privateKey keyID claims =
     (let header = json_print (enc_header \<lparr>ghAlgorithm = ''EdDSA'', ghKeyID = keyID,
            ghType = ''incomudon-service-admission+jwt''\<rparr>);
          payload = json_print (enc_claims claims);
          signingInput = b64_encode header @ ''.'' @ b64_encode payload;
          signature = crSign cr privateKey signingInput;
          grant = signingInput @ ''.'' @ b64_encode signature
      in if serviceAdmissionGrantMaximumBytes < length grant then None else Some grant)"

definition cleanupIssuedLocked :: "int \<Rightarrow> serviceAdmissionGrantIssuer \<Rightarrow> serviceAdmissionGrantIssuer" where
  "cleanupIssuedLocked now i =
     i\<lparr>isIssued := filter (\<lambda>(h, grant). now < igExpiresAt grant) (isIssued i)\<rparr>"

text \<open>The claims of a request, once it is allowed.\<close>

definition grant_claims ::
  "crypto \<Rightarrow> serviceAdmissionGrantIssuer \<Rightarrow> string \<Rightarrow> managementAdmissionACL
   \<Rightarrow> managementServiceAdmissionGrantRequest \<Rightarrow> int \<Rightarrow> string \<Rightarrow> string \<Rightarrow> serviceAdmissionGrantClaims" where
  "grant_claims cr i serviceID acl request issuedAt grantID publicKey =
     (let permissions = (1 :: u8);
          permissions = (if grRequestTalk request then or permissions 2 else permissions);
          (permissions, priority) =
            (if grRequestInterrupt request then (or permissions 4, Some (aclInterruptPriority acl))
             else (permissions, None))
      in \<lparr>gcIssuer = isIssuer i, gcAudience = isAudience i, gcServiceID = serviceID, gcGrantID = grantID,
          gcIssuedAt = unix issuedAt, gcExpiresAt = unix (issuedAt + isLifetime i),
          gcChannelID = grChannelID request, gcSenderID = grSenderID request, gcRole = grRole request,
          gcPermissions = permissions, gcPriority = priority,
          gcJWKThumbprint = b64_encode (crSha256 cr publicKey)\<rparr>)"

definition grant_hash :: "crypto \<Rightarrow> string \<Rightarrow> string" where
  "grant_hash cr grantID = b64_encode (crSha256 cr grantID)"

definition issue ::
  "crypto \<Rightarrow> string option \<Rightarrow> string \<Rightarrow> managementAdmissionACL \<Rightarrow> managementServiceAdmissionGrantRequest
   \<Rightarrow> int \<Rightarrow> serviceAdmissionGrantIssuer option
   \<Rightarrow> (grant_error + string \<times> int) \<times> serviceAdmissionGrantIssuer option" where
  "issue cr raw serviceID acl request now issuer =
     (case issuer of None \<Rightarrow> (Inl GrantNotAuthorized, None) | Some i \<Rightarrow>
      if \<not> validManagementServiceID serviceID \<or> \<not> aclEnabled acl \<or> aclRole acl \<noteq> grRole request
         \<or> \<not> aclAllowListen acl then (Inl GrantNotAuthorized, issuer)
      else if grRequestTalk request \<and> \<not> aclAllowTalk acl then (Inl GrantNoTalk, issuer)
      else if grRequestInterrupt request
              \<and> (\<not> grRequestTalk request \<or> \<not> aclAllowInterrupt acl \<or> aclInterruptPriority acl = 0)
        then (Inl GrantNoInterrupt, issuer)
      else case decodeServiceAdmissionPublicKey (grServicePublicKey request) of
        None \<Rightarrow> (Inl GrantPublicKey, issuer)
      | Some publicKey \<Rightarrow>
      case newServiceAdmissionGrantID raw of
        None \<Rightarrow> (Inl GrantRandom, issuer)
      | Some grantID \<Rightarrow>
          let issuedAt = truncate_second now;
              expiresAt = issuedAt + isLifetime i;
              claims = grant_claims cr i serviceID acl request issuedAt grantID publicKey
          in case signServiceAdmissionGrant cr (isPrivateKey i) (isKeyID i) claims of
               None \<Rightarrow> (Inl GrantTooLarge, issuer)
             | Some grant \<Rightarrow>
                 let i = cleanupIssuedLocked issuedAt i
                 in if serviceAdmissionGrantMaximumTracked \<le> mlen (isIssued i)
                    then (Inl GrantTracking, Some i)
                    else (Inr (grant, expiresAt),
                          Some (i\<lparr>isIssued := mput (grant_hash cr grantID)
                            \<lparr>igServiceID = serviceID, igChannelID = grChannelID request, igExpiresAt = expiresAt\<rparr>
                            (isIssued i)\<rparr>)))"

definition issuedGrant ::
  "string \<Rightarrow> int \<Rightarrow> serviceAdmissionGrantIssuer option
   \<Rightarrow> issuedServiceAdmissionGrant option \<times> serviceAdmissionGrantIssuer option" where
  "issuedGrant grantIDHash now issuer =
     (case issuer of
        None \<Rightarrow> (None, None)
      | Some i \<Rightarrow>
          let i = cleanupIssuedLocked now i
          in (mget (isIssued i) grantIDHash, Some i))"

section \<open>Checking a revocation request\<close>

definition managementServiceAdmissionMaximumDenyWindow :: int where
  "managementServiceAdmissionMaximumDenyWindow = 90 * 60 * second"

text \<open>
  The two readings of the clock are \<open>now\<close> and \<open>now'\<close>; with the verdict there is the issuer
  after the look-up.
\<close>

definition validateServiceAdmissionRevocation ::
  "int \<Rightarrow> int \<Rightarrow> managementServiceAdmissionRevocationRequest \<Rightarrow> serviceAdmissionGrantIssuer option
   \<Rightarrow> bool \<times> serviceAdmissionGrantIssuer option" where
  "validateServiceAdmissionRevocation now now' request issuer =
     (if \<not> validServiceAdmissionRevocationReason (rqReason request) \<or> rqDenyUntil request \<le> unix now
         \<or> unix now + managementServiceAdmissionMaximumDenyWindow div second < rqDenyUntil request
         \<or> (rqServiceID request = [] \<and> rqGrantIDHash request = []) then (False, issuer)
      else if rqServiceID request \<noteq> [] \<and> \<not> validManagementServiceID (rqServiceID request) then (False, issuer)
      else if rqGrantIDHash request = [] then (True, issuer)
      else if \<not> validPrivateControlGrantIDHash (rqGrantIDHash request) \<or> issuer = None then (False, issuer)
      else
        (case issuedGrant (rqGrantIDHash request) now' issuer of
           (None, issuer') \<Rightarrow> (False, issuer')
         | (Some grant, issuer') \<Rightarrow>
             if igChannelID grant \<noteq> rqChannelID request
                \<or> (rqServiceID request \<noteq> [] \<and> rqServiceID request \<noteq> igServiceID grant)
                \<or> unix (igExpiresAt grant) < rqDenyUntil request then (False, issuer')
             else (True, issuer')))"

end
