(* ===== verification/Grant_Properties.thy ===== *)
theory Grant_Properties
  imports Grants
begin

text \<open>
  What the grants guarantee: a grant says no more than the channel ACL, what was issued is
  known until it expires and never outgrows its table, and the denials a reload queues
  outlast the grants issued before it.
\<close>

section \<open>Issuing\<close>

lemma second_pos [simp]: "0 < second" "second \<noteq> 0"
  by (simp_all add: second_def)

lemma truncate_le: "truncate_second t \<le> t"
  using pos_mod_sign [of second t] by (simp add: truncate_second_def)

lemma unix_mono: "s \<le> t \<Longrightarrow> unix s \<le> unix t"
  by (simp add: unix_def zdiv_mono1)

lemma unix_add: "unix (t + n * second) = unix t + n"
  by (simp add: unix_def)

text \<open>What a request that is granted satisfies, and what it leaves.\<close>

lemma issue_cases:
  assumes "issue cr raw sid acl req now (Some i) = (Inr (grant, expires), issuer)"
  obtains r publicKey where "raw = Some r" "decodeServiceAdmissionPublicKey (grServicePublicKey req) = Some publicKey"
    "validManagementServiceID sid" "aclEnabled acl" "aclAllowListen acl" "aclRole acl = grRole req"
    "grRequestTalk req \<longrightarrow> aclAllowTalk acl"
    "grRequestInterrupt req \<longrightarrow> grRequestTalk req \<and> aclAllowInterrupt acl \<and> aclInterruptPriority acl \<noteq> 0"
    "expires = truncate_second now + isLifetime i"
    "signServiceAdmissionGrant cr (isPrivateKey i) (isKeyID i)
       (grant_claims cr i sid acl req (truncate_second now) (b64_encode r) publicKey) = Some grant"
    "mlen (isIssued (cleanupIssuedLocked (truncate_second now) i)) < serviceAdmissionGrantMaximumTracked"
    "issuer = Some ((cleanupIssuedLocked (truncate_second now) i)\<lparr>isIssued :=
       mput (grant_hash cr (b64_encode r))
         \<lparr>igServiceID = sid, igChannelID = grChannelID req, igExpiresAt = expires\<rparr>
         (isIssued (cleanupIssuedLocked (truncate_second now) i))\<rparr>)"
  using assms
  by (auto simp: issue_def Let_def newServiceAdmissionGrantID_def split: if_splits option.splits)

lemma issue_fails:
  "issue cr raw sid acl req now (Some i) = (Inl e, issuer) \<Longrightarrow>
   issuer = Some i \<or> issuer = Some (cleanupIssuedLocked (truncate_second now) i)"
  by (auto simp: issue_def Let_def split: if_splits option.splits)

section \<open>The table of issued grants\<close>

definition issuer_inv :: "serviceAdmissionGrantIssuer \<Rightarrow> bool" where
  "issuer_inv i \<longleftrightarrow> gomap_ok (isIssued i) \<and> mlen (isIssued i) \<le> serviceAdmissionGrantMaximumTracked
     \<and> serviceAdmissionGrantMinimumLifetime \<le> isLifetime i \<and> isLifetime i \<le> serviceAdmissionGrantMaximumLifetime"

text \<open>Operations before the instant \<open>t\<close> that do not issue a grant with the hash \<open>h\<close>.\<close>

inductive issuer_step ::
  "int \<Rightarrow> string \<Rightarrow> serviceAdmissionGrantIssuer \<Rightarrow> serviceAdmissionGrantIssuer \<Rightarrow> bool" for t h where
  issued: "issue cr raw sid acl req now (Some i) = (r, Some i') \<Longrightarrow> now < t \<Longrightarrow>
     (\<And>x. raw = Some x \<Longrightarrow> grant_hash cr (b64_encode x) \<noteq> h) \<Longrightarrow> issuer_step t h i i'"
| looked_up: "issuedGrant k now (Some i) = (g, Some i') \<Longrightarrow> now < t \<Longrightarrow> issuer_step t h i i'"

inductive_cases issuer_stepE: "issuer_step t h i i'"

lemma cleanup_inv: "issuer_inv i \<Longrightarrow> issuer_inv (cleanupIssuedLocked now i)"
  unfolding issuer_inv_def cleanupIssuedLocked_def
  by (auto simp: gomap_ok_filter intro: order_trans [OF length_filter_le])

lemma cleanup_get:
  "gomap_ok (isIssued i) \<Longrightarrow> mget (isIssued (cleanupIssuedLocked now i)) h =
     (case mget (isIssued i) h of None \<Rightarrow> None | Some g \<Rightarrow> if now < igExpiresAt g then Some g else None)"
  unfolding cleanupIssuedLocked_def
  by (simp add: gomap_ok_mget_filter [where P = "\<lambda>h g. now < igExpiresAt g"])

lemma issue_inv:
  assumes "issuer_inv i" and "issue cr raw sid acl req now (Some i) = (r, Some i')"
  shows "issuer_inv i'"
proof (cases r)
  case (Inl e)
  then show ?thesis using assms issue_fails cleanup_inv by blast
next
  case (Inr p)
  then obtain grant expires where "issue cr raw sid acl req now (Some i) = (Inr (grant, expires), Some i')"
    using assms(2) by (cases p) simp
  then show ?thesis
  proof (cases rule: issue_cases)
    case (1 x publicKey)
    then show ?thesis
      using cleanup_inv [OF assms(1), of "truncate_second now"]
      by (auto simp: issuer_inv_def mlen_put cleanupIssuedLocked_def)
  qed
qed

lemma issuer_step_inv: "issuer_step t h i i' \<Longrightarrow> issuer_inv i \<Longrightarrow> issuer_inv i'"
  by (auto elim!: issuer_stepE intro: issue_inv cleanup_inv simp: issuedGrant_def Let_def)

interpretation grant_table: bounded_table "issuer_step t h" issuer_inv isIssued serviceAdmissionGrantMaximumTracked for t h
  by unfold_locales (blast intro: issuer_step_inv, simp_all add: issuer_inv_def)

lemma issuer_step_keeps:
  assumes "issuer_step t h i i'" and "issuer_inv i" and "mget (isIssued i) h = Some g" and "t \<le> igExpiresAt g"
  shows "mget (isIssued i') h = Some g"
  using assms(1)
proof (cases rule: issuer_step.cases)
  case (issued cr raw sid acl req now r)
  have ok: "gomap_ok (isIssued i)" using assms(2) by (simp add: issuer_inv_def)
  have keep: "mget (isIssued (cleanupIssuedLocked (truncate_second now) i)) h = Some g"
    using assms(3,4) issued(2) truncate_le [of now] by (simp add: cleanup_get [OF ok])
  show ?thesis
  proof (cases r)
    case (Inl e)
    then show ?thesis using issue_fails [of cr raw sid acl req now i e] issued(1) keep assms(3) by auto
  next
    case (Inr p)
    then obtain grant expires where s: "issue cr raw sid acl req now (Some i) = (Inr (grant, expires), Some i')"
      using issued(1) by (cases p) simp
    from s show ?thesis
    proof (cases rule: issue_cases)
      case (1 x publicKey)
      then show ?thesis using keep issued(3) by (auto simp: mget_put)
    qed
  qed
next
  case (looked_up k now g')
  have "gomap_ok (isIssued i)" using assms(2) by (simp add: issuer_inv_def)
  then show ?thesis using looked_up assms(3,4) by (auto simp: issuedGrant_def Let_def cleanup_get)
qed

lemma issuer_run_keeps:
  assumes "(issuer_step t h)\<^sup>*\<^sup>* i i'" and "issuer_inv i" and "mget (isIssued i) h = Some g" and "t \<le> igExpiresAt g"
  shows "mget (isIssued i') h = Some g"
  using assms(1)
proof (induction rule: rtranclp_induct)
  case (step j k)
  then show ?case using issuer_step_keeps grant_table.run_inv assms(2,4) by blast
qed (rule assms(3))

lemma load_issuer:
  assumes "loadServiceAdmissionGrantIssuer kf config = Inr (Some i)"
  shows "issuer_inv i \<and> isIssued i = [] \<and> serviceAdmissionGrantKeyIDPattern (isKeyID i)
     \<and> validServiceAdmissionIssuerValue (isIssuer i) \<and> validServiceAdmissionIssuerValue (isAudience i)
     \<and> length (isPrivateKey i) = 64"
proof -
  have lt: "seconds * second \<le> serviceAdmissionGrantMaximumLifetime \<and>
      serviceAdmissionGrantMinimumLifetime \<le> seconds * second"
    if "\<not> (seconds < serviceAdmissionGrantMinimumLifetime div second
           \<or> serviceAdmissionGrantMaximumLifetime div second < seconds)" for seconds
    using that by (simp add: serviceAdmissionGrantMaximumLifetime_def serviceAdmissionGrantMinimumLifetime_def)
  have "length k = 64" if "loadServiceAdmissionSigningKey kf f = Inr k" for f k
    using that by (auto simp: loadServiceAdmissionSigningKey_def split: option.splits if_splits)
  moreover have "serviceAdmissionGrantMinimumLifetime \<le> serviceAdmissionGrantDefaultLifetime"
    "serviceAdmissionGrantDefaultLifetime \<le> serviceAdmissionGrantMaximumLifetime"
    by (simp_all add: serviceAdmissionGrantDefaultLifetime_def serviceAdmissionGrantMaximumLifetime_def
        serviceAdmissionGrantMinimumLifetime_def second_def)
  ultimately show ?thesis
    using assms lt
    by (auto simp: loadServiceAdmissionGrantIssuer_def Let_def issuer_inv_def
        split: if_splits option.splits sum.splits)
qed

section \<open>Grants that are too long\<close>

lemma escape_length: "length s \<le> length (escape s)"
proof (induction s rule: length_induct)
  case (1 s)
  show ?case
  proof (cases s)
    case (Cons c s')
    show ?thesis
    proof (cases "byte_of c < 128")
      case True
      have "1 \<le> length (escape_ascii c)" by (simp add: escape_ascii_def)
      moreover have "length s' \<le> length (escape s')" using 1 Cons by simp
      ultimately show ?thesis using True Cons by (simp add: escape.simps(2))
    next
      case False
      obtain n ok where h: "rune_head (c # s') = (n, ok)" by fastforce
      have n: "1 \<le> n" "n \<le> 4" "n \<le> length (c # s')"
        using rune_head_size [of "c # s'"] h by auto
      have "length (drop (n - 1) s') < length s" using Cons by simp
      then have "length (drop (n - 1) s') \<le> length (escape (drop (n - 1) s'))" using 1 by blast
      then show ?thesis
        using False Cons h n by (auto simp: escape.simps(2) Let_def)
    qed
  qed simp
qed

lemma commas_length: "sum_list (map length xs) \<le> length (commas xs)"
  by (induction xs rule: commas.induct) simp_all

lemma json_member_length: "length s \<le> length (json_member (k, JStr s))"
  using escape_length [of s] by (simp add: json_member_def quote_string_def)

lemma claims_length: "length (gcIssuer c) + length (gcAudience c) \<le> length (json_print (enc_claims c))"
proof -
  obtain rest where c: "enc_claims c = JObj ((''iss'', JStr (gcIssuer c)) # (''aud'', JStr (gcAudience c)) # rest)"
    by (simp add: enc_claims_def)
  have "length (gcIssuer c) + length (gcAudience c)
      \<le> length (json_member (''iss'', JStr (gcIssuer c))) + length (json_member (''aud'', JStr (gcAudience c)))"
    by (intro add_mono json_member_length)
  also have "\<dots> \<le> sum_list (map length (map json_member
      ((''iss'', JStr (gcIssuer c)) # (''aud'', JStr (gcAudience c)) # rest)))" by simp
  also have "\<dots> \<le> length (json_print (enc_claims c))"
    unfolding c json_print_obj by (intro order_trans [OF commas_length]) simp
  finally show ?thesis .
qed

lemma header_length: "62 \<le> length (json_print (enc_header \<lparr>ghAlgorithm = ''EdDSA'', ghKeyID = k,
     ghType = ''incomudon-service-admission+jwt''\<rparr>))"
proof -
  have q: "length (json_member (n, JStr v)) \<ge> length n + length v + 5" for n v
    using escape_length [of n] escape_length [of v] by (simp add: json_member_def quote_string_def)
  let ?ms = "[(''alg'', JStr ''EdDSA''), (''kid'', JStr k), (''typ'', JStr ''incomudon-service-admission+jwt'')]"
  have "60 \<le> sum_list (map length (map json_member ?ms))"
    using q [of "''alg''" "''EdDSA''"] q [of "''kid''" k] q [of "''typ''" "''incomudon-service-admission+jwt''"]
    by simp
  also have "\<dots> \<le> length (commas (map json_member ?ms))" by (rule commas_length)
  finally show ?thesis unfolding enc_header_def json_print_obj by simp
qed

lemma grant_length:
  assumes "signServiceAdmissionGrant cr key kid claims = Some grant" and "\<And>k m. length (crSign cr k m) = 64"
  shows "length grant \<le> serviceAdmissionGrantMaximumBytes"
    and "3 * (length grant) \<ge> 4 * (length (gcIssuer claims) + length (gcAudience claims)) + 3 * 171"
proof -
  let ?h = "json_print (enc_header \<lparr>ghAlgorithm = ''EdDSA'', ghKeyID = kid, ghType = ''incomudon-service-admission+jwt''\<rparr>)"
  let ?p = "json_print (enc_claims claims)"
  from assms(1) show "length grant \<le> serviceAdmissionGrantMaximumBytes"
    by (auto simp: signServiceAdmissionGrant_def Let_def split: if_splits)
  have g: "length grant = length (b64_encode ?h) + length (b64_encode ?p) + 88"
    using assms by (auto simp: signServiceAdmissionGrant_def Let_def length_b64_encode split: if_splits)
  have arith: "83 \<le> a \<Longrightarrow> 4 * p \<le> 3 * b \<Longrightarrow> n \<le> p \<Longrightarrow> 4 * n + 3 * 171 \<le> 3 * (a + b + 88)" for a b p n :: nat
    by arith
  have "83 \<le> length (b64_encode ?h)" using header_length [of kid] by (simp add: length_b64_encode)
  moreover have "4 * length ?p \<le> 3 * length (b64_encode ?p)" by (simp add: length_b64_encode)
  ultimately show "3 * (length grant) \<ge> 4 * (length (gcIssuer claims) + length (gcAudience claims)) + 3 * 171"
    unfolding g using claims_length [of claims] by (rule arith)
qed

section \<open>Properties\<close>

text \<open>
  C4. A grant that is issued says no more than the channel ACL: it names the service, the
  channel, the sender and the role of the request, which is the role of the ACL; the ACL is
  enabled and allows listening; the talk and interrupt permissions are there only where the
  request asks for them and the ACL allows them, an interrupt only with talk and with exactly
  the ACL's priority, which is not 0; it is bound to the key of the request, runs for the
  issuer's lifetime from the second it was issued in, and has at most 768 bytes.
\<close>

theorem grant_within_acl:
  assumes "issue cr raw sid acl req now (Some i) = (Inr (grant, expires), issuer)"
  shows "\<exists>claims publicKey.
       signServiceAdmissionGrant cr (isPrivateKey i) (isKeyID i) claims = Some grant
     \<and> length grant \<le> serviceAdmissionGrantMaximumBytes
     \<and> gcServiceID claims = sid \<and> gcChannelID claims = grChannelID req \<and> gcSenderID claims = grSenderID req
     \<and> gcRole claims = aclRole acl \<and> aclEnabled acl \<and> aclAllowListen acl
     \<and> gcPermissions claims < 8 \<and> bit (gcPermissions claims) 0
     \<and> (bit (gcPermissions claims) 1 \<longleftrightarrow> grRequestTalk req) \<and> (grRequestTalk req \<longrightarrow> aclAllowTalk acl)
     \<and> (bit (gcPermissions claims) 2 \<longleftrightarrow> grRequestInterrupt req)
     \<and> (grRequestInterrupt req \<longrightarrow> grRequestTalk req \<and> aclAllowInterrupt acl \<and> aclInterruptPriority acl \<noteq> 0)
     \<and> gcPriority claims = (if grRequestInterrupt req then Some (aclInterruptPriority acl) else None)
     \<and> grServicePublicKey req = b64_encode publicKey \<and> length publicKey = 32
     \<and> gcJWKThumbprint claims = b64_encode (crSha256 cr publicKey)
     \<and> expires = truncate_second now + isLifetime i \<and> gcExpiresAt claims = unix expires
     \<and> gcIssuedAt claims = unix now"
  using assms
proof (cases rule: issue_cases)
  case (1 r publicKey)
  let ?c = "grant_claims cr i sid acl req (truncate_second now) (b64_encode r) publicKey"
  have pk: "grServicePublicKey req = b64_encode publicKey \<and> length publicKey = 32"
    using 1(2) by (auto simp: decodeServiceAdmissionPublicKey_def split: option.splits if_splits)
  have "length grant \<le> serviceAdmissionGrantMaximumBytes"
    using 1(10) by (auto simp: signServiceAdmissionGrant_def Let_def split: if_splits)
  moreover have "unix (truncate_second now) = unix now"
    by (simp add: unix_def truncate_second_def minus_mod_eq_mult_div)
  moreover have "gcPermissions ?c = (if grRequestInterrupt req then (if grRequestTalk req then 7 else 5)
      else if grRequestTalk req then 3 else 1)"
    by (simp add: grant_claims_def Let_def)
  moreover have "bit (7 :: u8) 0" "bit (7 :: u8) 1" "bit (7 :: u8) 2" "bit (3 :: u8) 0" "bit (3 :: u8) 1"
      "\<not> bit (3 :: u8) 2" "bit (1 :: u8) 0" "\<not> bit (1 :: u8) 1" "\<not> bit (1 :: u8) 2"
    by (simp_all add: bit_iff_odd)
  ultimately show ?thesis
    using 1 pk by (intro exI [of _ ?c] exI [of _ publicKey])
      (auto simp: grant_claims_def Let_def split: prod.splits)
qed

text \<open>
  C34. A grant that was issued is known under its hash exactly until it expires, whatever
  else is issued and looked up in between, unless another grant has the same hash; and the
  issuer never tracks more than 4096 grants.
\<close>

theorem issued_known_until_expiry:
  assumes "loadServiceAdmissionGrantIssuer kf config = Inr (Some i0)"
    and "(issuer_step t h)\<^sup>*\<^sup>* i0 i" and "h = grant_hash cr (b64_encode raw)"
    and "issue cr (Some raw) sid acl req now (Some i) = (Inr (grant, expires), Some i1)"
    and "(issuer_step expires h)\<^sup>*\<^sup>* i1 i2"
  shows "fst (issuedGrant h later (Some i2)) =
       (if later < expires then Some \<lparr>igServiceID = sid, igChannelID = grChannelID req, igExpiresAt = expires\<rparr> else None)
     \<and> mlen (isIssued i2) \<le> serviceAdmissionGrantMaximumTracked"
proof -
  have inv: "issuer_inv i" using grant_table.run_inv [OF assms(2)] load_issuer [OF assms(1)] by blast
  have inv1: "issuer_inv i1" using issue_inv [OF inv assms(4)] .
  have inv2: "issuer_inv i2" using grant_table.run_inv [OF assms(5) inv1] .
  let ?g = "\<lparr>igServiceID = sid, igChannelID = grChannelID req, igExpiresAt = expires\<rparr>"
  have "mget (isIssued i1) h = Some ?g"
    using assms(4) by (cases rule: issue_cases) (auto simp: assms(3) mget_put)
  then have g: "mget (isIssued i2) h = Some ?g"
    by (rule issuer_run_keeps [OF assms(5) inv1]) simp
  have "gomap_ok (isIssued i2)" using inv2 by (simp add: issuer_inv_def)
  then show ?thesis
    using g grant_table.run_bound [OF assms(5) inv1] by (simp add: issuedGrant_def Let_def cleanup_get)
qed

text \<open>
  An issuer that is loaded gives grants of 60 seconds to an hour; a configuration
  without any of the four values gives no issuer.
\<close>

theorem issuer_configuration:
  assumes "loadServiceAdmissionGrantIssuer kf config = Inr issuer"
  shows "case issuer of
       None \<Rightarrow> trim_space (acGrantSigningKeyFile config) = [] \<and> trim_space (acGrantKeyID config) = []
         \<and> trim_space (acGrantIssuer config) = [] \<and> trim_space (acGrantAudience config) = []
     | Some i \<Rightarrow> 60 * second \<le> isLifetime i \<and> isLifetime i \<le> 3600 * second \<and> isIssued i = []
         \<and> length (isPrivateKey i) = 64 \<and> isKeyID i = acGrantKeyID config \<and> isIssuer i = acGrantIssuer config
         \<and> isAudience i = acGrantAudience config
         \<and> (trim_space (acGrantTTLSeconds config) = [] \<longrightarrow> isLifetime i = 300 * second)"
proof (cases issuer)
  case None
  then show ?thesis
    using assms by (auto simp: loadServiceAdmissionGrantIssuer_def Let_def split: if_splits option.splits sum.splits)
next
  case (Some i)
  have "isKeyID i = acGrantKeyID config \<and> isIssuer i = acGrantIssuer config \<and> isAudience i = acGrantAudience config
      \<and> (trim_space (acGrantTTLSeconds config) = [] \<longrightarrow> isLifetime i = 300 * second)"
    using assms Some
    by (auto simp: loadServiceAdmissionGrantIssuer_def Let_def serviceAdmissionGrantDefaultLifetime_def
        split: if_splits option.splits sum.splits)
  then show ?thesis
    using load_issuer [OF assms [unfolded Some]] Some
    by (simp add: issuer_inv_def serviceAdmissionGrantMinimumLifetime_def serviceAdmissionGrantMaximumLifetime_def)
qed

text \<open>
  An issuer may be configured that can never issue: an issuer and an audience of 256
  bytes are accepted, but then every grant is longer than the 768 bytes allowed.
\<close>

theorem long_issuer_never_issues:
  assumes "length (isIssuer i) + length (isAudience i) = 512" and "\<And>k m. length (crSign cr k m) = 64"
  shows "\<exists>e. issue cr raw sid acl req now (Some i) = (Inl e, Some i)"
proof -
  have none: "signServiceAdmissionGrant cr key kid (grant_claims cr i sid acl req at gid pk) = None" for key kid "at" gid pk
  proof (rule ccontr)
    let ?c = "grant_claims cr i sid acl req at gid pk"
    assume "signServiceAdmissionGrant cr key kid ?c \<noteq> None"
    then obtain grant where g: "signServiceAdmissionGrant cr key kid ?c = Some grant" by blast
    have "gcIssuer ?c = isIssuer i" "gcAudience ?c = isAudience i"
      by (simp_all add: grant_claims_def Let_def)
    then show False
      using grant_length [OF g assms(2)] assms(1) by (simp add: serviceAdmissionGrantMaximumBytes_def)
  qed
  then show ?thesis by (simp add: issue_def Let_def none split: option.split)
qed

text \<open>
  C11. A denial outlasts the grants it is for: when a reload has succeeded, every grant for
  a service and a channel the reload took away, issued before it or within half an hour after
  it, expires no later than the denial that is pending for them.
\<close>

theorem denial_outlasts_grants:
  assumes "reloadAuthorizer env raws now f1 f2 f3 previous (Some cl) = (Inr n, a, Some cl')"
    and "loadManagementAPIAuthorizer g1 g2 g3 = Inr previous" and "queue_inv cl" and "clStore cl"
    and "now + managementAPIAutomaticRevocationDenyWindow < 2 ^ 63"
    and "loses previous a sid (grChannelID req)"
    and "loadServiceAdmissionGrantIssuer kf config = Inr (Some i0)" and "(issuer_step t h)\<^sup>*\<^sup>* i0 i"
    and "issue cr raw sid acl req instant (Some i) = (Inr (grant, expires), issuer)"
    and "unix instant \<le> now + 30 * 60"
  shows "\<exists>k cmd. mget (clPending cl') k = Some cmd \<and> rvServiceID (pcMessage cmd) = sid
     \<and> rvChannelID (pcMessage cmd) = grChannelID req \<and> unix expires \<le> rvDenyUntil (pcMessage cmd)"
proof -
  have inv: "issuer_inv i" using grant_table.run_inv [OF assms(8)] load_issuer [OF assms(7)] by blast
  have "expires = truncate_second instant + isLifetime i" using assms(9) by (cases rule: issue_cases)
  also have "\<dots> \<le> instant + 3600 * second"
    using truncate_le [of instant] inv by (simp add: issuer_inv_def serviceAdmissionGrantMaximumLifetime_def)
  finally have "unix expires \<le> unix instant + 3600" using unix_mono unix_add by metis
  then have "unix expires \<le> now + managementAPIAutomaticRevocationDenyWindow"
    using assms(10) by (simp add: managementAPIAutomaticRevocationDenyWindow_def)
  then show ?thesis using reload_queued [OF assms(1-5)] assms(6) by fastforce
qed

text \<open>
  C35. A revocation request that passes the check denies for at most 90 minutes from now,
  and where it names a grant, this is a grant the issuer gave for that channel (and that
  service, if one is named), not yet expired, and the denial ends no later than the grant.
\<close>

theorem revocation_in_scope:
  assumes "validateServiceAdmissionRevocation now now' request issuer = (True, issuer')"
    and "\<And>i. issuer = Some i \<Longrightarrow> issuer_inv i"
  shows "unix now < rqDenyUntil request \<and> rqDenyUntil request \<le> unix now + 90 * 60
     \<and> validServiceAdmissionRevocationReason (rqReason request)
     \<and> (rqServiceID request \<noteq> [] \<or> rqGrantIDHash request \<noteq> [])
     \<and> (rqServiceID request = [] \<or> validManagementServiceID (rqServiceID request))
     \<and> (rqGrantIDHash request \<noteq> [] \<longrightarrow>
          (\<exists>i g. issuer = Some i \<and> mget (isIssued i) (rqGrantIDHash request) = Some g \<and> now' < igExpiresAt g
             \<and> igChannelID g = rqChannelID request
             \<and> (rqServiceID request \<noteq> [] \<longrightarrow> igServiceID g = rqServiceID request)
             \<and> rqDenyUntil request \<le> unix (igExpiresAt g)))"
proof -
  have w: "managementServiceAdmissionMaximumDenyWindow div second = 90 * 60"
    by (simp add: managementServiceAdmissionMaximumDenyWindow_def)
  show ?thesis
  proof (cases "rqGrantIDHash request = []")
    case True
    then show ?thesis
      using assms(1) w by (auto simp: validateServiceAdmissionRevocation_def split: if_splits)
  next
    case False
    then obtain i g where i: "issuer = Some i" and g: "mget (isIssued (cleanupIssuedLocked now' i)) (rqGrantIDHash request) = Some g"
      and scope: "igChannelID g = rqChannelID request" "rqServiceID request \<noteq> [] \<longrightarrow> igServiceID g = rqServiceID request"
        "rqDenyUntil request \<le> unix (igExpiresAt g)"
      using assms(1) by (auto simp: validateServiceAdmissionRevocation_def issuedGrant_def Let_def
          split: if_splits option.splits)
    have "gomap_ok (isIssued i)" using assms(2) i by (simp add: issuer_inv_def)
    from g have "mget (isIssued i) (rqGrantIDHash request) = Some g \<and> now' < igExpiresAt g"
      unfolding cleanup_get [OF \<open>gomap_ok (isIssued i)\<close>] by (auto split: option.splits if_splits)
    then show ?thesis
      using assms(1) w i scope False
      by (auto simp: validateServiceAdmissionRevocation_def split: if_splits)
  qed
qed

section \<open>Witnesses\<close>

definition sample_crypto :: crypto where
  "sample_crypto = \<lparr>crSha256 = \<lambda>_. replicate 32 CHR ''h'', crSign = \<lambda>_ _. replicate 64 CHR ''s''\<rparr>"

definition sample_key_files :: key_files where
  "sample_key_files = \<lparr>kfRead = \<lambda>_. Some ''pem'', kfPem = \<lambda>_. Some (''PRIVATE KEY'', ''der'', []),
     kfPKCS8 = \<lambda>_. Some (Some (replicate 64 CHR ''k''))\<rparr>"

definition sample_api_config :: managementAPIConfig where
  "sample_api_config = \<lparr>acListen = [], acCertificateFile = [], acPrivateKeyFile = [], acClientCAFile = [],
     acServicesFile = [], acChannelACLFile = [], acGlobalPermissionsFile = [], acGrantSigningKeyFile = ''k'',
     acGrantKeyID = ''k'', acGrantIssuer = ''m'', acGrantAudience = ''r'', acGrantTTLSeconds = [],
     acEventDelivery = [], acAclReloadInterval = []\<rparr>"

definition sample_issuer :: serviceAdmissionGrantIssuer where
  "sample_issuer = \<lparr>isPrivateKey = replicate 64 CHR ''k'', isKeyID = ''k'', isIssuer = ''m'', isAudience = ''r'',
     isLifetime = 300 * second, isIssued = []\<rparr>"

definition sample_grant_request :: managementServiceAdmissionGrantRequest where
  "sample_grant_request = \<lparr>grChannelID = 7, grSenderID = 9, grRole = ''recorder'', grRequestTalk = False,
     grRequestInterrupt = False, grServicePublicKey = b64_encode (replicate 32 CHR ''p'')\<rparr>"

lemma trim_one [simp]: "trim_space ''k'' = ''k''" "trim_space ''m'' = ''m''" "trim_space ''r'' = ''r''"
  by (rule trim_space_visible; simp add: visible_def)+

lemma sample_issuer_loaded:
  "loadServiceAdmissionGrantIssuer sample_key_files sample_api_config = Inr (Some sample_issuer)"
  by (simp add: loadServiceAdmissionGrantIssuer_def sample_api_config_def sample_key_files_def
      serviceAdmissionGrantKeyIDPattern_def service_id_char_def is_alnum_def is_digit_def is_lower_def
      validServiceAdmissionIssuerValue_def loadServiceAdmissionSigningKey_def sample_issuer_def
      serviceAdmissionGrantDefaultLifetime_def)

text \<open>The length of a grant with plain members is small enough.\<close>

lemma claim_keys [simp]:
  "list_all service_id_char ''iss''" "list_all service_id_char ''aud''" "list_all service_id_char ''svc''"
  "list_all service_id_char ''jti''" "list_all service_id_char ''iat''" "list_all service_id_char ''exp''"
  "list_all service_id_char ''ch''" "list_all service_id_char ''sid''" "list_all service_id_char ''role''"
  "list_all service_id_char ''perm''" "list_all service_id_char ''cnf''" "list_all service_id_char ''jkt''"
  by (simp_all add: service_id_char_def is_alnum_def is_digit_def is_lower_def)

lemmas claim_lengths = claim_keys [THEN plain_key]

definition sample_claims :: "string \<Rightarrow> serviceAdmissionGrantClaims" where
  "sample_claims raw = \<lparr>gcIssuer = ''m'', gcAudience = ''r'', gcServiceID = ''rec'', gcGrantID = b64_encode raw,
     gcIssuedAt = 100, gcExpiresAt = 400, gcChannelID = 7, gcSenderID = 9, gcRole = ''recorder'',
     gcPermissions = 1, gcPriority = None, gcJWKThumbprint = b64_encode (replicate 32 CHR ''h'')\<rparr>"

lemma sample_claims_length:
  assumes "length raw = 24"
  shows "length (json_print (enc_claims (sample_claims raw))) \<le> 300"
proof -
  have p: "plain_text ''m''" "plain_text ''r''" "plain_text ''rec''" "plain_text ''recorder''"
    by (simp_all add: plain_text_def service_id_char_def is_alnum_def is_digit_def is_lower_def)
  have i: "length (int_to_dec 100) \<le> 19" "length (int_to_dec 400) \<le> 19" by (rule int63_dec_length; simp)+
  have w: "length (word_to_dec (7 :: u32)) \<le> 10" "length (word_to_dec (9 :: u32)) \<le> 10" by (rule word32_dec_length)+
  have "length (word_to_dec (1 :: u8)) \<le> 3"
    using nat_to_dec_length [of 3 1] by (simp add: word_to_dec_def)
  moreover have "length (json_print (JObj [(''jkt'', JStr (b64_encode (replicate 32 CHR ''h'')))])) \<le> 2 + 52"
    by (rule order_trans [OF length_json_obj])
      (simp add: claim_lengths plain_quote plain_b64 length_b64_encode del: b64_encode.simps)
  ultimately have "sum_list (map (Suc \<circ> length \<circ> json_member)
      [(''iss'', JStr ''m''), (''aud'', JStr ''r''), (''svc'', JStr ''rec''), (''jti'', JStr (b64_encode raw)),
       (''iat'', enc_int 100), (''exp'', enc_int 400), (''ch'', enc_word (7 :: u32)), (''sid'', enc_word (9 :: u32)),
       (''role'', JStr ''recorder''), (''perm'', enc_word (1 :: u8)),
       (''cnf'', JObj [(''jkt'', JStr (b64_encode (replicate 32 CHR ''h'')))])]) \<le> 298"
    using i w p assms
    by (simp add: claim_lengths enc_word_def enc_int_def plain_quote plain_b64 length_b64_encode
        del: b64_encode.simps json_print.simps(6))
  then show ?thesis
    unfolding enc_claims_def sample_claims_def omit_nil_def serviceAdmissionGrantClaims.select_convs option.case append.simps
    by (intro order_trans [OF length_json_obj]) linarith
qed

lemma sample_header_length: "length (json_print (enc_header \<lparr>ghAlgorithm = ''EdDSA'', ghKeyID = ''k'',
     ghType = ''incomudon-service-admission+jwt''\<rparr>)) \<le> 90"
  by (simp add: enc_header_def quote_string_def escape.simps(2) escape_ascii_def)

lemma sample_signed:
  assumes "length raw = 24"
  shows "\<exists>grant. signServiceAdmissionGrant sample_crypto (replicate 64 CHR ''k'') ''k'' (sample_claims raw) = Some grant"
  using sample_claims_length [OF assms] sample_header_length
  by (simp add: signServiceAdmissionGrant_def Let_def sample_crypto_def length_b64_encode
      serviceAdmissionGrantMaximumBytes_def del: b64_encode.simps json_print.simps)

abbreviation sample_grant_raw :: string where
  "sample_grant_raw \<equiv> replicate 24 CHR ''g''"

abbreviation sample_grant_hash :: string where
  "sample_grant_hash \<equiv> grant_hash sample_crypto (b64_encode sample_grant_raw)"

definition issued_issuer :: serviceAdmissionGrantIssuer where
  "issued_issuer = sample_issuer\<lparr>isIssued := [(sample_grant_hash,
     \<lparr>igServiceID = ''rec'', igChannelID = 7, igExpiresAt = 400 * second\<rparr>)]\<rparr>"

lemma sample_times: "truncate_second (100 * second) = 100 * second" "unix (100 * second) = 100"
    "unix (400 * second) = 400"
  by (simp_all add: truncate_second_def unix_def)

lemma sample_issue: "\<exists>grant. issue sample_crypto (Some sample_grant_raw) ''rec'' sample_acl sample_grant_request
    (100 * second) (Some sample_issuer) = (Inr (grant, 400 * second), Some issued_issuer)"
proof -
  obtain grant where g: "signServiceAdmissionGrant sample_crypto (replicate 64 CHR ''k'') ''k''
      (sample_claims sample_grant_raw) = Some grant"
    using sample_signed [of sample_grant_raw] by auto
  have pk: "decodeServiceAdmissionPublicKey (b64_encode (replicate 32 CHR ''p'')) = Some (replicate 32 CHR ''p'')"
    by (simp add: decodeServiceAdmissionPublicKey_def del: b64_encode.simps)
  have v: "validManagementServiceID ''rec''"
    by (simp add: validManagementServiceID_def privateControlServiceIDPattern_def service_id_char_def
        is_alnum_def is_digit_def is_lower_def)
  have c: "grant_claims sample_crypto sample_issuer ''rec'' sample_acl sample_grant_request (100 * second)
      (b64_encode sample_grant_raw) (replicate 32 CHR ''p'') = sample_claims sample_grant_raw"
    using sample_times
    by (simp add: grant_claims_def sample_issuer_def sample_grant_request_def sample_claims_def sample_crypto_def
        del: b64_encode.simps replicate.simps)
  have i: "isPrivateKey sample_issuer = replicate 64 CHR ''k''" "isKeyID sample_issuer = ''k''"
      "isLifetime sample_issuer = 300 * second" "isIssued sample_issuer = []"
    by (simp_all add: sample_issuer_def)
  have r: "grRequestTalk sample_grant_request = False" "grRequestInterrupt sample_grant_request = False"
      "grRole sample_grant_request = ''recorder''" "grChannelID sample_grant_request = 7"
      "grServicePublicKey sample_grant_request = b64_encode (replicate 32 CHR ''p'')"
    unfolding sample_grant_request_def by simp_all
  have a: "aclEnabled sample_acl" "aclRole sample_acl = ''recorder''" "aclAllowListen sample_acl"
    by (simp_all add: sample_acl_def)
  show ?thesis
    unfolding issue_def option.case r a v pk newServiceAdmissionGrantID_def option.map sample_times Let_def c
      i(1,2) g issued_issuer_def
    by (simp add: a i(3,4) cleanupIssuedLocked_def serviceAdmissionGrantMaximumTracked_def v
        del: b64_encode.simps replicate.simps)
qed

lemma grant_within_acl_witness:
  "\<exists>grant. issue sample_crypto (Some sample_grant_raw) ''rec'' sample_acl sample_grant_request
       (100 * second) (Some sample_issuer) = (Inr (grant, 400 * second), Some issued_issuer)
     \<and> length grant \<le> serviceAdmissionGrantMaximumBytes"
  using sample_issue grant_within_acl by blast

lemma issued_known_until_expiry_witness:
  "fst (issuedGrant sample_grant_hash (399 * second) (Some issued_issuer))
       = Some \<lparr>igServiceID = ''rec'', igChannelID = 7, igExpiresAt = 400 * second\<rparr>
     \<and> fst (issuedGrant sample_grant_hash (400 * second) (Some issued_issuer)) = None"
proof -
  obtain grant where i: "issue sample_crypto (Some sample_grant_raw) ''rec'' sample_acl sample_grant_request
       (100 * second) (Some sample_issuer) = (Inr (grant, 400 * second), Some issued_issuer)"
    using sample_issue by blast
  note k = issued_known_until_expiry [OF sample_issuer_loaded rtranclp.rtrancl_refl refl i rtranclp.rtrancl_refl]
  have "grChannelID sample_grant_request = 7" by (simp add: sample_grant_request_def)
  then show ?thesis using k [of "399 * second"] k [of "400 * second"] by simp
qed

lemma issuer_configuration_witness:
  "loadServiceAdmissionGrantIssuer sample_key_files sample_api_config = Inr (Some sample_issuer)
     \<and> 60 * second \<le> isLifetime sample_issuer \<and> isLifetime sample_issuer \<le> 3600 * second"
  using issuer_configuration [OF sample_issuer_loaded] sample_issuer_loaded by simp

lemma long_issuer_never_issues_witness:
  "\<exists>e. issue sample_crypto (Some sample_grant_raw) ''rec'' sample_acl sample_grant_request (100 * second)
     (Some (sample_issuer\<lparr>isIssuer := replicate 256 CHR ''m'', isAudience := replicate 256 CHR ''r''\<rparr>))
     = (Inl e, Some (sample_issuer\<lparr>isIssuer := replicate 256 CHR ''m'', isAudience := replicate 256 CHR ''r''\<rparr>))"
  by (rule long_issuer_never_issues) (simp_all add: sample_crypto_def del: replicate.simps)

lemma denial_outlasts_grants_witness:
  "\<exists>cl k cmd. reloadAuthorizer good_env [Some sample_raw] (-400) sample_f1 bare_f2 bare_f3 sample_authorizer
       (Some new_client) = (Inr 1, bare_authorizer, Some cl)
     \<and> mget (clPending cl) k = Some cmd \<and> rvServiceID (pcMessage cmd) = ''rec'' \<and> 400 \<le> rvDenyUntil (pcMessage cmd)"
proof -
  obtain cl where r: "reloadAuthorizer good_env [Some sample_raw] (-400) sample_f1 bare_f2 bare_f3 sample_authorizer
      (Some new_client) = (Inr 1, bare_authorizer, Some cl)" using sample_reload by blast
  obtain grant where i: "issue sample_crypto (Some sample_grant_raw) ''rec'' sample_acl sample_grant_request
       (100 * second) (Some sample_issuer) = (Inr (grant, 400 * second), Some issued_issuer)"
    using sample_issue by blast
  have s: "clStore new_client" and d: "-400 + managementAPIAutomaticRevocationDenyWindow < 2 ^ 63"
    and l: "loses sample_authorizer bare_authorizer ''rec'' (grChannelID sample_grant_request)"
    by (simp_all add: new_client_def managementAPIAutomaticRevocationDenyWindow_def sample_loses sample_grant_request_def)
  have "unix (100 * second) \<le> -400 + 30 * 60" by (simp add: sample_times)
  from denial_outlasts_grants [OF r sample_loaded new_client_inv' s d l sample_issuer_loaded
      rtranclp.rtrancl_refl i this] r show ?thesis
    by (auto simp: sample_times)
qed

lemma revocation_in_scope_witness:
  "\<exists>g. mget (isIssued issued_issuer) sample_grant_hash = Some g \<and> 350 \<le> unix (igExpiresAt g)"
proof -
  let ?r = "\<lparr>rqChannelID = 7, rqServiceID = [], rqGrantIDHash = sample_grant_hash, rqReason = ''grant_revoked'',
      rqDenyUntil = 350\<rparr>"
  have hash: "sample_grant_hash = b64_encode (replicate 32 CHR ''h'')"
    unfolding grant_hash_def sample_crypto_def crypto.select_convs ..
  then have h: "validPrivateControlGrantIDHash sample_grant_hash"
    unfolding validPrivateControlGrantIDHash_iff by (intro exI [of _ "replicate 32 CHR ''h''"]) simp
  have "length sample_grant_hash = 43" unfolding hash length_b64_encode by simp
  then have ne: "sample_grant_hash \<noteq> []" by (metis list.size(3) numeral_eq_Suc nat.distinct(1))
  have "validateServiceAdmissionRevocation (100 * second) (100 * second) ?r (Some issued_issuer)
      = (True, Some issued_issuer)"
    using ne h by (simp add: validateServiceAdmissionRevocation_def sample_times validServiceAdmissionRevocationReason_def
        managementServiceAdmissionMaximumDenyWindow_def issuedGrant_def cleanupIssuedLocked_def issued_issuer_def
        del: b64_encode.simps replicate.simps)
  moreover have "issuer_inv issued_issuer"
  proof -
    obtain grant where "issue sample_crypto (Some sample_grant_raw) ''rec'' sample_acl sample_grant_request
       (100 * second) (Some sample_issuer) = (Inr (grant, 400 * second), Some issued_issuer)"
      using sample_issue by blast
    then show ?thesis using issue_inv load_issuer [OF sample_issuer_loaded] by blast
  qed
  ultimately show ?thesis using revocation_in_scope [of "100 * second" "100 * second" ?r "Some issued_issuer"] ne by auto
qed

end
