(* ===== verification/Http_Api.thy ===== *)
theory Http_Api
  imports Acl_Reload Grant_Properties
begin

text \<open>
  What the HTTP handlers of the Management API share: requests and answers, the JSON
  bodies, the query and the date format of the standard library, and the two path parsers
  (\<open>management_api.go\<close>, \<open>service_admission_api.go\<close> and \<open>main.go\<close>).
\<close>

section \<open>Requests and answers\<close>

text \<open>
  A request as \<open>net/http\<close> hands it over: the decoded path, the raw query, the raw first
  certificate of the verified peer, the body, and whether the connection can be flushed.
\<close>

record http_request =
  htMethod :: string
  htPath :: string
  htQuery :: string
  htPeer :: "string option"
  htBody :: string
  htFlusher :: bool

record http_response =
  rsStatus :: nat
  rsHeaders :: "(string, string) gomap"
  rsBody :: string

definition status_text :: "nat \<Rightarrow> string" where
  "status_text status =
     (if status = 400 then ''Bad Request''
      else if status = 403 then ''Forbidden''
      else if status = 404 then ''Not Found''
      else if status = 405 then ''Method Not Allowed''
      else if status = 500 then ''Internal Server Error''
      else if status = 503 then ''Service Unavailable''
      else [])"

text \<open>The newline is the one \<open>json.Encoder\<close> appends.  \<open>headers\<close> are those set before.\<close>

definition writeJSON :: "(string, string) gomap \<Rightarrow> nat \<Rightarrow> json \<Rightarrow> http_response" where
  "writeJSON headers status value =
     \<lparr>rsStatus = status, rsHeaders = mput ''Content-Type'' ''application/json'' headers,
      rsBody = json_print value @ [CHR 0x0A]\<rparr>"

definition writeManagementAPIError :: "(string, string) gomap \<Rightarrow> nat \<Rightarrow> http_response" where
  "writeManagementAPIError headers status =
     writeJSON headers status (JObj [(''error'', JStr (status_text status))])"

definition writeManagementAPIMethodNotAllowed :: "string \<Rightarrow> http_response" where
  "writeManagementAPIMethodNotAllowed allowed = writeManagementAPIError [(''Allow'', allowed)] 405"

abbreviation no_store :: "(string, string) gomap" where
  "no_store \<equiv> [(''Cache-Control'', ''no-store'')]"

text \<open>
  \<open>decodeManagementAPIRequest\<close>: one JSON value, unknown members refused, then only white
  space up to the end.  A body above 4096 bytes ends in the error of \<open>MaxBytesReader\<close>, which
  is not \<open>io.EOF\<close>.
\<close>

definition decodeManagementAPIRequest :: "'s fields \<Rightarrow> 's \<Rightarrow> string \<Rightarrow> 's option" where
  "decodeManagementAPIRequest fs zero body =
     (if 4096 < length body then None
      else case json_document body of
        None \<Rightarrow> None
      | Some v \<Rightarrow> dec_struct fs True v zero)"

section \<open>The query\<close>

text \<open>\<open>url.QueryUnescape\<close>, \<open>None\<close> for a malformed escape.\<close>

fun query_unescape :: "string \<Rightarrow> string option" where
  "query_unescape [] = Some []"
| "query_unescape (c # s) =
     (if c = CHR ''%'' then
        (case s of
           a # b # t \<Rightarrow>
             (case (hex_val a, hex_val b) of
                (Some h, Some l) \<Rightarrow> map_option (Cons (char_of (16 * h + l))) (query_unescape t)
              | _ \<Rightarrow> None)
         | _ \<Rightarrow> None)
      else map_option (Cons (if c = CHR ''+'' then CHR '' '' else c)) (query_unescape s))"

text \<open>The parts between the separators \<open>&\<close>.\<close>

fun split_amp :: "string \<Rightarrow> string list" where
  "split_amp [] = [[]]"
| "split_amp (c # s) =
     (if c = CHR ''&'' then [] # split_amp s
      else case split_amp s of [] \<Rightarrow> [[c]] | p # ps \<Rightarrow> (c # p) # ps)"

text \<open>
  The key of one part as \<open>url.ParseQuery\<close> stores it: parts that are empty, hold a semicolon or
  a malformed escape are dropped.
\<close>

definition query_key :: "string \<Rightarrow> string option" where
  "query_key part =
     (if part = [] \<or> CHR '';'' \<in> set part then None
      else
        let key = takeWhile (\<lambda>c. c \<noteq> CHR ''='') part;
            value = drop 1 (dropWhile (\<lambda>c. c \<noteq> CHR ''='') part)
        in case (query_unescape key, query_unescape value) of
             (Some k, Some _) \<Rightarrow> Some k
           | _ \<Rightarrow> None)"

definition query_has :: "string \<Rightarrow> string \<Rightarrow> bool" where
  "query_has query name = list_ex (\<lambda>part. query_key part = Some name) (split_amp query)"

section \<open>Dates\<close>

text \<open>
  \<open>time.RFC3339\<close> of an instant in UTC, in nanoseconds since 1970.  The civil date is counted
  in eras of 400 years that begin on the first of March.
\<close>

definition pad2 :: "int \<Rightarrow> string" where
  "pad2 n = (if n < 10 then CHR ''0'' # nat_to_dec (nat n) else nat_to_dec (nat n))"

definition pad4 :: "int \<Rightarrow> string" where
  "pad4 n =
     (let digits = nat_to_dec (nat \<bar>n\<bar>);
          padded = replicate (4 - length digits) CHR ''0'' @ digits
      in if n < 0 then CHR ''-'' # padded else padded)"

definition civil_date :: "int \<Rightarrow> int \<times> int \<times> int" where
  "civil_date days =
     (let z = days + 719468;
          era = z div 146097;
          doe = z mod 146097;
          yoe = (doe - doe div 1460 + doe div 36524 - doe div 146096) div 365;
          doy = doe - (365 * yoe + yoe div 4 - yoe div 100);
          mp = (5 * doy + 2) div 153;
          day = doy - (153 * mp + 2) div 5 + 1;
          month = (if mp < 10 then mp + 3 else mp - 9);
          year = yoe + era * 400 + (if month \<le> 2 then 1 else 0)
      in (year, month, day))"

definition format_rfc3339 :: "int \<Rightarrow> string" where
  "format_rfc3339 t =
     (let secs = t div second;
          (year, month, day) = civil_date (secs div 86400);
          rest = secs mod 86400
      in pad4 year @ ''-'' @ pad2 month @ ''-'' @ pad2 day @ ''T''
         @ pad2 (rest div 3600) @ '':'' @ pad2 (rest div 60 mod 60) @ '':'' @ pad2 (rest mod 60) @ ''Z'')"

section \<open>Paths\<close>

definition managementAPIVersionPrefix :: string where
  "managementAPIVersionPrefix = ''/v1''"

definition managementAPIRecordingJobIDFromStopPath :: "string \<Rightarrow> string option" where
  "managementAPIRecordingJobIDFromStopPath path =
     (let pre = managementAPIVersionPrefix @ ''/recording-jobs/'';
          suf = ''/stop''
      in if \<not> has_prefix path pre \<or> \<not> has_suffix path suf then None
         else
           let jid = trim_suffix (trim_prefix path pre) suf
           in if CHR ''/'' \<in> set jid \<or> rune_count jid = 0 \<or> 128 < rune_count jid then None else Some jid)"

definition managementAPIChannelIDFromPath :: "string \<Rightarrow> u32 option" where
  "managementAPIChannelIDFromPath path =
     (let pre = managementAPIVersionPrefix @ ''/channels/'';
          suf = ''/participants''
      in if \<not> has_prefix path pre \<or> \<not> has_suffix path suf then None
         else
           let value = trim_suffix (trim_prefix path pre) suf
           in if value = [] \<or> CHR ''/'' \<in> set value then None
              else case parseManagementU32 value False of Inl _ \<Rightarrow> None | Inr channelID \<Rightarrow> Some channelID)"

section \<open>Bodies of requests\<close>

definition fields_grant_request :: "managementServiceAdmissionGrantRequest fields" where
  "fields_grant_request =
     [(''channel_id'', field grChannelID (\<lambda>x s. s\<lparr>grChannelID := x\<rparr>) dec_word),
      (''sender_id'', field grSenderID (\<lambda>x s. s\<lparr>grSenderID := x\<rparr>) dec_word),
      (''role'', field grRole (\<lambda>x s. s\<lparr>grRole := x\<rparr>) dec_string),
      (''request_talk'', field grRequestTalk (\<lambda>x s. s\<lparr>grRequestTalk := x\<rparr>) dec_bool),
      (''request_interrupt'', field grRequestInterrupt (\<lambda>x s. s\<lparr>grRequestInterrupt := x\<rparr>) dec_bool),
      (''service_public_key'', field grServicePublicKey (\<lambda>x s. s\<lparr>grServicePublicKey := x\<rparr>) dec_string)]"

definition zero_grant_request :: managementServiceAdmissionGrantRequest where
  "zero_grant_request = \<lparr>grChannelID = 0, grSenderID = 0, grRole = [], grRequestTalk = False,
     grRequestInterrupt = False, grServicePublicKey = []\<rparr>"

definition fields_revocation_request :: "managementServiceAdmissionRevocationRequest fields" where
  "fields_revocation_request =
     [(''channel_id'', field rqChannelID (\<lambda>x s. s\<lparr>rqChannelID := x\<rparr>) dec_word),
      (''service_id'', field rqServiceID (\<lambda>x s. s\<lparr>rqServiceID := x\<rparr>) dec_string),
      (''grant_id_hash'', field rqGrantIDHash (\<lambda>x s. s\<lparr>rqGrantIDHash := x\<rparr>) dec_string),
      (''reason'', field rqReason (\<lambda>x s. s\<lparr>rqReason := x\<rparr>) dec_string),
      (''deny_until'', field rqDenyUntil (\<lambda>x s. s\<lparr>rqDenyUntil := x\<rparr>) dec_int64)]"

definition zero_revocation_request :: managementServiceAdmissionRevocationRequest where
  "zero_revocation_request = \<lparr>rqChannelID = 0, rqServiceID = [], rqGrantIDHash = [], rqReason = [], rqDenyUntil = 0\<rparr>"

record managementRecordingJobRequest =
  jrChannelID :: u32

definition fields_job_request :: "managementRecordingJobRequest fields" where
  "fields_job_request = [(''channel_id'', field jrChannelID (\<lambda>x s. s\<lparr>jrChannelID := x\<rparr>) dec_word)]"

definition zero_job_request :: managementRecordingJobRequest where
  "zero_job_request = \<lparr>jrChannelID = 0\<rparr>"

section \<open>Bodies of answers\<close>

record managementCapabilities =
  cpEventDelivery :: string
  cpAuditRetrieval :: bool

record managementHealthResponse =
  hrStatus :: string
  hrCapabilities :: managementCapabilities

record managementChannelSummary =
  csChannelID :: u32
  csParticipantCount :: int

record managementParticipant =
  mpSenderID :: u32
  mpState :: string

record managementServiceAdmissionGrantResponse =
  gpGrant :: string
  gpExpiresAt :: string

record managementServiceAdmissionRevocationResponse =
  rrOutcome :: string
  rrDenyUntil :: int
  rrAffectedMembershipCount :: u32
  rrTalkReleaseCount :: u32

record managementServiceAdmissionRevocationPendingResponse =
  rpStatus :: string
  rpMessageID :: string
  rpDenyUntil :: int

record managementRecordingJobResponse =
  jpJobID :: string
  jpState :: string

definition enc_health :: "managementHealthResponse \<Rightarrow> json" where
  "enc_health h = JObj [(''status'', JStr (hrStatus h)),
     (''capabilities'', JObj [(''event_delivery'', JStr (cpEventDelivery (hrCapabilities h))),
                              (''audit_retrieval'', JBool (cpAuditRetrieval (hrCapabilities h)))])]"

definition enc_channel_list :: "managementChannelSummary list \<Rightarrow> json" where
  "enc_channel_list cs = JObj [(''channels'', JArr (map (\<lambda>c.
     JObj [(''channel_id'', enc_word (csChannelID c)), (''participant_count'', enc_int (csParticipantCount c))]) cs))]"

definition enc_participant_list :: "u32 \<Rightarrow> managementParticipant list \<Rightarrow> json" where
  "enc_participant_list channelID ps = JObj [(''channel_id'', enc_word channelID),
     (''participants'', JArr (map (\<lambda>p.
        JObj [(''sender_id'', enc_word (mpSenderID p)), (''state'', JStr (mpState p))]) ps))]"

definition enc_grant_response :: "managementServiceAdmissionGrantResponse \<Rightarrow> json" where
  "enc_grant_response g = JObj [(''grant'', JStr (gpGrant g)), (''expires_at'', JStr (gpExpiresAt g))]"

definition enc_revocation_response :: "managementServiceAdmissionRevocationResponse \<Rightarrow> json" where
  "enc_revocation_response r = JObj [(''outcome'', JStr (rrOutcome r)), (''deny_until'', enc_int (rrDenyUntil r)),
     (''affected_membership_count'', enc_word (rrAffectedMembershipCount r)),
     (''talk_release_count'', enc_word (rrTalkReleaseCount r))]"

definition enc_revocation_pending :: "managementServiceAdmissionRevocationPendingResponse \<Rightarrow> json" where
  "enc_revocation_pending r = JObj [(''status'', JStr (rpStatus r)), (''message_id'', JStr (rpMessageID r)),
     (''deny_until'', enc_int (rpDenyUntil r))]"

definition enc_job_response :: "managementRecordingJobResponse \<Rightarrow> json" where
  "enc_job_response j = JObj [(''job_id'', JStr (jpJobID j)), (''state'', JStr (jpState j))]"

definition enc_event :: "managementEvent \<Rightarrow> json" where
  "enc_event e = JObj
     ([(''schema_version'', JStr (evSchemaVersion e)), (''event_id'', JStr (evEventID e)),
       (''occurred_at'', JStr (evOccurredAt e)), (''type'', JStr (evType e)),
       (''channel_id'', enc_ptr enc_word (evChannelID e))]
      @ omit_nil ''sender_id'' enc_word (evSenderID e)
      @ omit_nil ''service_id'' JStr (evServiceID e)
      @ omit_nil ''recording_job_id'' JStr (evRecordingJobID e)
      @ omit_nil ''state'' JStr (evState e)
      @ omit_nil ''reason'' JStr (evReason e))"

definition writeManagementSSEEvent :: "managementEvent \<Rightarrow> string" where
  "writeManagementSSEEvent event =
     ''id: '' @ evEventID event @ [CHR 0x0A] @ ''event: '' @ evType event @ [CHR 0x0A]
     @ ''data: '' @ json_print (enc_event event) @ [CHR 0x0A, CHR 0x0A]"

end
