(* ===== verification/Snapshot_Reassembly.thy ===== *)
theory Snapshot_Reassembly
  imports Pcl_Messages
begin

text \<open>
  Reassembly of a Relay state snapshot from its chunks
  (\<open>privateControlSnapshotReassembly.add\<close>, \<open>private_control.go\<close>, lines 788 to 822).
\<close>

section \<open>State and operation\<close>

datatype snapshot_error =
  InconsistentSnapshot | DuplicateChunk | IncompleteSnapshot | DuplicateParticipant

record privateControlSnapshotReassembly =
  raSnapshotID :: string
  raChunkCount :: u16
  raChunks :: "(u16, privateControlSnapshotChannel list) gomap"

text \<open>The loop over a channel's participants: \<open>ids\<close> are the senders seen in it so far.\<close>

fun check_participants ::
  "privateControlSnapshotParticipant list \<Rightarrow> u32 list \<Rightarrow> u32 list option" where
  "check_participants [] ids = Some ids"
| "check_participants (p # ps) ids =
     (if spSenderID p \<in> set ids then None else check_participants ps (spSenderID p # ids))"

text \<open>The loop over the channels of a chunk; a channel not seen yet has no senders.\<close>

definition seen_ids :: "(u32, u32 list) gomap \<Rightarrow> u32 \<Rightarrow> u32 list" where
  "seen_ids seen c = (case mget seen c of None \<Rightarrow> [] | Some ids \<Rightarrow> ids)"

fun assemble_channels ::
  "privateControlSnapshotChannel list \<Rightarrow> (u32, u32 list) gomap
   \<Rightarrow> (u32, u32 list) gomap option" where
  "assemble_channels [] seen = Some seen"
| "assemble_channels (c # cs) seen =
     (case check_participants (scParticipants c) (seen_ids seen (scChannelID c)) of
        None \<Rightarrow> None
      | Some ids \<Rightarrow> assemble_channels cs (mput (scChannelID c) ids seen))"

text \<open>The loop over the chunk indices, from 0 below the chunk count.\<close>

fun assemble_chunks ::
  "nat list \<Rightarrow> (u16, privateControlSnapshotChannel list) gomap \<Rightarrow> (u32, u32 list) gomap
   \<Rightarrow> privateControlSnapshotChannel list \<Rightarrow> snapshot_error + privateControlSnapshotChannel list" where
  "assemble_chunks [] chunks seen channels = Inr channels"
| "assemble_chunks (i # is) chunks seen channels =
     (case mget chunks (word_of_nat i) of
        None \<Rightarrow> Inl IncompleteSnapshot
      | Some chunk \<Rightarrow>
          (case assemble_channels chunk seen of
             None \<Rightarrow> Inl DuplicateParticipant
           | Some seen' \<Rightarrow> assemble_chunks is chunks seen' (channels @ chunk)))"

text \<open>
  \<open>add\<close>: the result is the error, or whether the snapshot is complete and then its
  channels; the receiver's chunk map keeps the chunk even where the result is an error.
\<close>

definition reassembly_add ::
  "privateControlRelayStateSnapshot \<Rightarrow> privateControlSnapshotReassembly
   \<Rightarrow> (snapshot_error + privateControlSnapshotChannel list option) \<times> privateControlSnapshotReassembly"
where
  "reassembly_add snapshot r =
     (if ssSnapshotID snapshot \<noteq> raSnapshotID r \<or> ssChunkCount snapshot \<noteq> raChunkCount r
      then (Inl InconsistentSnapshot, r)
      else if mhas (raChunks r) (ssChunkIndex snapshot) then (Inl DuplicateChunk, r)
      else
        let r' = r\<lparr>raChunks := mput (ssChunkIndex snapshot)
                    (case ssChannels snapshot of None \<Rightarrow> [] | Some cs \<Rightarrow> cs) (raChunks r)\<rparr>
        in if mlen (raChunks r') \<noteq> unat (raChunkCount r') then (Inr None, r')
           else (case assemble_chunks [0..<unat (raChunkCount r')] (raChunks r') [] [] of
                   Inl e \<Rightarrow> (Inl e, r')
                 | Inr channels \<Rightarrow> (Inr (Some channels), r')))"

text \<open>The reassembly the session starts from the first chunk (lines 413 to 415).\<close>

definition new_reassembly :: "privateControlRelayStateSnapshot \<Rightarrow> privateControlSnapshotReassembly" where
  "new_reassembly response =
     \<lparr>raSnapshotID = ssSnapshotID response, raChunkCount = ssChunkCount response, raChunks = []\<rparr>"

section \<open>Duplicate participants\<close>

text \<open>The (channel, sender) pairs of a channel list.\<close>

definition channel_pairs :: "privateControlSnapshotChannel \<Rightarrow> (u32 \<times> u32) list" where
  "channel_pairs c = map (\<lambda>p. (scChannelID c, spSenderID p)) (scParticipants c)"

definition member_pairs :: "privateControlSnapshotChannel list \<Rightarrow> (u32 \<times> u32) list" where
  "member_pairs cs = concat (map channel_pairs cs)"

lemma member_pairs_simps [simp]:
  "member_pairs [] = []"
  "member_pairs (c # cs) = channel_pairs c @ member_pairs cs"
  "member_pairs (cs @ ds) = member_pairs cs @ member_pairs ds"
  by (simp_all add: member_pairs_def)

text \<open>The set of pairs the source's \<open>seen\<close> map stands for.\<close>

definition seen_set :: "(u32, u32 list) gomap \<Rightarrow> (u32 \<times> u32) set" where
  "seen_set seen = {(c, s). s \<in> set (seen_ids seen c)}"

lemma check_participants_spec:
  "check_participants ps ids =
     (if distinct (map spSenderID ps) \<and> spSenderID ` set ps \<inter> set ids = {}
      then Some (rev (map spSenderID ps) @ ids) else None)"
  by (induction ps arbitrary: ids) auto

lemma seen_ids_mput: "seen_ids (mput c ids seen) c' = (if c' = c then ids else seen_ids seen c')"
  by (simp add: seen_ids_def mget_put)

lemma seen_set_Nil [simp]: "seen_set [] = {}"
  by (simp add: seen_set_def seen_ids_def)

lemma seen_set_mput:
  "seen_set (mput c (xs @ seen_ids seen c) seen) = Pair c ` set xs \<union> seen_set seen"
  by (auto simp: seen_set_def seen_ids_mput split: if_splits)

lemma assemble_channels_spec:
  "case assemble_channels cs seen of
     None \<Rightarrow> \<not> (distinct (member_pairs cs) \<and> set (member_pairs cs) \<inter> seen_set seen = {})
   | Some seen' \<Rightarrow> distinct (member_pairs cs) \<and> set (member_pairs cs) \<inter> seen_set seen = {}
       \<and> seen_set seen' = set (member_pairs cs) \<union> seen_set seen"
proof (induction cs arbitrary: seen)
  case Nil
  then show ?case by simp
next
  case (Cons c cs)
  let ?ids = "seen_ids seen (scChannelID c)"
  let ?ok = "distinct (map spSenderID (scParticipants c))
     \<and> spSenderID ` set (scParticipants c) \<inter> set ?ids = {}"
  have ok: "?ok \<longleftrightarrow> distinct (channel_pairs c) \<and> set (channel_pairs c) \<inter> seen_set seen = {}"
    by (auto simp: channel_pairs_def distinct_map inj_on_def seen_set_def)
  show ?case
  proof (cases ?ok)
    case False
    then have "check_participants (scParticipants c) ?ids = None"
      by (simp only: check_participants_spec if_False)
    then have "assemble_channels (c # cs) seen = None"
      by simp
    with False ok show ?thesis by auto
  next
    case True
    let ?seen = "mput (scChannelID c) (rev (map spSenderID (scParticipants c)) @ ?ids) seen"
    have step: "assemble_channels (c # cs) seen = assemble_channels cs ?seen"
      using True by (simp add: check_participants_spec)
    have seen: "seen_set ?seen = set (channel_pairs c) \<union> seen_set seen"
      unfolding seen_set_mput by (auto simp: channel_pairs_def)
    show ?thesis
      using Cons.IH [of ?seen] True ok unfolding step seen
      by (auto split: option.splits)
  qed
qed

section \<open>Assembling the chunks\<close>

text \<open>With every chunk there, the result is the chunks in index order, if no participant is
  in it twice.\<close>

lemma assemble_chunks_spec:
  assumes "\<forall>i \<in> set is. mget chunks (word_of_nat i) = Some (f i)"
  shows "assemble_chunks is chunks seen channels =
     (let cs = concat (map f is)
      in if distinct (member_pairs cs) \<and> set (member_pairs cs) \<inter> seen_set seen = {}
         then Inr (channels @ cs) else Inl DuplicateParticipant)"
  using assms
proof (induction "is" arbitrary: seen channels)
  case Nil
  then show ?case by simp
next
  case (Cons i "is")
  then have i: "mget chunks (word_of_nat i) = Some (f i)" by simp
  show ?case
  proof (cases "assemble_channels (f i) seen")
    case None
    then show ?thesis
      using assemble_channels_spec [of "f i" seen] i by (auto simp: Let_def)
  next
    case (Some seen')
    then have spec: "distinct (member_pairs (f i)) \<and> set (member_pairs (f i)) \<inter> seen_set seen = {}"
      and seen': "seen_set seen' = set (member_pairs (f i)) \<union> seen_set seen"
      using assemble_channels_spec [of "f i" seen] by auto
    have "assemble_chunks (i # is) chunks seen channels = assemble_chunks is chunks seen' (channels @ f i)"
      using i Some by simp
    also have "\<dots> = (let cs = concat (map f is)
      in if distinct (member_pairs cs) \<and> set (member_pairs cs) \<inter> seen_set seen' = {}
         then Inr ((channels @ f i) @ cs) else Inl DuplicateParticipant)"
      using Cons by simp
    finally show ?thesis
      using spec unfolding seen' Let_def by auto
  qed
qed

text \<open>
  The invariant of a reassembly: the chunks it holds are within the chunk count, each once.
\<close>

definition reassembly_ok :: "privateControlSnapshotReassembly \<Rightarrow> bool" where
  "reassembly_ok r \<longleftrightarrow> gomap_ok (raChunks r) \<and> (\<forall>i. mhas (raChunks r) i \<longrightarrow> i < raChunkCount r)"

lemma reassembly_ok_new: "reassembly_ok (new_reassembly response)"
  by (simp add: reassembly_ok_def new_reassembly_def)

lemma valid_chunk_index:
  "validPrivateControlRelayStateSnapshot s \<Longrightarrow> ssChunkIndex s < ssChunkCount s"
  by (auto simp: validPrivateControlRelayStateSnapshot_def split: if_splits)

definition put_chunk :: "privateControlRelayStateSnapshot \<Rightarrow> privateControlSnapshotReassembly
    \<Rightarrow> privateControlSnapshotReassembly" where
  "put_chunk s r = r\<lparr>raChunks := mput (ssChunkIndex s)
     (case ssChannels s of None \<Rightarrow> [] | Some cs \<Rightarrow> cs) (raChunks r)\<rparr>"

text \<open>The cases of \<open>add\<close>.\<close>

lemma reassembly_add_eq:
  "reassembly_add s r =
     (if ssSnapshotID s \<noteq> raSnapshotID r \<or> ssChunkCount s \<noteq> raChunkCount r
      then (Inl InconsistentSnapshot, r)
      else if mhas (raChunks r) (ssChunkIndex s) then (Inl DuplicateChunk, r)
      else if Suc (mlen (raChunks r)) \<noteq> unat (raChunkCount r) then (Inr None, put_chunk s r)
      else (map_sum id Some (assemble_chunks [0..<unat (raChunkCount r)]
              (raChunks (put_chunk s r)) [] []), put_chunk s r))"
  by (auto simp: reassembly_add_def put_chunk_def Let_def mlen_put split: sum.split)

lemma put_chunk_simps [simp]:
  "raSnapshotID (put_chunk s r) = raSnapshotID r"
  "raChunkCount (put_chunk s r) = raChunkCount r"
  "mhas (raChunks (put_chunk s r)) i \<longleftrightarrow> i = ssChunkIndex s \<or> mhas (raChunks r) i"
  "gomap_ok (raChunks r) \<Longrightarrow> gomap_ok (raChunks (put_chunk s r))"
  by (simp_all add: put_chunk_def)

lemma put_chunk_ok:
  "reassembly_ok r \<Longrightarrow> ssChunkIndex s < raChunkCount r \<Longrightarrow> reassembly_ok (put_chunk s r)"
  by (auto simp: reassembly_ok_def)

lemma reassembly_add_ok [go_inv]:
  assumes "reassembly_ok r" and "ssChunkIndex s < ssChunkCount s"
  shows "reassembly_ok (snd (reassembly_add s r))"
  using assms put_chunk_ok [of r s] by (auto simp: reassembly_add_eq)

text \<open>As many chunks as the count, each below it, are all the chunks.\<close>

lemma all_chunks_present:
  assumes "reassembly_ok r" and "mlen (raChunks r) = unat (raChunkCount r)" and "i < unat (raChunkCount r)"
  shows "mhas (raChunks r) (word_of_nat i)"
proof -
  let ?K = "unat ` (fst ` set (raChunks r))"
  have "distinct (map fst (raChunks r))" using assms(1) by (simp add: reassembly_ok_def gomap_ok_def)
  then have "card (fst ` set (raChunks r)) = unat (raChunkCount r)"
    using assms(2) by (metis distinct_card length_map list.set_map)
  moreover have "inj_on unat (fst ` set (raChunks r))"
    by (auto simp: inj_on_def word_unat_eq_iff)
  ultimately have "card ?K = unat (raChunkCount r)" by (simp add: card_image)
  moreover have "?K \<subseteq> {..<unat (raChunkCount r)}"
    using assms(1) by (auto simp: reassembly_ok_def mhas_dom word_less_nat_alt)
  ultimately have "?K = {..<unat (raChunkCount r)}"
    by (intro card_subset_eq) auto
  with assms(3) have "i \<in> ?K" by simp
  then obtain k where "k \<in> fst ` set (raChunks r)" "i = unat k" by auto
  then show ?thesis by (simp add: mhas_dom)
qed

lemma assemble_chunks_total:
  assumes "reassembly_ok r" and "mlen (raChunks r) = unat (raChunkCount r)"
  shows "\<exists>f. (\<forall>i < unat (raChunkCount r). mget (raChunks r) (word_of_nat i) = Some (f i))
     \<and> assemble_chunks [0..<unat (raChunkCount r)] (raChunks r) [] [] =
        (let cs = concat (map f [0..<unat (raChunkCount r)])
         in if distinct (member_pairs cs) then Inr cs else Inl DuplicateParticipant)"
proof -
  let ?f = "\<lambda>i. the (mget (raChunks r) (word_of_nat i))"
  have f: "\<forall>i < unat (raChunkCount r). mget (raChunks r) (word_of_nat i) = Some (?f i)"
    using all_chunks_present [OF assms] by (auto simp: mhas_iff)
  then have "assemble_chunks [0..<unat (raChunkCount r)] (raChunks r) [] [] =
        (let cs = concat (map ?f [0..<unat (raChunkCount r)])
         in if distinct (member_pairs cs) then Inr cs else Inl DuplicateParticipant)"
    using assemble_chunks_spec [of "[0..<unat (raChunkCount r)]" "raChunks r" ?f "[]" "[]"]
    by (simp add: Let_def)
  with f show ?thesis by (intro exI [of _ ?f] conjI)
qed

lemma reassembly_complete_cases:
  assumes "reassembly_ok r" and "ssChunkIndex s < ssChunkCount s"
    and "reassembly_add s r = (res, r')" and "res = Inl IncompleteSnapshot \<or> res = Inr (Some cs)"
  shows "res = Inr (Some cs) \<and> distinct (member_pairs cs) \<and>
     (\<exists>f. (\<forall>i < unat (raChunkCount r). mget (raChunks r') (word_of_nat i) = Some (f i))
        \<and> cs = concat (map f [0..<unat (raChunkCount r)]))"
proof -
  from assms(3,4) have add: "ssChunkCount s = raChunkCount r" "\<not> mhas (raChunks r) (ssChunkIndex s)"
      "Suc (mlen (raChunks r)) = unat (raChunkCount r)" "r' = put_chunk s r"
      and res: "res = map_sum id Some (assemble_chunks [0..<unat (raChunkCount r)]
              (raChunks (put_chunk s r)) [] [])"
    by (auto simp: reassembly_add_eq split: if_splits)
  have ok: "reassembly_ok (put_chunk s r)"
    using assms(1,2) add(1) by (auto intro: put_chunk_ok)
  have len: "mlen (raChunks (put_chunk s r)) = unat (raChunkCount (put_chunk s r))"
    using add(2,3) by (simp add: put_chunk_def mlen_put)
  from assemble_chunks_total [OF ok len] obtain f where
      f: "\<forall>i < unat (raChunkCount r). mget (raChunks r') (word_of_nat i) = Some (f i)"
      and asm: "assemble_chunks [0..<unat (raChunkCount r)] (raChunks (put_chunk s r)) [] [] =
        (let cs = concat (map f [0..<unat (raChunkCount r)])
         in if distinct (member_pairs cs) then Inr cs else Inl DuplicateParticipant)"
    using add(4) by auto
  show ?thesis
    using assms(4) f unfolding res asm Let_def
    by (cases "distinct (member_pairs (concat (map f [0..<unat (raChunkCount r)])))") auto
qed

text \<open>A snapshot in two chunks.\<close>

definition sample_chunk :: "nat \<Rightarrow> privateControlSnapshotChannel list" where
  "sample_chunk i =
     [\<lparr>scChannelID = 7, scParticipants = [\<lparr>spSenderID = word_of_nat (i + 1), spState = ''idle''\<rparr>]\<rparr>]"

definition sample_msg :: "u16 \<Rightarrow> privateControlRelayStateSnapshot" where
  "sample_msg i = \<lparr>ssSchemaVersion = ''1'', ssType = ''relay_state_snapshot'',
     ssMessageID = ''m'', ssInReplyTo = ''q'', ssSnapshotID = ''s'',
     ssChunkIndex = i, ssChunkCount = 2, ssChannels = Some (sample_chunk (unat i))\<rparr>"

definition sample_reassembly :: privateControlSnapshotReassembly where
  "sample_reassembly = snd (reassembly_add (sample_msg 1) (new_reassembly (sample_msg 1)))"

lemma sample_reassembly_eq:
  "sample_reassembly = \<lparr>raSnapshotID = ''s'', raChunkCount = 2, raChunks = [(1, sample_chunk 1)]\<rparr>"
  by (simp add: sample_reassembly_def sample_msg_def new_reassembly_def reassembly_add_eq put_chunk_def)

lemma sample_completes:
  "fst (reassembly_add (sample_msg 0) sample_reassembly) = Inr (Some (sample_chunk 0 @ sample_chunk 1))"
  by (simp add: sample_reassembly_eq sample_msg_def reassembly_add_eq put_chunk_def upt_rec
      sample_chunk_def seen_ids_def mhas_def)

lemma sample_reassembly_ok: "reassembly_ok sample_reassembly"
  unfolding sample_reassembly_def
  by (rule reassembly_add_ok [OF reassembly_ok_new]) (simp add: sample_msg_def)

text \<open>
  C22. Feeding a reassembly valid chunks never ends in the error for an incomplete
  snapshot, and a completed snapshot holds no participant of a channel twice and is the
  concatenation of the stored chunks in index order.
\<close>

theorem reassembly_complete:
  assumes "reassembly_ok r" and "ssChunkIndex s < ssChunkCount s"
  shows "fst (reassembly_add s r) \<noteq> Inl IncompleteSnapshot
     \<and> (\<forall>cs. fst (reassembly_add s r) = Inr (Some cs) \<longrightarrow> distinct (member_pairs cs)
          \<and> (\<exists>f. (\<forall>i < unat (raChunkCount r).
                    mget (raChunks (snd (reassembly_add s r))) (word_of_nat i) = Some (f i))
               \<and> cs = concat (map f [0..<unat (raChunkCount r)])))"
proof -
  obtain res r' where add: "reassembly_add s r = (res, r')" by fastforce
  show ?thesis
    using reassembly_complete_cases [OF assms add] add by auto
qed

lemma reassembly_complete_witness:
  "distinct (member_pairs (sample_chunk 0 @ sample_chunk 1))"
  using reassembly_complete [of sample_reassembly "sample_msg 0"] sample_reassembly_ok sample_completes
  by (simp add: sample_msg_def)

section \<open>Chunks in any order\<close>

text \<open>Chunks arriving one after the other, up to the first error; the result of the last.\<close>

fun add_all ::
  "privateControlRelayStateSnapshot list \<Rightarrow> privateControlSnapshotReassembly
   \<Rightarrow> snapshot_error + privateControlSnapshotChannel list option" where
  "add_all [] r = Inr None"
| "add_all (s # rest) r =
     (case reassembly_add s r of
        (Inl e, _) \<Rightarrow> Inl e
      | (Inr res, r') \<Rightarrow> if rest = [] then Inr res else add_all rest r')"

definition chunk_of ::
  "string \<Rightarrow> u16 \<Rightarrow> (nat \<Rightarrow> privateControlSnapshotChannel list) \<Rightarrow> privateControlRelayStateSnapshot \<Rightarrow> bool"
where
  "chunk_of sid cnt f s \<longleftrightarrow> ssSnapshotID s = sid \<and> ssChunkCount s = cnt
     \<and> ssChunkIndex s < cnt \<and> ssChannels s = Some (f (unat (ssChunkIndex s)))"

lemma add_all_step:
  assumes "chunk_of sid cnt f s" and "raSnapshotID r = sid" and "raChunkCount r = cnt"
    and "\<not> mhas (raChunks r) (ssChunkIndex s)" and "rest \<noteq> []"
    and "Suc (mlen (raChunks r)) < unat cnt"
  shows "add_all (s # rest) r = add_all rest (put_chunk s r)"
  using assms by (simp add: reassembly_add_eq chunk_of_def)

lemma add_all_spec:
  assumes "msgs \<noteq> []" and "\<forall>s \<in> set msgs. chunk_of sid cnt f s"
    and "distinct (map ssChunkIndex msgs)"
    and "raSnapshotID r = sid" and "raChunkCount r = cnt" and "reassembly_ok r"
    and "\<forall>s \<in> set msgs. \<not> mhas (raChunks r) (ssChunkIndex s)"
    and "mlen (raChunks r) + length msgs = unat cnt"
    and "\<forall>i cs. mget (raChunks r) i = Some cs \<longrightarrow> cs = f (unat i)"
  shows "add_all msgs r =
     (let cs = concat (map f [0..<unat cnt])
      in if distinct (member_pairs cs) then Inr (Some cs) else Inl DuplicateParticipant)"
  using assms
proof (induction msgs arbitrary: r)
  case Nil
  then show ?case by simp
next
  case (Cons s msgs)
  let ?r = "put_chunk s r"
  from Cons.prems(2) have s: "chunk_of sid cnt f s" by simp
  have ok: "reassembly_ok ?r"
    using Cons.prems(5,6) s by (intro put_chunk_ok) (simp_all add: chunk_of_def)
  have vals: "cs = f (unat i)" if "mget (raChunks ?r) i = Some cs" for i cs
    using that s Cons.prems(9) by (auto simp: put_chunk_def mget_put chunk_of_def split: if_splits)
  have len: "mlen (raChunks ?r) = Suc (mlen (raChunks r))"
    using Cons.prems(7) by (simp add: put_chunk_def mlen_put)
  show ?case
  proof (cases "msgs = []")
    case False
    have "add_all (s # msgs) r = add_all msgs ?r"
      using Cons.prems(4,5,7,8) False by (intro add_all_step [OF s]) (auto simp: neq_Nil_conv)
    also have "\<dots> = (let cs = concat (map f [0..<unat cnt])
      in if distinct (member_pairs cs) then Inr (Some cs) else Inl DuplicateParticipant)"
    proof (rule Cons.IH [OF False])
      show "\<forall>t \<in> set msgs. \<not> mhas (raChunks ?r) (ssChunkIndex t)"
        using Cons.prems(3,7) by (simp add: image_iff) metis
      show "mlen (raChunks ?r) + length msgs = unat cnt"
        using Cons.prems(8) len by simp
    qed (use Cons.prems ok vals in auto)
    finally show ?thesis .
  next
    case True
    then have full: "mlen (raChunks ?r) = unat (raChunkCount ?r)"
      using Cons.prems(5,8) len by simp
    from assemble_chunks_total [OF ok full] obtain g where
        g: "\<forall>i < unat cnt. mget (raChunks ?r) (word_of_nat i) = Some (g i)"
        and asm: "assemble_chunks [0..<unat cnt] (raChunks ?r) [] [] =
          (let cs = concat (map g [0..<unat cnt])
           in if distinct (member_pairs cs) then Inr cs else Inl DuplicateParticipant)"
      using Cons.prems(5) by auto
    have "g i = f i" if i: "i < unat cnt" for i
    proof -
      have "unat (word_of_nat i :: u16) = i"
        using i unsigned_less [of cnt, where 'a = nat] by (simp add: unat_of_nat)
      with g vals [of "word_of_nat i" "g i"] i show ?thesis by simp
    qed
    then have fg: "map g [0..<unat cnt] = map f [0..<unat cnt]" by simp
    have "reassembly_add s r = (map_sum id Some (assemble_chunks [0..<unat cnt] (raChunks ?r) [] []), ?r)"
      using Cons.prems(4,5,7,8) s True by (auto simp: reassembly_add_eq chunk_of_def)
    then show ?thesis
      using True unfolding asm fg by (simp add: Let_def)
  qed
qed

text \<open>
  C21. Reassembly does not depend on the order in which the chunks arrive: whatever the
  order, all the chunks of a snapshot, each once, give the concatenation of the chunks in
  index order, or the error for a duplicate participant if there is one.
\<close>

theorem reassembly_any_order:
  assumes "length msgs = unat cnt" and "msgs \<noteq> []"
    and "\<forall>s \<in> set msgs. chunk_of sid cnt f s" and "distinct (map ssChunkIndex msgs)"
  shows "add_all msgs (new_reassembly (hd msgs)) =
     (let cs = concat (map f [0..<unat cnt])
      in if distinct (member_pairs cs) then Inr (Some cs) else Inl DuplicateParticipant)"
proof -
  have "chunk_of sid cnt f (hd msgs)" using assms(2,3) by simp
  then have "raSnapshotID (new_reassembly (hd msgs)) = sid"
      "raChunkCount (new_reassembly (hd msgs)) = cnt"
      "raChunks (new_reassembly (hd msgs)) = []"
    by (simp_all add: new_reassembly_def chunk_of_def)
  then show ?thesis
    using assms by (intro add_all_spec) (auto simp: reassembly_ok_new)
qed

lemma reassembly_any_order_witness:
  "add_all [sample_msg 1, sample_msg 0] (new_reassembly (sample_msg 1))
     = Inr (Some (sample_chunk 0 @ sample_chunk 1))"
  using reassembly_any_order [of "[sample_msg 1, sample_msg 0]" 2 "''s''" sample_chunk]
  by (simp add: chunk_of_def sample_msg_def sample_chunk_def channel_pairs_def upt_rec)

end
