(* ===== verification/Recording_Jobs.thy ===== *)
theory Recording_Jobs
  imports Pcl_Messages
begin

text \<open>
  The recording-job table (\<open>recording_jobs.go\<close>, lines 9 to 100).  Each operation holds
  the table's mutex for its whole body, so it is one step.  A nil receiver is \<open>None\<close>.
\<close>

section \<open>State and operations\<close>

definition managementRecordingJobLimit :: nat where
  "managementRecordingJobLimit = 4096"

record managementRecordingJob =
  jobID :: string
  jobChannelID :: u32
  jobRecorderServiceID :: string
  jobState :: string

record managementRecordingJobs =
  jobTable :: "(string, managementRecordingJob) gomap"

datatype job_error = JobsUnavailable | JobRandomFailed | JobLimitReached

definition newManagementRecordingJobs :: managementRecordingJobs where
  "newManagementRecordingJobs = \<lparr>jobTable = []\<rparr>"

text \<open>\<open>create\<close>; \<open>raw\<close> is what the random source gives for the job identifier.\<close>

definition job_create ::
  "string option \<Rightarrow> u32 \<Rightarrow> string \<Rightarrow> managementRecordingJobs option
   \<Rightarrow> (job_error + managementRecordingJob) \<times> managementRecordingJobs option" where
  "job_create raw channelID recorderServiceID j =
     (case j of
        None \<Rightarrow> (Inl JobsUnavailable, None)
      | Some js \<Rightarrow>
          (case newPrivateControlID raw of
             None \<Rightarrow> (Inl JobRandomFailed, Some js)
           | Some nid \<Rightarrow>
               let job = \<lparr>jobID = nid, jobChannelID = channelID,
                          jobRecorderServiceID = recorderServiceID, jobState = ''starting''\<rparr>
               in if managementRecordingJobLimit \<le> mlen (jobTable js)
                  then (Inl JobLimitReached, Some js)
                  else (Inr job, Some (js\<lparr>jobTable := mput nid job (jobTable js)\<rparr>))))"

definition job_stop ::
  "string \<Rightarrow> managementRecordingJobs option
   \<Rightarrow> managementRecordingJob option \<times> managementRecordingJobs option" where
  "job_stop jid j =
     (case j of
        None \<Rightarrow> (None, None)
      | Some js \<Rightarrow>
          (case mget (jobTable js) jid of
             None \<Rightarrow> (None, Some js)
           | Some job \<Rightarrow>
               if jobState job \<noteq> ''stopped'' \<and> jobState job \<noteq> ''failed''
               then let job' = job\<lparr>jobState := ''stopping''\<rparr>
                    in (Some job', Some (js\<lparr>jobTable := mput jid job' (jobTable js)\<rparr>))
               else (Some job, Some js)))"

definition job_get ::
  "string \<Rightarrow> managementRecordingJobs option \<Rightarrow> managementRecordingJob option" where
  "job_get jid j = (case j of None \<Rightarrow> None | Some js \<Rightarrow> mget (jobTable js) jid)"

definition applyLifecycleEvent ::
  "privateControlLifecycleEvent \<Rightarrow> managementRecordingJobs option \<Rightarrow> managementRecordingJobs option" where
  "applyLifecycleEvent event j =
     (case j of
        None \<Rightarrow> None
      | Some js \<Rightarrow>
          if leEventType event \<noteq> ''recording_state_changed'' then Some js
          else case (leRecordingJobID event, leChannelID event, leState event) of
            (Some jid, Some channelID, Some st) \<Rightarrow>
              (case mget (jobTable js) jid of
                 None \<Rightarrow> Some js
               | Some job \<Rightarrow>
                   if jobChannelID job \<noteq> channelID then Some js
                   else Some (js\<lparr>jobTable :=
                     mput (jobID job) (job\<lparr>jobState := st\<rparr>) (jobTable js)\<rparr>))
          | _ \<Rightarrow> Some js)"

section \<open>Invariant\<close>

text \<open>
  Keys are distinct, the table is within its limit, and every job sits under its own
  identifier, a valid one.
\<close>

definition jobs_ok :: "managementRecordingJobs \<Rightarrow> bool" where
  "jobs_ok js \<longleftrightarrow> gomap_ok (jobTable js) \<and> mlen (jobTable js) \<le> managementRecordingJobLimit
     \<and> (\<forall>(jid, job) \<in> set (jobTable js). jobID job = jid \<and> validPrivateControlID jid)"

lemma jobs_ok_new: "jobs_ok newManagementRecordingJobs"
  by (simp add: jobs_ok_def newManagementRecordingJobs_def)

lemma jobs_okD:
  assumes "jobs_ok js"
  shows "gomap_ok (jobTable js)" "mlen (jobTable js) \<le> managementRecordingJobLimit"
    "mget (jobTable js) jid = Some job \<Longrightarrow> jobID job = jid"
    "mget (jobTable js) jid = Some job \<Longrightarrow> validPrivateControlID jid"
  using assms by (auto simp: jobs_ok_def dest: map_of_SomeD)

lemma jobs_ok_put:
  assumes "jobs_ok js" and "jobID job = jid" and "validPrivateControlID jid"
    and "mhas (jobTable js) jid \<or> mlen (jobTable js) < managementRecordingJobLimit"
  shows "jobs_ok (js\<lparr>jobTable := mput jid job (jobTable js)\<rparr>)"
  using assms by (auto simp: jobs_ok_def set_mput mlen_put)

lemma mget_mhas: "mget m k = Some v \<Longrightarrow> mhas m k"
  by (simp add: mhas_iff)

lemma job_create_ok [go_inv]:
  assumes "jobs_ok js" and "job_create raw ch svc (Some js) = (r, Some js')"
    and "\<forall>bs. raw = Some bs \<longrightarrow> length bs = 16"
  shows "jobs_ok js'"
proof (cases "newPrivateControlID raw")
  case None
  with assms show ?thesis by (simp add: job_create_def)
next
  case (Some nid)
  with assms(3) have "validPrivateControlID nid"
    by (cases raw) (auto simp: newPrivateControlID_def intro: newPrivateControlID_valid)
  with assms(1,2) Some show ?thesis
    by (auto simp: job_create_def Let_def intro!: jobs_ok_put [OF assms(1)] split: if_splits)
qed

lemma job_stop_ok [go_inv]:
  assumes "jobs_ok js" and "job_stop jid (Some js) = (r, Some js')"
  shows "jobs_ok js'"
proof (cases "mget (jobTable js) jid")
  case None
  with assms show ?thesis by (simp add: job_stop_def)
next
  case (Some job)
  with jobs_okD(3,4) [OF assms(1) Some] have "jobID job = jid" "validPrivateControlID jid"
    by simp_all
  with assms Some show ?thesis
    by (auto simp: job_stop_def Let_def intro!: jobs_ok_put [OF assms(1)] mget_mhas split: if_splits)
qed

lemma applyLifecycleEvent_cases:
  assumes "applyLifecycleEvent e (Some js) = Some js'"
  obtains (ignored) "js' = js"
  | (applied) jid ch st job where "leEventType e = ''recording_state_changed''"
      "leRecordingJobID e = Some jid" "leChannelID e = Some ch" "leState e = Some st"
      "mget (jobTable js) jid = Some job" "jobChannelID job = ch"
      "js' = js\<lparr>jobTable := mput (jobID job) (job\<lparr>jobState := st\<rparr>) (jobTable js)\<rparr>"
proof -
  have "js' = js \<or> (\<exists>jid ch st job. leEventType e = ''recording_state_changed''
      \<and> leRecordingJobID e = Some jid \<and> leChannelID e = Some ch \<and> leState e = Some st
      \<and> mget (jobTable js) jid = Some job \<and> jobChannelID job = ch
      \<and> js' = js\<lparr>jobTable := mput (jobID job) (job\<lparr>jobState := st\<rparr>) (jobTable js)\<rparr>)"
    using assms by (auto simp: applyLifecycleEvent_def split: if_splits option.splits)
  then show thesis using ignored applied by metis
qed

lemma applyLifecycleEvent_ok [go_inv]:
  assumes "jobs_ok js" and "applyLifecycleEvent e (Some js) = Some js'"
  shows "jobs_ok js'"
  using assms(2)
proof (cases rule: applyLifecycleEvent_cases)
  case ignored
  with assms(1) show ?thesis by simp
next
  case (applied jid ch st job)
  with jobs_okD(3,4) [OF assms(1)] show ?thesis
    by (auto intro!: jobs_ok_put [OF assms(1)] mget_mhas)
qed

section \<open>What the operations do\<close>

text \<open>The states a job can be in, and what stopping does to each.\<close>

lemma job_stop_spec:
  "job_stop jid (Some js) =
     (case mget (jobTable js) jid of
        None \<Rightarrow> (None, Some js)
      | Some job \<Rightarrow>
          if jobState job \<in> {''stopped'', ''failed''} then (Some job, Some js)
          else (Some (job\<lparr>jobState := ''stopping''\<rparr>),
                Some (js\<lparr>jobTable := mput jid (job\<lparr>jobState := ''stopping''\<rparr>) (jobTable js)\<rparr>)))"
  by (simp add: job_stop_def Let_def split: option.splits)

lemma job_stop_get:
  assumes "job_stop jid (Some js) = (r, Some js')"
  shows "job_get k (Some js') =
     (if k = jid then map_option (\<lambda>job. if jobState job \<in> {''stopped'', ''failed''} then job
                                     else job\<lparr>jobState := ''stopping''\<rparr>) (job_get k (Some js))
      else job_get k (Some js))"
  using assms
  by (auto simp: job_stop_spec job_get_def mget_put split: option.splits if_splits)

text \<open>Stopping twice is stopping once.\<close>

lemma job_stop_idem:
  assumes "job_stop jid (Some js) = (r, Some js')"
  shows "job_get k (snd (job_stop jid (Some js'))) = job_get k (Some js')"
  using assms
  by (auto simp: job_stop_spec job_get_def mget_put split: option.splits if_splits)

text \<open>Who may record what does not change under any operation but a new job.\<close>

definition job_owner :: "managementRecordingJobs \<Rightarrow> string \<Rightarrow> (u32 \<times> string) option" where
  "job_owner js jid =
     map_option (\<lambda>job. (jobChannelID job, jobRecorderServiceID job)) (mget (jobTable js) jid)"

lemma job_stop_owner:
  "job_stop jid (Some js) = (r, Some js') \<Longrightarrow> job_owner js' = job_owner js"
  by (auto simp: job_stop_spec job_owner_def mget_put fun_eq_iff split: option.splits if_splits)

lemma applyLifecycleEvent_owner:
  assumes ok: "jobs_ok js" and "applyLifecycleEvent e (Some js) = Some js'"
  shows "job_owner js' = job_owner js"
  using assms(2)
proof (cases rule: applyLifecycleEvent_cases)
  case ignored
  then show ?thesis by simp
next
  case (applied jid ch st job)
  with jobs_okD(3) [OF ok applied(5)] show ?thesis
    by (auto simp: job_owner_def mget_put fun_eq_iff)
qed

section \<open>The size of the table\<close>

text \<open>
  No operation removes a job, not even a stopped or failed one: the table only grows, and
  once it is full no job can be created until the process restarts.
\<close>

inductive jobs_step :: "managementRecordingJobs \<Rightarrow> managementRecordingJobs \<Rightarrow> bool" where
  step_create: "job_create raw ch svc (Some js) = (r, Some js') \<Longrightarrow>
     (\<forall>bs. raw = Some bs \<longrightarrow> length bs = 16) \<Longrightarrow> jobs_step js js'"
| step_stop: "job_stop jid (Some js) = (v, Some js') \<Longrightarrow> jobs_step js js'"
| step_event: "applyLifecycleEvent e (Some js) = Some js' \<Longrightarrow> jobs_step js js'"

lemma jobs_step_ok: "jobs_ok js \<Longrightarrow> jobs_step js js' \<Longrightarrow> jobs_ok js'"
  by (erule jobs_step.cases) (auto intro: go_inv)

lemma job_create_grows:
  "job_create raw ch svc (Some js) = (r, Some js') \<Longrightarrow> mlen (jobTable js) \<le> mlen (jobTable js')"
  by (auto simp: job_create_def Let_def mlen_put_ge split: option.splits if_splits)

lemma job_stop_grows:
  "job_stop jid (Some js) = (r, Some js') \<Longrightarrow> mlen (jobTable js) \<le> mlen (jobTable js')"
  by (auto simp: job_stop_spec mlen_put_ge split: option.splits if_splits)

lemma applyLifecycleEvent_grows:
  "applyLifecycleEvent e (Some js) = Some js' \<Longrightarrow> mlen (jobTable js) \<le> mlen (jobTable js')"
  by (erule applyLifecycleEvent_cases) (auto simp: mlen_put_ge)

lemma jobs_step_grows: "jobs_step js js' \<Longrightarrow> mlen (jobTable js) \<le> mlen (jobTable js')"
  by (erule jobs_step.cases)
    (auto dest: job_create_grows job_stop_grows applyLifecycleEvent_grows)

interpretation jobs_table: growing_table jobs_step jobs_ok jobTable managementRecordingJobLimit
  by unfold_locales (auto intro: jobs_step_ok jobs_step_grows jobs_okD(1,2))

text \<open>
  In every run of the job table, each job is stored under its own identifier, a valid
  one, identifiers are unique, and there are at most 4096 jobs.
\<close>

theorem recording_jobs_invariant:
  assumes "jobs_step\<^sup>*\<^sup>* newManagementRecordingJobs js"
  shows "jobs_ok js"
  using jobs_table.run_inv [OF assms jobs_ok_new] .

text \<open>
  The job table never gives a slot back: in any state reached after it has become
  full, whatever jobs have been stopped or have failed, creating a job is refused.
\<close>

theorem recording_jobs_fill_up:
  assumes "jobs_ok js" and "mlen (jobTable js) = managementRecordingJobLimit"
    and "jobs_step\<^sup>*\<^sup>* js js'"
  shows "fst (job_create (Some raw) ch svc (Some js')) = Inl JobLimitReached"
  using jobs_table.full_stays_full [OF assms(3,1,2)]
  by (simp add: job_create_def newPrivateControlID_def Let_def)

theorem recording_jobs_invariant_witness:
  "jobs_ok (the (snd (job_create (Some (replicate 16 CHR 0x01)) 100 ''recorder-01''
     (Some newManagementRecordingJobs))))"
proof -
  let ?r = "job_create (Some (replicate 16 CHR 0x01)) 100 ''recorder-01''
     (Some newManagementRecordingJobs)"
  have "\<exists>js. snd ?r = Some js"
    by (simp add: job_create_def newPrivateControlID_def Let_def)
  then obtain js where "snd ?r = Some js" ..
  then have "jobs_step newManagementRecordingJobs js"
    by (intro step_create [of "Some (replicate 16 CHR 0x01)" 100 "''recorder-01''" _ "fst ?r"])
      (simp_all add: prod_eq_iff)
  then have "jobs_ok js" by (intro recording_jobs_invariant) blast
  with \<open>snd ?r = Some js\<close> show ?thesis by simp
qed

text \<open>A full table: 4096 jobs, all of them stopped.\<close>

definition sample_raw :: "nat \<Rightarrow> string" where
  "sample_raw i = [char_of (i div 256), char_of (i mod 256)] @ replicate 14 CHR 0x00"

definition sample_job :: "nat \<Rightarrow> managementRecordingJob" where
  "sample_job i = \<lparr>jobID = b64_encode (sample_raw i), jobChannelID = 100,
     jobRecorderServiceID = ''recorder-01'', jobState = ''stopped''\<rparr>"

definition full_jobs :: managementRecordingJobs where
  "full_jobs = \<lparr>jobTable = map (\<lambda>i. (b64_encode (sample_raw i), sample_job i)) [0..<4096]\<rparr>"

lemma char_of_inject_lt:
  "m < 256 \<Longrightarrow> n < 256 \<Longrightarrow> char_of m = (char_of n :: char) \<Longrightarrow> m = (n :: nat)"
  by (metis mod_less of_char_of)

lemma sample_raw_inj: "i < 4096 \<Longrightarrow> j < 4096 \<Longrightarrow> sample_raw i = sample_raw j \<Longrightarrow> i = j"
proof -
  assume i: "i < 4096" and j: "j < 4096" and eq: "sample_raw i = sample_raw j"
  from i j have "i div 256 < 256" "j div 256 < 256"
    by (simp_all add: less_mult_imp_div_less)
  with eq have "i div 256 = j div 256" "i mod 256 = j mod 256"
    by (auto simp: sample_raw_def dest: char_of_inject_lt)
  then show "i = j" by (metis div_mult_mod_eq)
qed

lemma full_jobs_ok: "jobs_ok full_jobs" and full_jobs_full:
  "mlen (jobTable full_jobs) = managementRecordingJobLimit"
proof -
  have "length (sample_raw i) = 16" for i by (simp add: sample_raw_def)
  then have "validPrivateControlID (b64_encode (sample_raw i))" for i
    by (auto simp: validPrivateControlID_iff)
  moreover have "distinct (map (\<lambda>i. b64_encode (sample_raw i)) [0..<4096])"
    by (auto simp: distinct_map inj_on_def dest: sample_raw_inj)
  ultimately show "jobs_ok full_jobs"
    by (auto simp: jobs_ok_def full_jobs_def gomap_ok_def sample_job_def comp_def
        managementRecordingJobLimit_def)
  show "mlen (jobTable full_jobs) = managementRecordingJobLimit"
    by (simp add: full_jobs_def managementRecordingJobLimit_def)
qed

theorem recording_jobs_fill_up_witness:
  "fst (job_create (Some (replicate 16 CHR 0x01)) 100 ''recorder-01'' (Some full_jobs))
     = Inl JobLimitReached"
  by (rule recording_jobs_fill_up [OF full_jobs_ok full_jobs_full rtranclp.rtrancl_refl])

end
