(* ===== verification/Relay_State.thy ===== *)
theory Relay_State
  imports Live_Events Recording_Jobs
begin

text \<open>
  The state the service keeps of the Relay (\<open>managementState\<close> of \<open>main.go\<close>) and the two
  read operations the API has on it (\<open>management_api.go\<close>, lines 654 to 681).  A time is
  its number of nanoseconds since 1970, the zero \<open>time.Time\<close> is \<open>None\<close>, and the current
  time is an argument.  The hub and the job table the state points to are the ones the API
  uses, so they are kept here.
\<close>

section \<open>State and operations\<close>

type_synonym participants = "(u32, string) gomap"
type_synonym channels = "(u32, participants) gomap"

record managementState =
  stRelayID :: string
  stConnected :: bool
  stConnectedAt :: "int option"
  stLastEventAt :: "int option"
  stLastEventType :: string
  stChannels :: channels
  stSnapshotAt :: "int option"
  stLiveEvents :: "managementLiveEventHub option"
  stRecordingJobs :: "managementRecordingJobs option"

definition newManagementState :: managementState where
  "newManagementState =
     \<lparr>stRelayID = [], stConnected = False, stConnectedAt = None, stLastEventAt = None,
      stLastEventType = [], stChannels = [], stSnapshotAt = None, stLiveEvents = None,
      stRecordingJobs = None\<rparr>"

definition markConnected :: "string \<Rightarrow> int \<Rightarrow> managementState \<Rightarrow> managementState" where
  "markConnected relayID now s =
     s\<lparr>stRelayID := relayID, stConnected := True, stConnectedAt := Some now,
       stChannels := [], stSnapshotAt := None\<rparr>"

definition markDisconnected :: "managementState \<Rightarrow> managementState" where
  "markDisconnected s = s\<lparr>stConnected := False\<rparr>"

text \<open>The body of \<open>recordLifecycleEvent\<close> under the state's lock, on the channel map.\<close>

definition update_participants :: "privateControlLifecycleEvent \<Rightarrow> channels \<Rightarrow> channels" where
  "update_participants event chs =
     (case (leChannelID event, leSenderID event) of
        (Some channelID, Some senderID) \<Rightarrow>
          let ps = (case mget chs channelID of None \<Rightarrow> [] | Some p \<Rightarrow> p);
              chs = (case mget chs channelID of None \<Rightarrow> mput channelID ps chs | Some _ \<Rightarrow> chs)
          in if leEventType event = ''participant_joined''
               then mput channelID (mput senderID ''idle'' ps) chs
             else if leEventType event = ''participant_left''
               then let ps' = mdel senderID ps
                    in if mlen ps' = 0 then mdel channelID chs else mput channelID ps' chs
             else if leEventType event = ''talk_started''
               then mput channelID (mput senderID ''talking'' ps) chs
             else if leEventType event = ''talk_ended''
               then if mhas ps senderID then mput channelID (mput senderID ''idle'' ps) chs else chs
             else chs
      | _ \<Rightarrow> chs)"

definition recordLifecycleEvent ::
  "privateControlLifecycleEvent \<Rightarrow> int \<Rightarrow> managementState \<Rightarrow> go_panic + managementState" where
  "recordLifecycleEvent event now s =
     (let s1 = s\<lparr>stLastEventAt := Some now, stLastEventType := leEventType event,
                 stChannels := update_participants event (stChannels s)\<rparr>;
          s2 = s1\<lparr>stRecordingJobs := applyLifecycleEvent event (stRecordingJobs s1)\<rparr>
      in case stLiveEvents s2 of
           None \<Rightarrow> Inr s2
         | Some h \<Rightarrow>
             (case publish event h of
                Inl p \<Rightarrow> Inl p
              | Inr h' \<Rightarrow> Inr (s2\<lparr>stLiveEvents := Some h'\<rparr>)))"

definition setRecordingJobs :: "managementRecordingJobs option \<Rightarrow> managementState \<Rightarrow> managementState" where
  "setRecordingJobs jobs s = s\<lparr>stRecordingJobs := jobs\<rparr>"

definition setLiveEvents :: "managementLiveEventHub option \<Rightarrow> managementState \<Rightarrow> managementState" where
  "setLiveEvents events s = s\<lparr>stLiveEvents := events\<rparr>"

fun project_participants ::
  "privateControlSnapshotParticipant list \<Rightarrow> participants \<Rightarrow> participants" where
  "project_participants [] ps = ps"
| "project_participants (p # rest) ps = project_participants rest (mput (spSenderID p) (spState p) ps)"

fun project_channels :: "privateControlSnapshotChannel list \<Rightarrow> channels \<Rightarrow> channels" where
  "project_channels [] proj = proj"
| "project_channels (c # rest) proj =
     (let ps = (case mget proj (scChannelID c) of None \<Rightarrow> [] | Some p \<Rightarrow> p)
      in project_channels rest
           (mput (scChannelID c) (project_participants (scParticipants c) ps) proj))"

definition applyRelayStateSnapshot ::
  "privateControlSnapshotChannel list \<Rightarrow> int \<Rightarrow> managementState \<Rightarrow> managementState" where
  "applyRelayStateSnapshot cs now s =
     s\<lparr>stChannels := project_channels cs [], stSnapshotAt := Some now\<rparr>"

text \<open>
  The status map of the local probes; the timestamps are rendered in RFC 3339 form by the
  standard library.
\<close>

datatype status_value = StatusText string | StatusTime int | StatusCount nat

definition state_snapshot :: "managementState \<Rightarrow> (string, status_value) gomap" where
  "state_snapshot s =
     (let m = [(''status'', StatusText (if stConnected s then ''connected'' else ''disconnected''))];
          m = (if stRelayID s \<noteq> [] then mput ''relay_id'' (StatusText (stRelayID s)) m else m);
          m = (case stConnectedAt s of None \<Rightarrow> m | Some t \<Rightarrow> mput ''connected_at'' (StatusTime t) m);
          m = (case stLastEventAt s of None \<Rightarrow> m
               | Some t \<Rightarrow> mput ''last_event_type'' (StatusText (stLastEventType s))
                            (mput ''last_event_at'' (StatusTime t) m))
      in case stSnapshotAt s of None \<Rightarrow> m
         | Some t \<Rightarrow> mput ''channel_count'' (StatusCount (mlen (stChannels s)))
                      (mput ''state_snapshot_at'' (StatusTime t) m))"

definition managementAPIHealthStatus :: "managementState \<Rightarrow> string" where
  "managementAPIHealthStatus s =
     (if \<not> stConnected s then ''unhealthy''
      else if stSnapshotAt s = None then ''degraded''
      else ''healthy'')"

text \<open>The copy the source makes of the channel map is the map itself: values do not alias.\<close>

definition managementAPIChannelState :: "managementState \<Rightarrow> channels option" where
  "managementAPIChannelState s =
     (if \<not> stConnected s \<or> stSnapshotAt s = None then None else Some (stChannels s))"

section \<open>The abstract view\<close>

text \<open>
  What the channel map stands for: who is in which channel, in what state.  An event and a
  snapshot have a plain meaning on it, which the operations implement.
\<close>

type_synonym view = "u32 \<Rightarrow> u32 \<Rightarrow> string option"

definition view_of :: "channels \<Rightarrow> view" where
  "view_of chs c p = (case mget chs c of None \<Rightarrow> None | Some ps \<Rightarrow> mget ps p)"

definition set_view :: "u32 \<Rightarrow> u32 \<Rightarrow> string option \<Rightarrow> view \<Rightarrow> view" where
  "set_view c p v w = w(c := (w c)(p := v))"

definition view_event :: "privateControlLifecycleEvent \<Rightarrow> view \<Rightarrow> view" where
  "view_event e w =
     (case (leChannelID e, leSenderID e) of
        (Some c, Some p) \<Rightarrow>
          if leEventType e = ''participant_joined'' then set_view c p (Some ''idle'') w
          else if leEventType e = ''participant_left'' then set_view c p None w
          else if leEventType e = ''talk_started'' then set_view c p (Some ''talking'') w
          else if leEventType e = ''talk_ended'' \<and> w c p \<noteq> None then set_view c p (Some ''idle'') w
          else w
      | _ \<Rightarrow> w)"

fun view_participants :: "u32 \<Rightarrow> privateControlSnapshotParticipant list \<Rightarrow> view \<Rightarrow> view" where
  "view_participants c [] w = w"
| "view_participants c (p # ps) w =
     view_participants c ps (set_view c (spSenderID p) (Some (spState p)) w)"

fun view_channels :: "privateControlSnapshotChannel list \<Rightarrow> view \<Rightarrow> view" where
  "view_channels [] w = w"
| "view_channels (c # cs) w =
     view_channels cs (view_participants (scChannelID c) (scParticipants c) w)"

definition view_snapshot :: "privateControlSnapshotChannel list \<Rightarrow> view" where
  "view_snapshot cs = view_channels cs (\<lambda>_ _. None)"

lemma view_of_Nil [simp]: "view_of [] = (\<lambda>_ _. None)"
  by (simp add: view_of_def fun_eq_iff)

lemma view_of_mput: "view_of (mput c ps chs) = (view_of chs)(c := mget ps)"
  by (auto simp: view_of_def mget_put fun_eq_iff)

lemma view_of_mdel: "view_of (mdel c chs) = (view_of chs)(c := (\<lambda>_. None))"
  by (auto simp: view_of_def mget_del fun_eq_iff)

lemma view_of_get: "mget chs c = Some ps \<Longrightarrow> view_of chs c = mget ps"
  and view_of_none: "mget chs c = None \<Longrightarrow> view_of chs c = (\<lambda>_. None)"
  by (simp_all add: view_of_def fun_eq_iff)

section \<open>The operations implement the abstract ones\<close>

lemma view_update_participants:
  "view_of (update_participants e chs) = view_event e (view_of chs)"
proof (cases "leChannelID e"; cases "leSenderID e")
  fix c p assume cp: "leChannelID e = Some c" "leSenderID e = Some p"
  show ?thesis
  proof (cases "mget chs c")
    case None
    then show ?thesis
      using cp by (auto simp: update_participants_def view_event_def Let_def view_of_mput view_of_mdel
          view_of_none set_view_def mhas_iff mget_put mget_del fun_eq_iff)
  next
    case (Some ps)
    have "mget ps q = None" if "mdel p ps = []" "q \<noteq> p" for q
      using that mget_del [of p ps q] by simp
    with Some show ?thesis
      using cp by (auto simp: update_participants_def view_event_def Let_def view_of_mput view_of_mdel
          view_of_get set_view_def mhas_iff mget_put mget_del fun_eq_iff)
  qed
qed (simp_all add: update_participants_def view_event_def)

text \<open>
  Recording a lifecycle event changes who is in which channel, and in what state, as
  the event says and in no other way.
\<close>

theorem update_participants_refines:
  "view_of (update_participants e chs) = view_event e (view_of chs)"
  by (rule view_update_participants)

lemma project_participants_view:
  "w c = mget m \<Longrightarrow> view_participants c ps w = w(c := mget (project_participants ps m))"
proof (induction ps arbitrary: w m)
  case Nil
  then show ?case by (simp add: fun_eq_iff)
next
  case (Cons p ps)
  have "set_view c (spSenderID p) (Some (spState p)) w c = mget (mput (spSenderID p) (spState p) m)"
    using Cons.prems by (auto simp: set_view_def mget_put fun_eq_iff)
  note IH = Cons.IH [of "set_view c (spSenderID p) (Some (spState p)) w", OF this]
  have upd: "(set_view c (spSenderID p) (Some (spState p)) w)(c := x) = w(c := x)" for x
    by (simp add: set_view_def)
  show ?case
    unfolding view_participants.simps project_participants.simps IH upd by (rule refl)
qed

lemma project_channels_view: "view_of (project_channels cs proj) = view_channels cs (view_of proj)"
proof (induction cs arbitrary: proj)
  case Nil
  then show ?case by simp
next
  case (Cons c cs)
  let ?ps = "case mget proj (scChannelID c) of None \<Rightarrow> [] | Some p \<Rightarrow> p"
  have "view_of proj (scChannelID c) = mget ?ps"
    by (cases "mget proj (scChannelID c)") (simp_all add: view_of_def fun_eq_iff)
  note step = project_participants_view [of "view_of proj" "scChannelID c" ?ps, OF this]
  show ?case
    unfolding view_channels.simps project_channels.simps Let_def Cons.IH view_of_mput step
    by (rule refl)
qed

text \<open>
  Applying a snapshot gives exactly the snapshot's participants: what was known before
  is gone, and where the snapshot repeats a participant the last state stands.
\<close>

theorem applyRelayStateSnapshot_refines:
  "view_of (stChannels (applyRelayStateSnapshot cs now s)) = view_snapshot cs"
  by (simp add: applyRelayStateSnapshot_def project_channels_view view_snapshot_def)

section \<open>Runs\<close>

text \<open>
  What happens to the state over the life of the service: the session connects and
  disconnects, events and snapshots arrive, and the API changes the hub and the job table
  (\<open>SetLive\<close> and \<open>SetJobs\<close>, also the two setters the constructor calls).
\<close>

datatype state_op =
  Connected string int
| Disconnected
| LifecycleEvent privateControlLifecycleEvent int
| Snapshot "privateControlSnapshotChannel list" int
| SetLive "managementLiveEventHub option"
| SetJobs "managementRecordingJobs option"

fun state_step :: "state_op \<Rightarrow> managementState \<Rightarrow> go_panic + managementState" where
  "state_step (Connected r now) s = Inr (markConnected r now s)"
| "state_step Disconnected s = Inr (markDisconnected s)"
| "state_step (LifecycleEvent e now) s = recordLifecycleEvent e now s"
| "state_step (Snapshot cs now) s = Inr (applyRelayStateSnapshot cs now s)"
| "state_step (SetLive h) s = Inr (setLiveEvents h s)"
| "state_step (SetJobs j) s = Inr (setRecordingJobs j s)"

fun state_run :: "state_op list \<Rightarrow> managementState \<Rightarrow> go_panic + managementState" where
  "state_run [] s = Inr s"
| "state_run (op # ops) s =
     (case state_step op s of Inl p \<Rightarrow> Inl p | Inr s' \<Rightarrow> state_run ops s')"

lemma state_run_snoc:
  "state_run (ops @ [op]) s =
     (case state_run ops s of Inl p \<Rightarrow> Inl p | Inr s' \<Rightarrow> state_step op s')"
  by (induction ops arbitrary: s) (auto split: sum.splits)

lemma recordLifecycleEvent_fields:
  assumes "recordLifecycleEvent e now s = Inr s'"
  shows "stConnected s' = stConnected s" "stSnapshotAt s' = stSnapshotAt s"
    "stChannels s' = update_participants e (stChannels s)" "stRelayID s' = stRelayID s"
    "stRecordingJobs s' = applyLifecycleEvent e (stRecordingJobs s)"
  using assms by (auto simp: recordLifecycleEvent_def Let_def split: option.splits sum.splits)

text \<open>The events of a run, in order, and the operations that end a connection's state.\<close>

fun session_op :: "state_op \<Rightarrow> bool" where
  "session_op (Connected _ _) = True"
| "session_op Disconnected = True"
| "session_op _ = False"

fun snapshot_op :: "state_op \<Rightarrow> bool" where
  "snapshot_op (Snapshot _ _) = True"
| "snapshot_op _ = False"

fun view_ops :: "state_op list \<Rightarrow> view \<Rightarrow> view" where
  "view_ops [] w = w"
| "view_ops (LifecycleEvent e _ # ops) w = view_ops ops (view_event e w)"
| "view_ops (_ # ops) w = view_ops ops w"

lemma view_ops_append: "view_ops (xs @ ys) w = view_ops ys (view_ops xs w)"
  by (induction xs w rule: view_ops.induct) auto

text \<open>
  The history behind a served state: the last connection, then the last snapshot, both
  with no disconnection after them.
\<close>

definition served :: "state_op list \<Rightarrow> view \<Rightarrow> bool" where
  "served ops w \<longleftrightarrow>
     (\<exists>before r t during cs t' after.
        ops = before @ Connected r t # during @ Snapshot cs t' # after
        \<and> (\<forall>op \<in> set (during @ after). \<not> session_op op)
        \<and> (\<forall>op \<in> set after. \<not> snapshot_op op)
        \<and> w = view_ops after (view_snapshot cs))"

definition connected_since :: "state_op list \<Rightarrow> bool" where
  "connected_since ops \<longleftrightarrow>
     (\<exists>before r t after. ops = before @ Connected r t # after \<and> (\<forall>op \<in> set after. \<not> session_op op))"

lemma connected_since_snoc:
  "connected_since ops \<Longrightarrow> \<not> session_op op \<Longrightarrow> connected_since (ops @ [op])"
proof -
  assume "connected_since ops" and op: "\<not> session_op op"
  then obtain before r t after where
      "ops = before @ Connected r t # after" "\<forall>op \<in> set after. \<not> session_op op"
    unfolding connected_since_def by blast
  with op have "ops @ [op] = before @ Connected r t # (after @ [op])"
      "\<forall>op' \<in> set (after @ [op]). \<not> session_op op'"
    by auto
  then show ?thesis unfolding connected_since_def by blast
qed

lemma served_snoc:
  assumes "served ops w" and "\<not> session_op op" and "\<not> snapshot_op op"
  shows "served (ops @ [op]) (view_ops [op] w)"
proof -
  from assms(1) obtain before r t during cs t' after where
      "ops = before @ Connected r t # during @ Snapshot cs t' # after"
      "\<forall>op \<in> set (during @ after). \<not> session_op op" "\<forall>op \<in> set after. \<not> snapshot_op op"
      "w = view_ops after (view_snapshot cs)"
    unfolding served_def by blast
  then have "ops @ [op] = before @ Connected r t # during @ Snapshot cs t' # (after @ [op])"
      "\<forall>op \<in> set (during @ (after @ [op])). \<not> session_op op"
      "\<forall>op \<in> set (after @ [op]). \<not> snapshot_op op"
      "view_ops [op] w = view_ops (after @ [op]) (view_snapshot cs)"
    using assms(2,3) by (auto simp: view_ops_append)
  then show ?thesis unfolding served_def by blast
qed

lemma served_snapshot:
  assumes "connected_since ops"
  shows "served (ops @ [Snapshot cs t]) (view_snapshot cs)"
proof -
  from assms obtain before r t0 after where
      "ops = before @ Connected r t0 # after" "\<forall>op \<in> set after. \<not> session_op op"
    unfolding connected_since_def by blast
  then have "ops @ [Snapshot cs t] = before @ Connected r t0 # after @ Snapshot cs t # []"
      "\<forall>op \<in> set (after @ []). \<not> session_op op"
    by simp_all
  then show ?thesis unfolding served_def by fastforce
qed

lemma state_run_history:
  assumes "state_run ops newManagementState = Inr s"
  shows "(stConnected s \<longrightarrow> connected_since ops)
     \<and> (stConnected s \<and> stSnapshotAt s \<noteq> None \<longrightarrow> served ops (view_of (stChannels s)))"
  using assms
proof (induction ops arbitrary: s rule: rev_induct)
  case Nil
  then have "s = newManagementState" by simp
  then show ?case by (simp add: newManagementState_def)
next
  case (snoc op ops)
  then obtain s0 where s0: "state_run ops newManagementState = Inr s0"
      and op: "state_step op s0 = Inr s"
    by (auto simp: state_run_snoc split: sum.splits)
  note IH = snoc.IH [OF s0]
  show ?case
  proof (cases op)
    case (Connected r now)
    with op have "stSnapshotAt s = None" by (auto simp: markConnected_def)
    moreover have "connected_since (ops @ [op])"
      unfolding connected_since_def Connected by fastforce
    ultimately show ?thesis by simp
  next
    case Disconnected
    with op show ?thesis by (auto simp: markDisconnected_def)
  next
    case (LifecycleEvent e now)
    with op recordLifecycleEvent_fields [of e now s0 s] IH show ?thesis
      using connected_since_snoc [of ops op] served_snoc [of ops "view_of (stChannels s0)" op]
      by (auto simp: view_update_participants)
  next
    case (Snapshot cs now)
    with op IH show ?thesis
      using connected_since_snoc [of ops op] served_snapshot [of ops cs now]
      by (auto simp: applyRelayStateSnapshot_def project_channels_view view_snapshot_def)
  next
    case (SetLive h)
    with op IH show ?thesis
      using connected_since_snoc [of ops op] served_snoc [of ops "view_of (stChannels s0)" op]
      by (auto simp: setLiveEvents_def)
  next
    case (SetJobs j)
    with op IH show ?thesis
      using connected_since_snoc [of ops op] served_snoc [of ops "view_of (stChannels s0)" op]
      by (auto simp: setRecordingJobs_def)
  qed
qed

text \<open>
  C9. The API never serves a prior connection's state: whatever has happened, if it serves
  channels at all then the Relay is connected, a complete snapshot has arrived since the
  last connection, with no disconnection in between, and what is served is that snapshot
  with exactly the events that arrived after it.
\<close>

theorem channel_state_is_current:
  assumes "state_run ops newManagementState = Inr s"
    and "managementAPIChannelState s = Some chs"
  shows "served ops (view_of chs)"
  using state_run_history [OF assms(1)] assms(2)
  by (auto simp: managementAPIChannelState_def split: if_splits)

text \<open>A run that serves a channel, for the theorem above.\<close>

definition sample_channel :: privateControlSnapshotChannel where
  "sample_channel = \<lparr>scChannelID = 100, scParticipants =
     [\<lparr>spSenderID = 7, spState = ''joined''\<rparr>, \<lparr>spSenderID = 8, spState = ''talking''\<rparr>]\<rparr>"

definition talk_event :: privateControlLifecycleEvent where
  "talk_event = sample_event\<lparr>leEventType := ''talk_started''\<rparr>"

theorem channel_state_is_current_witness:
  "served [Connected ''relay-01'' 5, Snapshot [sample_channel] 6, LifecycleEvent talk_event 7]
     (view_of [(100, [(7, ''talking''), (8, ''talking'')])])"
proof -
  let ?ops = "[Connected ''relay-01'' 5, Snapshot [sample_channel] 6, LifecycleEvent talk_event 7]"
  let ?s = "newManagementState\<lparr>stRelayID := ''relay-01'', stConnected := True,
     stConnectedAt := Some 5, stChannels := [(100, [(7, ''talking''), (8, ''talking'')])],
     stSnapshotAt := Some 6, stLastEventAt := Some 7, stLastEventType := ''talk_started''\<rparr>"
  have run: "state_run ?ops newManagementState = Inr ?s"
    by (simp add: markConnected_def applyRelayStateSnapshot_def recordLifecycleEvent_def Let_def
        newManagementState_def sample_channel_def talk_event_def sample_event_def
        update_participants_def applyLifecycleEvent_def)
  have "managementAPIChannelState ?s = Some [(100, [(7, ''talking''), (8, ''talking'')])]"
    by (simp add: managementAPIChannelState_def)
  from channel_state_is_current [OF run this] show ?thesis .
qed

section \<open>Panics and empty channels\<close>

text \<open>The state's own operations keep the hub's invariant, so recording an event never
  panics.\<close>

definition state_ok :: "managementState \<Rightarrow> bool" where
  "state_ok s \<longleftrightarrow> (\<forall>h. stLiveEvents s = Some h \<longrightarrow> hub_ok h)
     \<and> (\<forall>js. stRecordingJobs s = Some js \<longrightarrow> jobs_ok js)"

lemma applyLifecycleEvent_Some:
  "applyLifecycleEvent e j = Some js' \<Longrightarrow> \<exists>js. j = Some js"
  by (cases j) (simp_all add: applyLifecycleEvent_def)

lemma recordLifecycleEvent_ok:
  assumes "state_ok s"
  shows "\<exists>s'. recordLifecycleEvent e now s = Inr s' \<and> state_ok s'"
proof -
  have jobs: "jobs_ok js'" if "applyLifecycleEvent e (stRecordingJobs s) = Some js'" for js'
  proof -
    from applyLifecycleEvent_Some [OF that] obtain js where "stRecordingJobs s = Some js" ..
    with that assms show ?thesis
      by (auto simp: state_ok_def intro: applyLifecycleEvent_ok)
  qed
  show ?thesis
  proof (cases "stLiveEvents s")
    case None
    then show ?thesis
      using jobs by (simp add: recordLifecycleEvent_def Let_def state_ok_def)
  next
    case (Some h)
    with assms have "hub_ok h" by (simp add: state_ok_def)
    from publish_total [OF this] obtain h' where "publish e h = Inr h'" by blast
    with publish_ok [OF \<open>hub_ok h\<close>] Some jobs show ?thesis
      by (auto simp: recordLifecycleEvent_def Let_def state_ok_def)
  qed
qed

text \<open>
  An event that names a channel the state does not know, and that neither adds nor
  removes a participant, leaves an entry for the channel with no participants: the channel
  is listed with a participant count of zero until its last participant leaves, or until
  the next connection or snapshot.
\<close>

theorem event_leaves_empty_channel:
  assumes "leChannelID e = Some c" and "leSenderID e = Some p"
    and "leEventType e \<in> {''talk_ended'', ''recording_state_changed'', ''service_admission_issued'',
           ''service_admission_revoked''}"
    and "mget chs c = None"
  shows "mget (update_participants e chs) c = Some []"
  using assms by (auto simp: update_participants_def Let_def mhas_def mget_put)

theorem event_leaves_empty_channel_witness:
  "mget (update_participants (sample_event\<lparr>leEventType := ''talk_ended''\<rparr>) []) 100 = Some []"
  by (rule event_leaves_empty_channel [of _ 100 7]) (simp_all add: sample_event_def)

end
