(* ===== verification/Pcl_Session.thy ===== *)
theory Pcl_Session
  imports Snapshot_Reassembly Relay_State Queue_Runs
begin

text \<open>
  A session of the Private Control Link (\<open>private_control.go\<close>, lines 246 to 460): the
  handshake, the loop that sends commands and handles what the Relay sends, and the
  reconnection with its growing delay.  The connection is the bytes the Relay sends before it
  closes and the answers to the writes; the choices of the \<open>select\<close> are an argument.  The
  reader goroutine hands over frames one by one in the order of the stream, so a frame is
  read here where the loop receives it.  What the other goroutines do to the queue, to the
  hub and to the job table between two steps is an argument, too.
\<close>

section \<open>Messages\<close>

record session =
  snState :: managementState
  snClient :: privateControlClient
  snSnapshot :: "privateControlSnapshotReassembly option"

datatype session_error =
    SessTransport | SessDial | SessRandom | SessFrame frame_error | SessHelloAck
  | SessNoLifecycleEvents | SessAuditInputs | SessDiagnostics
  | SessSend send_error | SessCancelled
  | SessEnvelope | SessDecode | SessInvalidEvent | SessInvalidSnapshot | SessSnapshot snapshot_error
  | SessInvalidAck | SessQueue queue_error | SessUnexpectedAck | SessInvalidError
  | SessRelayError string | SessUnexpectedError string | SessUnexpectedType string
  | SessPanic go_panic

definition relay_error_result :: "string \<Rightarrow> privateControlCommandResult" where
  "relay_error_result code = \<lparr>crAck = zero_ack, crErr = Some (RelayError code)\<rparr>"

text \<open>The branches of \<open>handleSessionMessage\<close>.\<close>

definition handle_event :: "int \<Rightarrow> string \<Rightarrow> session \<Rightarrow> session_error option \<times> session" where
  "handle_event now raw s =
     (case decodePrivateControlJSON fields_event zero_event raw of
        None \<Rightarrow> (Some SessDecode, s)
      | Some event \<Rightarrow>
          if \<not> validPrivateControlLifecycleEvent (raw_members raw) event then (Some SessInvalidEvent, s)
          else (case recordLifecycleEvent event now (snState s) of
                  Inl p \<Rightarrow> (Some (SessPanic p), s)
                | Inr st \<Rightarrow> (None, s\<lparr>snState := st\<rparr>)))"

definition handle_snapshot :: "int \<Rightarrow> string \<Rightarrow> string \<Rightarrow> session \<Rightarrow> session_error option \<times> session" where
  "handle_snapshot now raw snapshotRequestID s =
     (case decodePrivateControlJSON fields_snapshot zero_snapshot raw of
        None \<Rightarrow> (Some SessInvalidSnapshot, s)
      | Some response \<Rightarrow>
          if \<not> validPrivateControlRelayStateSnapshot response \<or> ssInReplyTo response \<noteq> snapshotRequestID
          then (Some SessInvalidSnapshot, s)
          else
            let snapshot = (case snSnapshot s of None \<Rightarrow> new_reassembly response | Some r \<Rightarrow> r)
            in (case reassembly_add response snapshot of
                  (Inl e, r) \<Rightarrow> (Some (SessSnapshot e), s\<lparr>snSnapshot := Some r\<rparr>)
                | (Inr None, r) \<Rightarrow> (None, s\<lparr>snSnapshot := Some r\<rparr>)
                | (Inr (Some channels), r) \<Rightarrow>
                    (None, s\<lparr>snSnapshot := Some r,
                             snState := applyRelayStateSnapshot channels now (snState s)\<rparr>)))"

definition handle_ack :: "environment \<Rightarrow> string \<Rightarrow> session \<Rightarrow> session_error option \<times> session" where
  "handle_ack env raw s =
     (case decodePrivateControlJSON fields_ack zero_ack raw of
        None \<Rightarrow> (Some SessInvalidAck, s)
      | Some response \<Rightarrow>
          if \<not> validPrivateControlAck response then (Some SessInvalidAck, s)
          else (case completePendingAcknowledgement env response (snClient s) of
                  ((completed, Some e), cl) \<Rightarrow> (Some (SessQueue e), s\<lparr>snClient := cl\<rparr>)
                | ((completed, None), cl) \<Rightarrow>
                    (if \<not> completed then Some SessUnexpectedAck else None, s\<lparr>snClient := cl\<rparr>)))"

definition handle_error :: "environment \<Rightarrow> string \<Rightarrow> string \<Rightarrow> session \<Rightarrow> session_error option \<times> session" where
  "handle_error env raw snapshotRequestID s =
     (case decodePrivateControlJSON fields_error zero_error raw of
        None \<Rightarrow> (Some SessDecode, s)
      | Some response \<Rightarrow>
          if \<not> validPrivateControlError response then (Some SessInvalidError, s)
          else if peInReplyTo response = snapshotRequestID then (Some (SessRelayError (peCode response)), s)
          else if peInReplyTo response \<noteq> [] then
            (case completePendingCommand env (peInReplyTo response) (relay_error_result (peCode response)) (snClient s) of
               ((completed, Some e), cl) \<Rightarrow> (Some (SessQueue e), s\<lparr>snClient := cl\<rparr>)
             | ((completed, None), cl) \<Rightarrow>
                 (if completed then None else Some (SessUnexpectedError (peCode response)), s\<lparr>snClient := cl\<rparr>))
          else (Some (SessUnexpectedError (peCode response)), s))"

definition handleSessionMessage ::
  "environment \<Rightarrow> int \<Rightarrow> string \<Rightarrow> string \<Rightarrow> session \<Rightarrow> session_error option \<times> session" where
  "handleSessionMessage env now rawMessage snapshotRequestID s =
     (case decodePrivateControlEnvelope rawMessage of
        None \<Rightarrow> (Some SessEnvelope, s)
      | Some envelope \<Rightarrow>
          if envType envelope = ''relay_lifecycle_event'' then handle_event now rawMessage s
          else if envType envelope = ''relay_state_snapshot'' then handle_snapshot now rawMessage snapshotRequestID s
          else if envType envelope = ''ack'' then handle_ack env rawMessage s
          else if envType envelope = ''error'' then handle_error env rawMessage snapshotRequestID s
          else (Some (SessUnexpectedType (envType envelope)), s))"

section \<open>The handshake\<close>

text \<open>
  What a session meets: what the other goroutines did since the last one, whether the dial
  succeeds, the random bytes of the two identifiers, the clock, the bytes the Relay sends and
  the answers to the writes.
\<close>

record link =
  lkMeanwhile :: "session \<Rightarrow> session"
  lkDialed :: bool
  lkHelloRaw :: "string option"
  lkSnapshotRaw :: "string option"
  lkNow :: int
  lkIncoming :: string
  lkAnswers :: "(int \<times> bool) list"

definition hello_message :: "privateControlClientConfig \<Rightarrow> string \<Rightarrow> privateControlHello" where
  "hello_message config messageID =
     \<lparr>heSchemaVersion = privateControlSchemaVersion, heType = ''hello'', heMessageID = messageID,
      heManagementServiceID = cfServiceID config, heWantLifecycleEvents = Some True,
      heWantAuditInputs = Some False, heWantDiagnostics = Some False\<rparr>"

definition snapshot_request :: "string \<Rightarrow> privateControlGetRelayStateSnapshot" where
  "snapshot_request messageID =
     \<lparr>gsSchemaVersion = privateControlSchemaVersion, gsType = ''get_relay_state_snapshot'', gsMessageID = messageID\<rparr>"

text \<open>
  \<open>runSession\<close> up to its loop: the error or the identifier of the snapshot request with what
  is left of the link, then the bytes written and the state.
\<close>

definition handshake ::
  "link \<Rightarrow> session \<Rightarrow> (session_error + string \<times> string \<times> (int \<times> bool) list) \<times> string \<times> session" where
  "handshake lk s =
     (let config = clConfig (snClient s)
      in if cfTransport config \<noteq> privateControlTransportMTLSTCP \<and> cfTransport config \<noteq> privateControlTransportUDS
           then (Inl SessTransport, [], s)
         else if \<not> lkDialed lk then (Inl SessDial, [], s)
         else case newPrivateControlID (lkHelloRaw lk) of
           None \<Rightarrow> (Inl SessRandom, [], s)
         | Some messageID \<Rightarrow>
         (case writePrivateControlFrame (lkAnswers lk) (enc_hello (hello_message config messageID)) of
            (out, Some e, answers) \<Rightarrow> (Inl (SessFrame e), out, s)
          | (out, None, answers) \<Rightarrow>
         (case readPrivateControlFrame (lkIncoming lk) of
            Inl e \<Rightarrow> (Inl (SessFrame e), out, s)
          | Inr (rawAck, incoming) \<Rightarrow>
         (case decodePrivateControlJSON fields_hello_ack zero_hello_ack rawAck of
            None \<Rightarrow> (Inl SessDecode, out, s)
          | Some ack \<Rightarrow>
              if \<not> validPrivateControlHelloAck ack messageID then (Inl SessHelloAck, out, s)
              else if haLifecycleEventsAccepted ack \<noteq> Some True then (Inl SessNoLifecycleEvents, out, s)
              else if haAuditInputsAccepted ack = Some True then (Inl SessAuditInputs, out, s)
              else if haDiagnosticsAccepted ack = Some True then (Inl SessDiagnostics, out, s)
              else
                let s = s\<lparr>snState := markConnected (haRelayID ack) (lkNow lk) (snState s), snSnapshot := None\<rparr>
                in case newPrivateControlID (lkSnapshotRaw lk) of
                     None \<Rightarrow> (Inl SessRandom, out, s)
                   | Some snapshotRequestID \<Rightarrow>
                   (case writePrivateControlFrame answers (enc_get_snapshot (snapshot_request snapshotRequestID)) of
                      (out', Some e, answers') \<Rightarrow> (Inl (SessFrame e), out @ out', s)
                    | (out', None, answers') \<Rightarrow>
                        (Inr (snapshotRequestID, incoming, answers'), out @ out', s))))))"

section \<open>The loop\<close>

text \<open>
  One turn of the loop: what the other goroutines did before it sends, before it selects
  and between two commands of a sending, what the operating system and the clock say while it
  sends and handles, and which case the
  \<open>select\<close> takes.  A case that is not ready is not taken: a turn with \<open>Notified\<close> waits for a
  notification to be there.
\<close>

datatype selected = Cancelled | Notified | Received_frame

record turn =
  tuBefore :: "session \<Rightarrow> session"
  tuMeanwhile :: "session \<Rightarrow> session"
  tuBetween :: "nat \<Rightarrow> privateControlClient \<Rightarrow> privateControlClient"
  tuSendEnv :: "nat \<Rightarrow> environment"
  tuSendNow :: int
  tuSelected :: selected
  tuHandleEnv :: environment
  tuHandleNow :: int

fun session_loop ::
  "turn list \<Rightarrow> string \<Rightarrow> string \<Rightarrow> (int \<times> bool) list \<Rightarrow> string list \<Rightarrow> session
   \<Rightarrow> session_error option \<times> string \<times> session" where
  "session_loop [] snapshotRequestID incoming answers sent s = (None, [], s)"
| "session_loop (tu # tus) snapshotRequestID incoming answers sent s =
     (let s = tuBefore tu s
      in case sendPendingCommands (tuSendEnv tu) (tuBetween tu) (tuSendNow tu) answers sent (snClient s) of
        (Some e, out, answers', sent', cl) \<Rightarrow> (Some (SessSend e), out, s\<lparr>snClient := cl\<rparr>)
      | (None, out, answers', sent', cl) \<Rightarrow>
          let s = tuMeanwhile tu (s\<lparr>snClient := cl\<rparr>)
          in (case tuSelected tu of
                Cancelled \<Rightarrow> (Some SessCancelled, out, s)
              | Notified \<Rightarrow>
                  (case chan_recv (clNotify (snClient s)) of
                     (Received _, c) \<Rightarrow>
                       (case session_loop tus snapshotRequestID incoming answers' sent'
                               (s\<lparr>snClient := (snClient s)\<lparr>clNotify := c\<rparr>\<rparr>) of
                          (e, out', s') \<Rightarrow> (e, out @ out', s'))
                   | _ \<Rightarrow> (None, out, s))
              | Received_frame \<Rightarrow>
                  (case readPrivateControlFrame incoming of
                     Inl e \<Rightarrow> (Some (SessFrame e), out, s)
                   | Inr (raw, incoming') \<Rightarrow>
                       (case handleSessionMessage (tuHandleEnv tu) (tuHandleNow tu) raw snapshotRequestID s of
                          (Some e, s') \<Rightarrow> (Some e, out, s')
                        | (None, s') \<Rightarrow>
                            (case session_loop tus snapshotRequestID incoming' answers' sent' s' of
                               (e, out', s'') \<Rightarrow> (e, out @ out', s''))))))"

text \<open>A session; no error means that it is still running after the given turns.\<close>

definition runSession ::
  "link \<Rightarrow> turn list \<Rightarrow> session \<Rightarrow> session_error option \<times> string \<times> session" where
  "runSession lk tus s =
     (case handshake lk (lkMeanwhile lk s) of
        (Inl e, out, s') \<Rightarrow> (Some e, out, s')
      | (Inr (snapshotRequestID, incoming, answers), out, s') \<Rightarrow>
          (case session_loop tus snapshotRequestID incoming answers [] s' of
             (e, out', s'') \<Rightarrow> (e, out @ out', s'')))"

section \<open>Reconnection\<close>

text \<open>The delay after a session, in seconds.\<close>

definition next_retry :: "int \<Rightarrow> int" where
  "next_retry retry =
     (if retry < 30 then (let retry = retry * 2 in if 30 < retry then 30 else retry) else retry)"

text \<open>
  \<open>run\<close> over the sessions to come: the delays waited, and the state.  It ends with a session
  that is still running or was cancelled; while it waits it is not connected.
\<close>

fun run_sessions :: "(link \<times> turn list) list \<Rightarrow> int \<Rightarrow> session \<Rightarrow> int list \<times> session" where
  "run_sessions [] retry s = ([], s)"
| "run_sessions ((lk, tus) # rest) retry s =
     (case runSession lk tus s of
        (None, _, s') \<Rightarrow> ([], s')
      | (Some e, _, s') \<Rightarrow>
          let s' = s'\<lparr>snState := markDisconnected (snState s')\<rparr>
          in if e = SessCancelled then ([], s')
             else (case run_sessions rest (next_retry retry) s' of (waits, s'') \<Rightarrow> (retry # waits, s'')))"

definition run :: "(link \<times> turn list) list \<Rightarrow> session \<Rightarrow> int list \<times> session" where
  "run sessions s = run_sessions sessions 1 s"

end
