(* ===== verification/Session_Properties.thy ===== *)
theory Session_Properties
  imports Pcl_Session
begin

text \<open>
  What a session of the Private Control Link guarantees: a message that is refused changes
  nothing, nothing is taken from a Relay before it accepted the handshake, the state only
  changes by valid messages of the Relay, commands are written once in a session, and the
  delay before a reconnection is bounded.
\<close>

section \<open>Refused messages\<close>

text \<open>Two clients with the same pending commands, result channels and notifications.\<close>

definition same_queue :: "privateControlClient \<Rightarrow> privateControlClient \<Rightarrow> bool" where
  "same_queue cl cl' \<longleftrightarrow> (\<forall>k. mget (clPending cl') k = mget (clPending cl) k)
     \<and> clResults cl' = clResults cl \<and> clNotify cl' = clNotify cl"

lemma same_queue_refl [simp]: "same_queue cl cl"
  by (simp add: same_queue_def)

lemma finish_error_same:
  assumes "finish_command env k c r cl = ((completed, Some e), cl')" and "mget (clPending cl) k = Some c"
  shows "same_queue cl cl'"
  using assms(1)
proof (cases rule: finish_cases)
  case (kept dk)
  have "mget (mdel k (clPending cl) @ [(k, c)]) k' = mget (clPending cl) k'" for k'
    using assms(2) by (auto simp: map_add_def mget_del split: option.split)
  with kept show ?thesis by (simp add: same_queue_def)
qed auto

lemma complete_error_same:
  assumes "completePendingCommand env k r cl = ((completed, e), cl')" and "e \<noteq> None \<or> \<not> completed"
  shows "same_queue cl cl'"
  using assms(1)
proof (cases rule: complete_cases)
  case (found c)
  then show ?thesis using assms(2) finish_error_same [of env k c r cl completed]
    by (cases e) (auto elim: finish_cases)
qed simp

lemma ack_error_same:
  assumes "completePendingAcknowledgement env a cl = ((completed, e), cl')" and "e \<noteq> None \<or> \<not> completed"
  shows "same_queue cl cl'"
  using assms(1)
proof (cases rule: ack_cases)
  case (found c)
  then show ?thesis using assms(2) finish_error_same [OF _ found(1)]
    by (cases e) (auto elim: finish_cases)
qed simp

lemma handle_event_cases:
  assumes "handle_event now raw s = (e, s')"
  obtains (refused) "e \<noteq> None" "s' = s"
  | (recorded) event st where "e = None" "decodePrivateControlJSON fields_event zero_event raw = Some event"
      "validPrivateControlLifecycleEvent (raw_members raw) event"
      "recordLifecycleEvent event now (snState s) = Inr st" "s' = s\<lparr>snState := st\<rparr>"
proof (cases "decodePrivateControlJSON fields_event zero_event raw")
  case None
  then have "e = Some SessDecode \<and> s' = s" using assms by (auto simp: handle_event_def)
  then show thesis using refused by blast
next
  case (Some event)
  show thesis
  proof (cases "validPrivateControlLifecycleEvent (raw_members raw) event")
    case False
    then have "e = Some SessInvalidEvent \<and> s' = s" using assms Some by (auto simp: handle_event_def)
    then show thesis using refused by blast
  next
    case True
    show thesis
    proof (cases "recordLifecycleEvent event now (snState s)")
      case (Inl p)
      then have "e = Some (SessPanic p) \<and> s' = s" using assms Some True by (auto simp: handle_event_def)
      then show thesis using refused by blast
    next
      case (Inr st)
      then have "e = None \<and> s' = s\<lparr>snState := st\<rparr>" using assms Some True by (auto simp: handle_event_def)
      then show thesis using recorded Some True Inr by blast
    qed
  qed
qed

lemma handle_snapshot_cases:
  assumes "handle_snapshot now raw q s = (e, s')"
  obtains (refused) r where "e \<noteq> None" "s' = s\<lparr>snSnapshot := r\<rparr>"
  | (chunk) response r0 res r where "e = None"
      "decodePrivateControlJSON fields_snapshot zero_snapshot raw = Some response"
      "validPrivateControlRelayStateSnapshot response" "ssInReplyTo response = q"
      "r0 = (case snSnapshot s of None \<Rightarrow> new_reassembly response | Some r \<Rightarrow> r)"
      "reassembly_add response r0 = (Inr res, r)"
      "s' = s\<lparr>snSnapshot := Some r, snState := (case res of None \<Rightarrow> snState s
              | Some channels \<Rightarrow> applyRelayStateSnapshot channels now (snState s))\<rparr>"
proof (cases "decodePrivateControlJSON fields_snapshot zero_snapshot raw")
  case None
  then have "e = Some SessInvalidSnapshot \<and> s' = s" using assms by (auto simp: handle_snapshot_def)
  then show thesis using refused [of "snSnapshot s"] by simp
next
  case (Some response)
  show thesis
  proof (cases "validPrivateControlRelayStateSnapshot response \<and> ssInReplyTo response = q")
    case False
    then show thesis using assms Some refused [of "snSnapshot s"] by (auto simp: handle_snapshot_def)
  next
    case True
    let ?r0 = "case snSnapshot s of None \<Rightarrow> new_reassembly response | Some r \<Rightarrow> r"
    obtain x r where x: "reassembly_add response ?r0 = (x, r)" by fastforce
    show thesis
    proof (cases x)
      case (Inl err)
      then have "e = Some (SessSnapshot err) \<and> s' = s\<lparr>snSnapshot := Some r\<rparr>"
        using assms Some True x by (auto simp: handle_snapshot_def Let_def)
      then show thesis using refused [of "Some r"] by simp
    next
      case (Inr res)
      then have "e = None \<and> s' = s\<lparr>snSnapshot := Some r, snState := (case res of None \<Rightarrow> snState s
              | Some channels \<Rightarrow> applyRelayStateSnapshot channels now (snState s))\<rparr>"
        using assms Some True x by (cases res; cases s) (auto simp: handle_snapshot_def Let_def)
      then show thesis using chunk [of response ?r0 res r] Some True x Inr by blast
    qed
  qed
qed

lemma handle_ack_cases:
  assumes "handle_ack env raw s = (e, s')"
  obtains (refused) cl where "e \<noteq> None" "s' = s\<lparr>snClient := cl\<rparr>" "same_queue (snClient s) cl"
      "queue_step\<^sup>*\<^sup>* (snClient s) cl"
  | (completed) response cl where "e = None" "decodePrivateControlJSON fields_ack zero_ack raw = Some response"
      "completePendingAcknowledgement env response (snClient s) = ((True, None), cl)" "s' = s\<lparr>snClient := cl\<rparr>"
proof (cases "decodePrivateControlJSON fields_ack zero_ack raw")
  case None
  then have "e = Some SessInvalidAck \<and> s' = s" using assms by (auto simp: handle_ack_def)
  then show thesis using refused [of "snClient s"] by simp
next
  case (Some response)
  obtain c x cl where a: "completePendingAcknowledgement env response (snClient s) = ((c, x), cl)"
    by (metis prod.collapse)
  then have "queue_step (snClient s) cl" by (rule acknowledge)
  then show thesis
    using assms Some a ack_error_same [OF a] refused [of cl] refused [of "snClient s"] completed [of response cl]
    by (auto simp: handle_ack_def split: if_splits option.splits)
qed

lemma handle_error_cases:
  assumes "handle_error env raw q s = (e, s')"
  obtains (refused) cl where "e \<noteq> None" "s' = s\<lparr>snClient := cl\<rparr>" "same_queue (snClient s) cl"
      "queue_step\<^sup>*\<^sup>* (snClient s) cl"
  | (completed) response cl where "e = None" "decodePrivateControlJSON fields_error zero_error raw = Some response"
      "completePendingCommand env (peInReplyTo response) (relay_error_result (peCode response)) (snClient s)
         = ((True, None), cl)" "s' = s\<lparr>snClient := cl\<rparr>"
proof (cases "decodePrivateControlJSON fields_error zero_error raw")
  case None
  then have "e = Some SessDecode \<and> s' = s" using assms by (auto simp: handle_error_def)
  then show thesis using refused [of "snClient s"] by simp
next
  case (Some response)
  obtain c x cl where a: "completePendingCommand env (peInReplyTo response)
      (relay_error_result (peCode response)) (snClient s) = ((c, x), cl)"
    by (metis prod.collapse)
  then have "queue_step (snClient s) cl" by (rule complete)
  then show thesis
    using assms Some a complete_error_same [OF a] refused [of cl] refused [of "snClient s"]
      completed [of response cl]
    by (auto simp: handle_error_def split: if_splits option.splits)
qed

lemma handle_message_cases:
  assumes "handleSessionMessage env now raw q s = (e, s')"
  obtains (unknown) "e \<noteq> None" "s' = s"
  | (event) "handle_event now raw s = (e, s')"
  | (snapshot) "handle_snapshot now raw q s = (e, s')"
  | (ack) "handle_ack env raw s = (e, s')"
  | (relay_error) "handle_error env raw q s = (e, s')"
  using assms by (auto simp: handleSessionMessage_def split: option.splits if_splits)

text \<open>
  C33. A message that ends the session, whatever is wrong with it, changes nothing of the
  Relay state, the event hub or the recording jobs, and leaves every pending command, every
  result channel and the notification as they were; only the disk may differ.
\<close>

theorem refused_message_changes_nothing:
  assumes "handleSessionMessage env now raw snapshotRequestID s = (Some e, s')"
  shows "snState s' = snState s
     \<and> (\<forall>k. mget (clPending (snClient s')) k = mget (clPending (snClient s)) k)
     \<and> clResults (snClient s') = clResults (snClient s) \<and> clNotify (snClient s') = clNotify (snClient s)"
proof -
  have "snState s' = snState s \<and> same_queue (snClient s) (snClient s')"
    using assms
  proof (cases rule: handle_message_cases)
    case event
    then show ?thesis by (cases rule: handle_event_cases) auto
  next
    case snapshot
    then show ?thesis by (cases rule: handle_snapshot_cases) auto
  next
    case ack
    then show ?thesis by (cases rule: handle_ack_cases) auto
  next
    case relay_error
    then show ?thesis by (cases rule: handle_error_cases) auto
  qed auto
  then show ?thesis by (simp add: same_queue_def)
qed

section \<open>The handshake\<close>

text \<open>The hello acknowledgement of the Relay, with what follows it in the stream.\<close>

definition relay_accepts :: "string \<Rightarrow> string \<Rightarrow> privateControlHelloAck \<Rightarrow> bool" where
  "relay_accepts incoming messageID ack \<longleftrightarrow>
     (\<exists>raw rest. readPrivateControlFrame incoming = Inr (raw, rest)
        \<and> decodePrivateControlJSON fields_hello_ack zero_hello_ack raw = Some ack)
     \<and> validPrivateControlHelloAck ack messageID
     \<and> haLifecycleEventsAccepted ack = Some True
     \<and> haAuditInputsAccepted ack = Some False \<and> haDiagnosticsAccepted ack = Some False"

lemma handshake_cases:
  assumes "handshake lk s = (r, out, s')"
  obtains (refused) e where "r = Inl e" "s' = s"
  | (accepted) messageID ack where "newPrivateControlID (lkHelloRaw lk) = Some messageID"
      "relay_accepts (lkIncoming lk) messageID ack"
      "s' = s\<lparr>snState := markConnected (haRelayID ack) (lkNow lk) (snState s), snSnapshot := None\<rparr>"
      "\<forall>id incoming answers. r = Inr (id, incoming, answers) \<longrightarrow>
          newPrivateControlID (lkSnapshotRaw lk) = Some id
          \<and> (\<exists>raw. readPrivateControlFrame (lkIncoming lk) = Inr (raw, incoming))
          \<and> out = frame_of (enc_hello (hello_message (clConfig (snClient s)) messageID))
                @ frame_of (enc_get_snapshot (snapshot_request id))"
proof (cases "\<exists>e. r = Inl e \<and> s' = s")
  case True
  then show thesis using refused by blast
next
  case False
  note no = this
  have t: "cfTransport (clConfig (snClient s)) = privateControlTransportMTLSTCP
        \<or> cfTransport (clConfig (snClient s)) = privateControlTransportUDS" "lkDialed lk"
    using assms no by (auto simp: handshake_def Let_def split: if_splits)
  obtain messageID where id: "newPrivateControlID (lkHelloRaw lk) = Some messageID"
    using assms no by (cases "newPrivateControlID (lkHelloRaw lk)") (auto simp: handshake_def Let_def split: if_splits)
  obtain out1 e1 answers1 where w: "writePrivateControlFrame (lkAnswers lk)
      (enc_hello (hello_message (clConfig (snClient s)) messageID)) = (out1, e1, answers1)"
    by (metis prod_cases3)
  have e1: "e1 = None"
    using assms no id w by (cases e1) (auto simp: handshake_def Let_def split: if_splits)
  obtain raw rest where f: "readPrivateControlFrame (lkIncoming lk) = Inr (raw, rest)"
    using assms no id w e1
    by (cases "readPrivateControlFrame (lkIncoming lk)") (auto simp: handshake_def Let_def split: if_splits)
  obtain ack where a: "decodePrivateControlJSON fields_hello_ack zero_hello_ack raw = Some ack"
    using assms no id w e1 f
    by (cases "decodePrivateControlJSON fields_hello_ack zero_hello_ack raw")
      (auto simp: handshake_def Let_def split: if_splits)
  have v: "validPrivateControlHelloAck ack messageID" "haLifecycleEventsAccepted ack = Some True"
      "haAuditInputsAccepted ack \<noteq> Some True" "haDiagnosticsAccepted ack \<noteq> Some True"
    using assms no id w e1 f a by (auto simp: handshake_def Let_def split: if_splits)
  have acc: "relay_accepts (lkIncoming lk) messageID ack"
    using f a v by (auto simp: relay_accepts_def validPrivateControlHelloAck_def)
  let ?s = "s\<lparr>snState := markConnected (haRelayID ack) (lkNow lk) (snState s), snSnapshot := None\<rparr>"
  have rest: "(r, out, s') = (case newPrivateControlID (lkSnapshotRaw lk) of
        None \<Rightarrow> (Inl SessRandom, out1, ?s)
      | Some snapshotRequestID \<Rightarrow>
          (case writePrivateControlFrame answers1 (enc_get_snapshot (snapshot_request snapshotRequestID)) of
             (out', Some e, answers') \<Rightarrow> (Inl (SessFrame e), out1 @ out', ?s)
           | (out', None, answers') \<Rightarrow> (Inr (snapshotRequestID, rest, answers'), out1 @ out', ?s)))"
    using assms [symmetric] t id w e1 f a v
    by (cases "cfTransport (clConfig (snClient s)) = privateControlTransportMTLSTCP")
      (simp_all add: handshake_def Let_def)
  show thesis
  proof (cases "newPrivateControlID (lkSnapshotRaw lk)")
    case None
    then show thesis using rest accepted [OF id acc] by simp
  next
    case (Some q)
    obtain out2 e2 answers2 where w2: "writePrivateControlFrame answers1 (enc_get_snapshot (snapshot_request q))
        = (out2, e2, answers2)"
      by (metis prod_cases3)
    then show thesis
      using rest Some f e1 accepted [OF id acc] write_frame_done [OF w [unfolded e1]] write_frame_done [of answers1]
      by (cases e2) auto
  qed
qed

text \<open>
  C13. Unless the Relay answered the hello with a valid acknowledgement that names it, that
  accepts lifecycle events and that takes neither audit inputs nor diagnostics, a session
  changes nothing: the state, the queue and the disk are as they were.  If it did, the state
  is that of a new connection to that Relay, with no channels; and if the handshake ends
  well, exactly the hello and the snapshot request were written.
\<close>

theorem connected_only_if_accepted:
  assumes "handshake lk s = (r, out, s')"
  shows "(\<exists>e. r = Inl e) \<and> s' = s
     \<or> (\<exists>messageID ack. newPrivateControlID (lkHelloRaw lk) = Some messageID
          \<and> relay_accepts (lkIncoming lk) messageID ack
          \<and> s' = s\<lparr>snState := (snState s)\<lparr>stRelayID := haRelayID ack, stConnected := True,
                     stConnectedAt := Some (lkNow lk), stChannels := [], stSnapshotAt := None\<rparr>, snSnapshot := None\<rparr>
          \<and> (\<forall>id incoming answers. r = Inr (id, incoming, answers) \<longrightarrow>
               out = frame_of (enc_hello (hello_message (clConfig (snClient s)) messageID))
                   @ frame_of (enc_get_snapshot (snapshot_request id))))"
  using assms
proof (cases rule: handshake_cases)
  case (refused e)
  then show ?thesis by blast
next
  case (accepted messageID ack)
  then show ?thesis unfolding markConnected_def by blast
qed

section \<open>What the Relay sent\<close>

text \<open>The frames of a stream, up to the first one that cannot be read.\<close>

lemma read_frame_shorter: "readPrivateControlFrame xs = Inr (raw, rest) \<Longrightarrow> length rest < length xs"
  by (auto simp: readPrivateControlFrame_def Let_def split: if_splits)

function frames :: "string \<Rightarrow> string list" where
  "frames incoming = (case readPrivateControlFrame incoming of
     Inl _ \<Rightarrow> [] | Inr (raw, rest) \<Rightarrow> raw # frames rest)"
  by pat_completeness auto
termination
  by (relation "measure length") (auto dest: read_frame_shorter)

declare frames.simps [simp del]

lemma frames_read: "readPrivateControlFrame xs = Inr (raw, rest) \<Longrightarrow> frames xs = raw # frames rest"
  by (subst frames.simps) simp

definition event_sent :: "string set \<Rightarrow> privateControlLifecycleEvent \<Rightarrow> bool" where
  "event_sent R e \<longleftrightarrow> (\<exists>raw \<in> R. decodePrivateControlJSON fields_event zero_event raw = Some e
     \<and> validPrivateControlLifecycleEvent (raw_members raw) e)"

definition chunk_sent :: "string \<Rightarrow> string set \<Rightarrow> privateControlRelayStateSnapshot \<Rightarrow> bool" where
  "chunk_sent q R m \<longleftrightarrow> (\<exists>raw \<in> R. decodePrivateControlJSON fields_snapshot zero_snapshot raw = Some m)
     \<and> validPrivateControlRelayStateSnapshot m \<and> ssInReplyTo m = q"

definition snapshot_sent :: "string \<Rightarrow> string set \<Rightarrow> privateControlSnapshotChannel list \<Rightarrow> bool" where
  "snapshot_sent q R cs \<longleftrightarrow> (\<exists>msgs. msgs \<noteq> [] \<and> (\<forall>m \<in> set msgs. chunk_sent q R m)
     \<and> add_all msgs (new_reassembly (hd msgs)) = Inr (Some cs))"

text \<open>The chunks a reassembly was fed.\<close>

fun feed :: "privateControlRelayStateSnapshot list \<Rightarrow> privateControlSnapshotReassembly
    \<Rightarrow> privateControlSnapshotReassembly option" where
  "feed [] r = Some r"
| "feed (m # ms) r = (case reassembly_add m r of (Inl _, _) \<Rightarrow> None | (Inr _, r') \<Rightarrow> feed ms r')"

lemma feed_snoc: "feed ms r = Some r1 \<Longrightarrow> reassembly_add m r1 = (Inr x, r2) \<Longrightarrow> feed (ms @ [m]) r = Some r2"
  by (induction ms arbitrary: r) (auto split: prod.splits sum.splits)

lemma add_all_feed: "feed ms r = Some r1 \<Longrightarrow> reassembly_add m r1 = (Inr x, r2) \<Longrightarrow> add_all (ms @ [m]) r = Inr x"
  by (induction ms arbitrary: r) (auto split: prod.splits sum.splits)

definition gathered :: "string \<Rightarrow> string set \<Rightarrow> privateControlSnapshotReassembly option \<Rightarrow> bool" where
  "gathered q R ro \<longleftrightarrow> (\<forall>r. ro = Some r \<longrightarrow> (\<exists>msgs. msgs \<noteq> [] \<and> (\<forall>m \<in> set msgs. chunk_sent q R m)
     \<and> feed msgs (new_reassembly (hd msgs)) = Some r))"

lemma gathered_add:
  assumes "gathered q R ro" and "chunk_sent q R m"
    and "reassembly_add m (case ro of None \<Rightarrow> new_reassembly m | Some r \<Rightarrow> r) = (Inr x, r')"
  shows "gathered q R (Some r')" and "x = Some cs \<Longrightarrow> snapshot_sent q R cs"
proof -
  obtain ms where ms: "\<forall>m \<in> set ms. chunk_sent q R m"
      "feed ms (new_reassembly (hd (ms @ [m]))) = Some (case ro of None \<Rightarrow> new_reassembly m | Some r \<Rightarrow> r)"
  proof (cases ro)
    case None
    then show thesis using that [of "[]"] by simp
  next
    case (Some r)
    then obtain ms where "ms \<noteq> []" "\<forall>m \<in> set ms. chunk_sent q R m" "feed ms (new_reassembly (hd ms)) = Some r"
      using assms(1) by (auto simp: gathered_def)
    then show thesis using that [of ms] Some by simp
  qed
  have all: "\<forall>m' \<in> set (ms @ [m]). chunk_sent q R m'" using ms(1) assms(2) by simp
  show "gathered q R (Some r')"
    unfolding gathered_def using all feed_snoc [OF ms(2) assms(3)] by blast
  show "snapshot_sent q R cs" if "x = Some cs"
    unfolding snapshot_sent_def using all add_all_feed [OF ms(2) assms(3)] that
    by (intro exI [of _ "ms @ [m]"]) simp
qed

text \<open>The operations on the state that a session's messages \<open>R\<close> justify.\<close>

fun loop_op :: "string \<Rightarrow> string set \<Rightarrow> state_op \<Rightarrow> bool" where
  "loop_op q R (LifecycleEvent e t) = event_sent R e"
| "loop_op q R (Snapshot cs t) = snapshot_sent q R cs"
| "loop_op q R (SetLive h) = True"
| "loop_op q R (SetJobs j) = True"
| "loop_op q R _ = False"

definition loop_run :: "string \<Rightarrow> string set \<Rightarrow> session \<Rightarrow> session \<Rightarrow> bool" where
  "loop_run q R s s' \<longleftrightarrow> (\<exists>ops. state_run ops (snState s) = Inr (snState s') \<and> (\<forall>op \<in> set ops. loop_op q R op))
     \<and> queue_step\<^sup>*\<^sup>* (snClient s) (snClient s')"

lemma state_run_append:
  "state_run xs s = Inr s1 \<Longrightarrow> state_run (xs @ ys) s = state_run ys s1"
  by (induction xs arbitrary: s) (auto split: sum.splits)

lemma loop_run_refl [simp]: "loop_run q R s s"
  unfolding loop_run_def by (auto intro: exI [of _ "[]"])

lemma loop_run_trans:
  assumes "loop_run q R a b" and "loop_run q R b c"
  shows "loop_run q R a c"
proof -
  obtain xs ys where "state_run xs (snState a) = Inr (snState b)" "\<forall>op \<in> set xs. loop_op q R op"
      "state_run ys (snState b) = Inr (snState c)" "\<forall>op \<in> set ys. loop_op q R op"
    using assms unfolding loop_run_def by blast
  then have "state_run (xs @ ys) (snState a) = Inr (snState c)" "\<forall>op \<in> set (xs @ ys). loop_op q R op"
    by (auto simp: state_run_append)
  then show ?thesis using assms rtranclp_trans unfolding loop_run_def by fast
qed

lemma loop_run_client:
  "queue_step\<^sup>*\<^sup>* (snClient s) cl \<Longrightarrow> loop_run q R s (s\<lparr>snClient := cl\<rparr>)"
  unfolding loop_run_def by (auto intro: exI [of _ "[]"])

text \<open>What the other goroutines do: they leave the channels and the connection alone.\<close>

definition interferes :: "session \<Rightarrow> session \<Rightarrow> bool" where
  "interferes s s' \<longleftrightarrow> snSnapshot s' = snSnapshot s
     \<and> (\<exists>h j. snState s' = (snState s)\<lparr>stLiveEvents := h, stRecordingJobs := j\<rparr>)
     \<and> queue_step\<^sup>*\<^sup>* (snClient s) (snClient s')"

lemma interferes_refl [simp]: "interferes s s"
  unfolding interferes_def
  by (auto intro!: exI [of _ "stLiveEvents (snState s)"] exI [of _ "stRecordingJobs (snState s)"])

lemma interferes_ops:
  assumes "interferes s s'"
  obtains h j where "state_run [SetLive h, SetJobs j] (snState s) = Inr (snState s')"
  using assms that by (auto simp: interferes_def setLiveEvents_def setRecordingJobs_def)

lemma interferes_run:
  assumes "interferes s s'"
  shows "loop_run q R s s'"
proof -
  obtain h j where "state_run [SetLive h, SetJobs j] (snState s) = Inr (snState s')"
    using interferes_ops [OF assms] by blast
  then have "\<exists>ops. state_run ops (snState s) = Inr (snState s') \<and> (\<forall>op \<in> set ops. loop_op q R op)"
    by (intro exI [of _ "[SetLive h, SetJobs j]"]) simp
  then show ?thesis using assms by (simp add: loop_run_def interferes_def)
qed

definition others_ok :: "turn \<Rightarrow> bool" where
  "others_ok tu \<longleftrightarrow> (\<forall>s. interferes s (tuBefore tu s) \<and> interferes s (tuMeanwhile tu s))
     \<and> (\<forall>n cl. queue_step\<^sup>*\<^sup>* cl (tuBetween tu n cl))"

lemma message_run:
  assumes "handleSessionMessage env now raw q s = (e, s')" and "raw \<in> R" and "gathered q R (snSnapshot s)"
  shows "loop_run q R s s'" and "e = None \<Longrightarrow> gathered q R (snSnapshot s')"
proof -
  have "loop_run q R s s' \<and> (e = None \<longrightarrow> gathered q R (snSnapshot s'))"
    using assms(1)
  proof (cases rule: handle_message_cases)
    case event
    then show ?thesis
    proof (cases rule: handle_event_cases)
      case (recorded event st)
      then have "event_sent R event" using assms(2) by (auto simp: event_sent_def)
      then show ?thesis
        using recorded assms(3) by (auto simp: loop_run_def intro!: exI [of _ "[LifecycleEvent event now]"])
    qed auto
  next
    case snapshot
    then show ?thesis
    proof (cases rule: handle_snapshot_cases)
      case (refused r)
      then show ?thesis by (auto simp: loop_run_def intro: exI [of _ "[]"])
    next
      case (chunk response r0 res r)
      then have c: "chunk_sent q R response" using assms(2) by (auto simp: chunk_sent_def)
      note g = gathered_add [OF assms(3) c chunk(6) [unfolded chunk(5)]]
      show ?thesis
      proof (cases res)
        case None
        then show ?thesis using chunk g(1) by (auto simp: loop_run_def intro: exI [of _ "[]"])
      next
        case (Some cs)
        then show ?thesis
          using chunk g(1) g(2) [OF Some] by (auto simp: loop_run_def intro!: exI [of _ "[Snapshot cs now]"])
      qed
    qed
  next
    case ack
    then show ?thesis
    proof (cases rule: handle_ack_cases)
      case (completed response cl)
      then show ?thesis using assms(3) acknowledge loop_run_client [of s cl] by (simp add: r_into_rtranclp)
    qed (use loop_run_client in auto)
  next
    case relay_error
    then show ?thesis
    proof (cases rule: handle_error_cases)
      case (completed response cl)
      then show ?thesis using assms(3) complete loop_run_client [of s cl] by (simp add: r_into_rtranclp)
    qed (use loop_run_client in auto)
  qed auto
  then show "loop_run q R s s'" "e = None \<Longrightarrow> gathered q R (snSnapshot s')" by auto
qed

lemma send_session:
  "sendPendingCommands envs between now answers sent (snClient s) = (x, out, answers', sent', cl) \<Longrightarrow>
   \<forall>n c. queue_step\<^sup>*\<^sup>* c (between n c) \<Longrightarrow> loop_run q R s (s\<lparr>snClient := cl\<rparr>)"
  by (rule loop_run_client) (rule send_run)

lemma session_loop_cases:
  assumes "session_loop (tu # tus) q incoming answers sent s = (e, out, s')"
    and "tuBefore tu s = s0"
    and "sendPendingCommands (tuSendEnv tu) (tuBetween tu) (tuSendNow tu) answers sent (snClient s0) = (x, out1, answers1, sent1, cl)"
  obtains (send_failed) err where "x = Some err" "e = Some (SessSend err)" "s' = s0\<lparr>snClient := cl\<rparr>"
  | (ended) "x = None" "out = out1" "s' = tuMeanwhile tu (s0\<lparr>snClient := cl\<rparr>)"
  | (notified) s1 out2 where "x = None" "s1 = tuMeanwhile tu (s0\<lparr>snClient := cl\<rparr>)" "out = out1 @ out2"
      "session_loop tus q incoming answers1 sent1
         (s1\<lparr>snClient := (snClient s1)\<lparr>clNotify := snd (chan_recv (clNotify (snClient s1)))\<rparr>\<rparr>) = (e, out2, s')"
  | (message) s1 raw rest s2 err where "x = None" "s1 = tuMeanwhile tu (s0\<lparr>snClient := cl\<rparr>)"
      "readPrivateControlFrame incoming = Inr (raw, rest)"
      "handleSessionMessage (tuHandleEnv tu) (tuHandleNow tu) raw q s1 = (Some err, s2)" "out = out1" "s' = s2"
  | (handled) s1 raw rest s2 out2 where "x = None" "s1 = tuMeanwhile tu (s0\<lparr>snClient := cl\<rparr>)"
      "readPrivateControlFrame incoming = Inr (raw, rest)"
      "handleSessionMessage (tuHandleEnv tu) (tuHandleNow tu) raw q s1 = (None, s2)" "out = out1 @ out2"
      "session_loop tus q rest answers1 sent1 s2 = (e, out2, s')"
proof (cases x)
  case (Some err)
  then show thesis using assms send_failed by (simp add: Let_def)
next
  case None
  note none = this
  define s1 where "s1 = tuMeanwhile tu (s0\<lparr>snClient := cl\<rparr>)"
  show thesis
  proof (cases "tuSelected tu")
    case Cancelled
    then show thesis using assms None ended by (simp add: Let_def)
  next
    case Notified
    obtain a c where r: "chan_recv (clNotify (snClient s1)) = (a, c)" by fastforce
    obtain e2 out2 s2 where l: "session_loop tus q incoming answers1 sent1
        (s1\<lparr>snClient := (snClient s1)\<lparr>clNotify := c\<rparr>\<rparr>) = (e2, out2, s2)"
      by (metis prod_cases3)
    show thesis
      using assms None Notified r l ended notified [OF None s1_def, of out2]
      by (cases a) (simp_all add: Let_def s1_def [symmetric])
  next
    case Received_frame
    show thesis
    proof (cases "readPrivateControlFrame incoming")
      case (Inl err)
      then show thesis using assms None Received_frame ended by (simp add: Let_def)
    next
      case (Inr p)
      obtain raw rest where p: "p = (raw, rest)" by fastforce
      obtain err s2 where h: "handleSessionMessage (tuHandleEnv tu) (tuHandleNow tu) raw q s1 = (err, s2)" by fastforce
      obtain e2 out2 s3 where l: "session_loop tus q rest answers1 sent1 s2 = (e2, out2, s3)"
        by (metis prod_cases3)
      show thesis
        using assms None Received_frame Inr p h l message [OF None s1_def, of raw rest]
          handled [OF None s1_def, of raw rest s2 out2]
        by (cases err) (auto simp: Let_def s1_def [symmetric])
    qed
  qed
qed

lemma session_loop_run:
  assumes "session_loop tus q incoming answers sent s = (e, out, s')" and "set (frames incoming) \<subseteq> R"
    and "gathered q R (snSnapshot s)" and "\<forall>tu \<in> set tus. others_ok tu"
  shows "loop_run q R s s'"
  using assms
proof (induction tus arbitrary: incoming answers sent s e out s')
  case (Cons tu tus)
  define s0 where "s0 = tuBefore tu s"
  obtain x out1 answers1 sent1 cl where send: "sendPendingCommands (tuSendEnv tu) (tuBetween tu) (tuSendNow tu) answers sent
      (snClient s0) = (x, out1, answers1, sent1, cl)"
    by (metis prod_cases5)
  have i0: "interferes s s0" and between: "\<forall>n c. queue_step\<^sup>*\<^sup>* c (tuBetween tu n c)"
    using Cons.prems(4) by (simp_all add: others_ok_def s0_def)
  have sent_run: "loop_run q R s (s0\<lparr>snClient := cl\<rparr>)"
    using loop_run_trans [OF interferes_run [OF i0] send_session [OF send between]] .
  define s1 where "s1 = tuMeanwhile tu (s0\<lparr>snClient := cl\<rparr>)"
  have i1: "interferes (s0\<lparr>snClient := cl\<rparr>) s1" using Cons.prems(4) by (simp add: others_ok_def s1_def)
  have run1: "loop_run q R s s1" using loop_run_trans [OF sent_run interferes_run [OF i1]] .
  have g1: "gathered q R (snSnapshot s1)" using Cons.prems(3) i0 i1 by (simp add: interferes_def)
  from Cons.prems(1) s0_def [symmetric] send show ?case
  proof (cases rule: session_loop_cases)
    case send_failed
    then show ?thesis using sent_run by simp
  next
    case ended
    then show ?thesis using run1 by (simp add: s1_def)
  next
    case (notified s1' out2)
    let ?s = "s1\<lparr>snClient := (snClient s1)\<lparr>clNotify := snd (chan_recv (clNotify (snClient s1)))\<rparr>\<rparr>"
    have "loop_run q R s1 ?s" by (rule loop_run_client) (blast intro: queue_step.notified)
    moreover have "loop_run q R ?s s'"
      using Cons.IH [of incoming answers1 sent1 ?s e out2 s'] notified g1 Cons.prems(2,4) by (simp add: s1_def)
    ultimately show ?thesis using run1 loop_run_trans by blast
  next
    case (message s1' raw rest s2 err)
    then have "raw \<in> R" using Cons.prems(2) frames_read [of incoming raw rest] by simp
    then show ?thesis using message message_run(1) [of _ _ raw q s1 _ s2 R] g1 run1 loop_run_trans
      by (simp add: s1_def)
  next
    case (handled s1' raw rest s2 out2)
    then have R: "raw \<in> R" "set (frames rest) \<subseteq> R" using Cons.prems(2) frames_read [of incoming raw rest] by simp_all
    have h: "handleSessionMessage (tuHandleEnv tu) (tuHandleNow tu) raw q s1 = (None, s2)"
      using handled by (simp add: s1_def)
    have "loop_run q R s2 s'"
      using Cons.IH [OF handled(6) R(2)] message_run(2) [OF h R(1) g1] Cons.prems(4) by simp
    then show ?thesis using run1 message_run(1) [OF h R(1) g1] loop_run_trans by blast
  qed
qed simp

text \<open>The operations on the state that a link justifies.\<close>

fun link_op :: "link \<Rightarrow> state_op \<Rightarrow> bool" where
  "link_op lk (Connected r t) = (t = lkNow lk \<and> (\<exists>messageID ack. newPrivateControlID (lkHelloRaw lk) = Some messageID
     \<and> relay_accepts (lkIncoming lk) messageID ack \<and> r = haRelayID ack))"
| "link_op lk (LifecycleEvent e t) = event_sent (set (tl (frames (lkIncoming lk)))) e"
| "link_op lk (Snapshot cs t) = (\<exists>q. newPrivateControlID (lkSnapshotRaw lk) = Some q
     \<and> snapshot_sent q (set (tl (frames (lkIncoming lk)))) cs)"
| "link_op lk (SetLive h) = True"
| "link_op lk (SetJobs j) = True"
| "link_op lk Disconnected = True"

definition links_run :: "link set \<Rightarrow> session \<Rightarrow> session \<Rightarrow> bool" where
  "links_run L s s' \<longleftrightarrow>
     (\<exists>ops. state_run ops (snState s) = Inr (snState s')
        \<and> (\<forall>op \<in> set ops. op = Disconnected \<or> (\<exists>h. op = SetLive h) \<or> (\<exists>j. op = SetJobs j) \<or> (\<exists>lk \<in> L. link_op lk op)))
     \<and> queue_step\<^sup>*\<^sup>* (snClient s) (snClient s')"

lemma links_run_refl [simp]: "links_run L s s"
  unfolding links_run_def by (auto intro: exI [of _ "[]"])

lemma links_run_trans:
  assumes "links_run L a b" and "links_run L b c"
  shows "links_run L a c"
proof -
  let ?P = "\<lambda>op. op = Disconnected \<or> (\<exists>h. op = SetLive h) \<or> (\<exists>j. op = SetJobs j) \<or> (\<exists>lk \<in> L. link_op lk op)"
  obtain xs ys where "state_run xs (snState a) = Inr (snState b)" "\<forall>op \<in> set xs. ?P op"
      "state_run ys (snState b) = Inr (snState c)" "\<forall>op \<in> set ys. ?P op"
    using assms unfolding links_run_def by blast
  then have "state_run (xs @ ys) (snState a) = Inr (snState c)" "\<forall>op \<in> set (xs @ ys). ?P op"
    by (simp_all add: state_run_append ball_Un)
  moreover have "queue_step\<^sup>*\<^sup>* (snClient a) (snClient c)"
    using assms rtranclp_trans [of queue_step] unfolding links_run_def by blast
  ultimately show ?thesis unfolding links_run_def by blast
qed

lemma loop_links:
  assumes "loop_run q (set (tl (frames (lkIncoming lk)))) s s'" and "newPrivateControlID (lkSnapshotRaw lk) = Some q"
    and "lk \<in> L"
  shows "links_run L s s'"
proof -
  have "loop_op q (set (tl (frames (lkIncoming lk)))) op \<Longrightarrow> link_op lk op" for op
    using assms(2) by (cases op) auto
  then show ?thesis using assms(1,3) unfolding links_run_def loop_run_def by blast
qed

definition link_ok :: "link \<times> turn list \<Rightarrow> bool" where
  "link_ok x \<longleftrightarrow> (\<forall>s. interferes s (lkMeanwhile (fst x) s)) \<and> (\<forall>tu \<in> set (snd x). others_ok tu)"

lemma loop_run_links:
  assumes "loop_run q R s s'" and "\<And>op. loop_op q R op \<Longrightarrow> (\<exists>h. op = SetLive h) \<or> (\<exists>j. op = SetJobs j)"
  shows "links_run L s s'"
  using assms unfolding loop_run_def links_run_def by metis

lemma no_messages: "loop_op q {} op \<Longrightarrow> (\<exists>h. op = SetLive h) \<or> (\<exists>j. op = SetJobs j)"
  by (cases op) (auto simp: event_sent_def snapshot_sent_def chunk_sent_def dest: hd_in_set)

lemma interferes_links: "interferes s s' \<Longrightarrow> links_run L s s'"
  by (blast intro: loop_run_links [OF interferes_run no_messages])

lemma handshake_links:
  assumes "handshake lk s = (r, out, s')" and "lk \<in> L"
  shows "links_run L s s'"
  using assms(1)
proof (cases rule: handshake_cases)
  case (accepted messageID ack)
  have l: "link_op lk (Connected (haRelayID ack) (lkNow lk))" using accepted(1,2) by auto
  have "state_run [Connected (haRelayID ack) (lkNow lk)] (snState s) = Inr (snState s')"
    using accepted(3) by simp
  then show ?thesis
    unfolding links_run_def using l assms(2) accepted(3)
    by (intro conjI exI [of _ "[Connected (haRelayID ack) (lkNow lk)]"]) auto
qed simp

lemma session_links:
  assumes "runSession lk tus s = (e, out, s')" and "link_ok (lk, tus)" and "lk \<in> L"
  shows "links_run L s s'"
proof -
  obtain r hs s1 where h: "handshake lk (lkMeanwhile lk s) = (r, hs, s1)" by (metis prod_cases3)
  have run1: "links_run L s s1"
    using links_run_trans [OF interferes_links handshake_links [OF h assms(3)]] assms(2) by (simp add: link_ok_def)
  show ?thesis
  proof (cases r)
    case (Inl x)
    then show ?thesis using assms(1) h run1 by (simp add: runSession_def)
  next
    case (Inr x)
    obtain q incoming answers where x: "r = Inr (q, incoming, answers)" using Inr by (cases x) auto
    obtain e2 out2 s2 where l: "session_loop tus q incoming answers [] s1 = (e2, out2, s2)" by (metis prod_cases3)
    from h obtain raw where q: "newPrivateControlID (lkSnapshotRaw lk) = Some q"
        "readPrivateControlFrame (lkIncoming lk) = Inr (raw, incoming)" "snSnapshot s1 = None"
      by (cases rule: handshake_cases) (use x in auto)
    have "loop_run q (set (tl (frames (lkIncoming lk)))) s1 s2"
      using session_loop_run [OF l] q frames_read [OF q(2)] assms(2) by (simp add: gathered_def link_ok_def)
    then have run2: "links_run L s1 s2" using loop_links q(1) assms(3) by blast
    have "s' = s2" using assms(1) h l x by (auto simp: runSession_def)
    then show ?thesis using links_run_trans [OF run1 run2] by simp
  qed
qed

lemma disconnect_links: "links_run L s (s\<lparr>snState := markDisconnected (snState s)\<rparr>)"
  unfolding links_run_def by (auto intro!: exI [of _ "[Disconnected]"])

lemma run_sessions_links:
  assumes "run_sessions sessions retry s = (waits, s')" and "\<forall>x \<in> set sessions. link_ok x \<and> fst x \<in> L"
  shows "links_run L s s'"
  using assms
proof (induction sessions arbitrary: retry s waits s')
  case (Cons x sessions)
  obtain lk tus where x: "x = (lk, tus)" by fastforce
  obtain e out s1 where r: "runSession lk tus s = (e, out, s1)" by (metis prod_cases3)
  define s2 where "s2 = s1\<lparr>snState := markDisconnected (snState s1)\<rparr>"
  have run1: "links_run L s s1" using session_links [OF r] Cons.prems(2) x by simp
  then have run2: "links_run L s s2" unfolding s2_def by (rule links_run_trans [OF _ disconnect_links])
  obtain waits2 s3 where w: "run_sessions sessions (next_retry retry) s2 = (waits2, s3)" by fastforce
  have "links_run L s2 s3" using Cons.IH [OF w] Cons.prems(2) by simp
  then have run3: "links_run L s s3" by (rule links_run_trans [OF run2])
  have "s' = s1 \<or> s' = s2 \<or> s' = s3"
    using Cons.prems(1) r w unfolding x
    by (auto simp: Let_def s2_def [symmetric] split: option.splits if_splits)
  then show ?case using run1 run2 run3 by blast
qed simp

text \<open>
  C8. Whatever the Relay sends and whatever goes wrong, a run of the link is a run of the
  state machine and of the queue: the state it ends in comes about by connections to Relays
  that accepted the hello, by valid lifecycle events found in frames the Relay sent in an
  accepted session, by snapshots put together of valid chunks that answer the session's own
  request, and by disconnections, besides what the other goroutines do to the hub and the
  job table.
\<close>

theorem link_state_from_relay:
  assumes "run sessions s = (waits, s')"
    and "\<forall>(lk, tus) \<in> set sessions. (\<forall>s. interferes s (lkMeanwhile lk s)) \<and> (\<forall>tu \<in> set tus. others_ok tu)"
  shows "(\<exists>ops. state_run ops (snState s) = Inr (snState s')
        \<and> (\<forall>op \<in> set ops. op = Disconnected \<or> (\<exists>h. op = SetLive h) \<or> (\<exists>j. op = SetJobs j)
             \<or> (\<exists>(lk, tus) \<in> set sessions. link_op lk op)))
     \<and> queue_step\<^sup>*\<^sup>* (snClient s) (snClient s')"
proof -
  have "\<forall>x \<in> set sessions. link_ok x \<and> fst x \<in> fst ` set sessions"
    using assms(2) by (fastforce simp: link_ok_def)
  from run_sessions_links [OF assms(1) [unfolded run_def] this]
  show ?thesis unfolding links_run_def by (simp add: case_prod_beta)
qed

section \<open>Reconnection\<close>

lemma next_retry_power: "next_retry (min 30 (2 ^ n)) = min 30 (2 ^ Suc n)"
  by (auto simp: next_retry_def Let_def min_def)

lemma run_sessions_waits:
  "fst (run_sessions sessions (min 30 (2 ^ n)) s)
     = map (\<lambda>i. min 30 (2 ^ (n + i))) [0..<length (fst (run_sessions sessions (min 30 (2 ^ n)) s))]"
proof (induction sessions arbitrary: n s)
  case (Cons x sessions)
  obtain lk tus where x: "x = (lk, tus)" by fastforce
  obtain e out s1 where r: "runSession lk tus s = (e, out, s1)" by (metis prod_cases3)
  define s2 where "s2 = s1\<lparr>snState := markDisconnected (snState s1)\<rparr>"
  obtain waits s3 where w: "run_sessions sessions (min 30 (2 ^ Suc n)) s2 = (waits, s3)" by fastforce
  have "waits = map (\<lambda>i. min 30 (2 ^ (Suc n + i))) [0..<length waits]"
    using Cons.IH [of "Suc n" s2] unfolding w by simp
  then have "min 30 (2 ^ n) # waits = map (\<lambda>i. min 30 (2 ^ (n + i))) [0..<Suc (length waits)]"
    unfolding upt_conv_Cons [OF zero_less_Suc] map_Suc_upt [symmetric] by (simp add: comp_def)
  then show ?case
    using r w unfolding x
    by (auto simp: next_retry_power Let_def s2_def [symmetric] simp del: power_Suc upt_Suc split: option.splits)
qed simp

text \<open>
  C39. The delays before the reconnections are 1, 2, 4, 8 and 16 seconds and then 30 seconds
  each time, whatever ends the sessions; a session that lasted does not reset them.
\<close>

theorem reconnection_delays:
  "fst (run sessions s) = map (\<lambda>i. min 30 (2 ^ i)) [0..<length (fst (run sessions s))]"
  using run_sessions_waits [of sessions 0 s] by (simp add: run_def)

end
