(* ===== verification/Session_Runs.thy ===== *)
theory Session_Runs
  imports Session_Properties
begin

text \<open>
  What a session writes over all its turns, and sample runs of a session: a Relay that
  accepts the hello and sends a lifecycle event, and one that is refused.
\<close>

section \<open>Commands are written once in a session\<close>

lemma message_queue:
  assumes "handleSessionMessage env now raw q s = (e, s')"
  shows "queue_step\<^sup>*\<^sup>* (snClient s) (snClient s')"
  using assms
proof (cases rule: handle_message_cases)
  case event
  then show ?thesis by (cases rule: handle_event_cases) auto
next
  case snapshot
  then show ?thesis by (cases rule: handle_snapshot_cases) auto
next
  case ack
  then show ?thesis
  proof (cases rule: handle_ack_cases)
    case (completed response cl)
    then show ?thesis using acknowledge by (simp add: r_into_rtranclp)
  qed auto
next
  case relay_error
  then show ?thesis
  proof (cases rule: handle_error_cases)
    case (completed response cl)
    then show ?thesis using complete by (simp add: r_into_rtranclp)
  qed auto
qed auto

lemma interferes_queue: "interferes s s' \<Longrightarrow> queue_inv (snClient s) \<Longrightarrow> queue_inv (snClient s')"
  using queue_table.run_inv by (auto simp: interferes_def)

definition written :: "privateControlPendingCommand list \<Rightarrow> string" where
  "written cs = concat (map (frame_of \<circ> enc_revocation \<circ> pcMessage) cs)"

definition sendable :: "string set \<Rightarrow> privateControlPendingCommand list \<Rightarrow> bool" where
  "sendable sent cs \<longleftrightarrow> distinct (map command_id cs)
     \<and> (\<forall>c \<in> set cs. command_id c \<notin> sent \<and> validPrivateControlRevocation (pcMessage c))"

lemma sendable_append:
  assumes "sendable S cs" and "sendable (S \<union> command_id ` set cs) ds"
  shows "sendable S (cs @ ds)"
proof -
  have "set (map command_id cs) \<inter> set (map command_id ds) = {}"
    using assms(2) unfolding disjoint_iff sendable_def by (metis (no_types, lifting) UnCI imageE set_map)
  then show ?thesis using assms unfolding sendable_def by (simp add: ball_Un)
qed

lemma pending_sendable:
  assumes "queue_inv cl"
  shows "sendable (set sent) (unsent now sent (pendingCommands cl))"
proof -
  have "\<forall>c \<in> set (pendingCommands cl). validPrivateControlRevocation (pcMessage c)"
    using assms by (auto simp: pendingCommands_def queue_inv_def pending_ok_def command_ok_def)
  then show ?thesis
    using pending_distinct [OF assms] by (simp add: sendable_def unsent_def distinct_map_filter)
qed

lemma send_written:
  assumes "sendPendingCommands envs between now answers sent cl = (None, out, answers', sent', cl')" and "queue_inv cl"
    and "\<forall>n c. queue_step\<^sup>*\<^sup>* c (between n c)"
  shows "\<exists>cs. out = written cs \<and> sendable (set sent) cs \<and> set sent' = set sent \<union> command_id ` set cs \<and> queue_inv cl'"
  using send_commands_out [OF assms(1) [unfolded sendPendingCommands_def] pending_distinct [OF assms(2)]]
    pending_sendable [OF assms(2)] queue_table.run_inv [OF send_run [OF assms(1,3)] assms(2)]
  unfolding written_def by blast

lemma session_loop_writes:
  assumes "session_loop tus q incoming answers sent s = (e, out, s')" and "queue_inv (snClient s)"
    and "\<forall>tu \<in> set tus. others_ok tu" and "\<forall>x. e \<noteq> Some (SessSend x)"
  shows "\<exists>cs. out = written cs \<and> sendable (set sent) cs"
  using assms
proof (induction tus arbitrary: incoming answers sent s e out s')
  case Nil
  then show ?case by (auto simp: written_def sendable_def intro: exI [of _ "[]"])
next
  case (Cons tu tus)
  define s0 where "s0 = tuBefore tu s"
  obtain x out1 answers1 sent1 cl where snd: "sendPendingCommands (tuSendEnv tu) (tuBetween tu) (tuSendNow tu) answers sent
      (snClient s0) = (x, out1, answers1, sent1, cl)"
    by (metis prod_cases5)
  have inv0: "queue_inv (snClient s0)"
    using Cons.prems(2,3) interferes_queue [of s "tuBefore tu s"] by (simp add: others_ok_def s0_def)
  have between: "\<forall>n c. queue_step\<^sup>*\<^sup>* c (tuBetween tu n c)" using Cons.prems(3) by (simp add: others_ok_def)
  define s1 where "s1 = tuMeanwhile tu (s0\<lparr>snClient := cl\<rparr>)"
  have i1: "interferes (s0\<lparr>snClient := cl\<rparr>) s1" using Cons.prems(3) by (simp add: others_ok_def s1_def)
  have step: "\<exists>cs. out1 @ out2 = written cs \<and> sendable (set sent) cs"
    if x: "x = None" and run: "session_loop tus q inc answers1 sent1 t = (e, out2, s')"
      and t: "queue_step\<^sup>*\<^sup>* (snClient s1) (snClient t)" for out2 inc t
  proof -
    obtain cs where cs: "out1 = written cs" "sendable (set sent) cs" "set sent1 = set sent \<union> command_id ` set cs"
        "queue_inv cl"
      using send_written [OF snd [unfolded x] inv0 between] by blast
    then have "queue_inv (snClient s1)" using interferes_queue [OF i1] by simp
    then have "queue_inv (snClient t)" by (rule queue_table.run_inv [OF t])
    from Cons.IH [OF run this] Cons.prems(3,4) obtain ds where "out2 = written ds" "sendable (set sent1) ds" by auto
    with cs have "out1 @ out2 = written (cs @ ds)" "sendable (set sent) (cs @ ds)"
      by (simp_all add: written_def sendable_append)
    then show ?thesis by blast
  qed
  have alone: "\<exists>cs. out1 = written cs \<and> sendable (set sent) cs" if "x = None"
    using send_written [OF snd [unfolded that] inv0 between] by blast
  from Cons.prems(1) s0_def [symmetric] snd show ?case
  proof (cases rule: session_loop_cases)
    case (send_failed err)
    then show ?thesis using Cons.prems(4) by blast
  next
    case ended
    then show ?thesis using alone by simp
  next
    case (notified s1' out2)
    have "queue_step\<^sup>*\<^sup>* (snClient s1) ((snClient s1)\<lparr>clNotify := snd (chan_recv (clNotify (snClient s1)))\<rparr>)"
      by (blast intro: queue_step.notified)
    then show ?thesis using step notified by (simp add: s1_def)
  next
    case (message s1' raw rest s2 err)
    then show ?thesis using alone by simp
  next
    case (handled s1' raw rest s2 out2)
    then show ?thesis using step [OF handled(1) handled(6)] message_queue by (simp add: s1_def)
  qed
qed

text \<open>
  C14. In a session every revocation command is written at most once, however often the
  loop turns and whatever is queued meanwhile, between two commands too: unless a write fails, what the connection got
  after the handshake is a sequence of whole frames of valid revocation commands with
  different message identifiers.
\<close>

theorem session_sends_once:
  assumes "handshake lk (lkMeanwhile lk s) = (Inr (q, incoming, answers), hs, s1)"
    and "runSession lk tus s = (e, out, s')" and "queue_inv (snClient s1)"
    and "\<forall>tu \<in> set tus. others_ok tu" and "\<forall>x. e \<noteq> Some (SessSend x)"
  shows "\<exists>cs. out = hs @ concat (map (frame_of \<circ> enc_revocation \<circ> pcMessage) cs)
     \<and> distinct (map command_id cs) \<and> (\<forall>c \<in> set cs. validPrivateControlRevocation (pcMessage c))"
proof -
  obtain e2 out2 s2 where l: "session_loop tus q incoming answers [] s1 = (e2, out2, s2)" by (metis prod_cases3)
  then have eq: "e2 = e" "out = hs @ out2" using assms(1,2) by (simp_all add: runSession_def)
  from session_loop_writes [OF l assms(3,4)] assms(5) eq(1) obtain cs where
      "out2 = written cs" "sendable {} cs" by auto
  then show ?thesis using eq(2) by (auto simp: written_def sendable_def)
qed

section \<open>Samples\<close>

definition sample_id2 :: string where
  "sample_id2 = b64_encode (replicate 16 CHR ''b'')"

definition accept_json :: json where
  "accept_json = JObj
     [(''schema_version'', JStr privateControlSchemaVersion), (''type'', JStr ''hello_ack''),
      (''message_id'', JStr sample_id2), (''in_reply_to'', JStr sample_id), (''session_id'', JStr sample_id2),
      (''relay_id'', JStr ''r''), (''lifecycle_events_accepted'', JBool True),
      (''audit_inputs_accepted'', JBool False), (''diagnostics_accepted'', JBool False)]"

definition accept_ack :: privateControlHelloAck where
  "accept_ack = \<lparr>haSchemaVersion = privateControlSchemaVersion, haType = ''hello_ack'', haMessageID = sample_id2,
     haInReplyTo = sample_id, haSessionID = sample_id2, haRelayID = ''r'', haLifecycleEventsAccepted = Some True,
     haAuditInputsAccepted = Some False, haDiagnosticsAccepted = Some False\<rparr>"

definition joined_json :: json where
  "joined_json = JObj
     [(''schema_version'', JStr privateControlSchemaVersion), (''type'', JStr ''relay_lifecycle_event''),
      (''message_id'', JStr sample_id2), (''occurred_at'', JStr ''2024-01-02T03:04:05Z''),
      (''event_type'', JStr ''participant_joined''), (''channel_id'', enc_word (7 :: u32)),
      (''sender_id'', enc_word (9 :: u32))]"

definition joined_event :: privateControlLifecycleEvent where
  "joined_event = \<lparr>leSchemaVersion = privateControlSchemaVersion, leType = ''relay_lifecycle_event'',
     leMessageID = sample_id2, leOccurredAt = ''2024-01-02T03:04:05Z'', leEventType = ''participant_joined'',
     leChannelID = Some 7, leSenderID = Some 9, leServiceID = None, leRecordingJobID = None, leState = None,
     leReason = None\<rparr>"

lemma sample_id_utf8 [simp]: "utf8_valid sample_id" "utf8_valid sample_id2" "utf8_valid privateControlSchemaVersion"
  by (simp_all add: sample_id_def sample_id2_def plain_b64 plain_utf8)

lemma sample_id_valid [simp]: "validPrivateControlID sample_id" "validPrivateControlID sample_id2"
  by (auto simp: validPrivateControlID_iff sample_id_def sample_id2_def)

lemma length_escape: "length (escape s) \<le> 6 * length s"
proof (induction s rule: escape.induct)
  case (2 c s)
  obtain n ok where h: "rune_head (c # s) = (n, ok)" by fastforce
  have n: "1 \<le> n" "n \<le> Suc (length s)" using rune_head_size [of "c # s"] h by auto
  have a: "length (escape_ascii c) \<le> 6" by (simp add: escape_ascii_def)
  show ?case
  proof (cases "byte_of c < 128")
    case True
    then show ?thesis using 2 a by (simp add: escape.simps(2))
  next
    case False
    have "length (escape (drop (n - 1) s)) \<le> 6 * length (drop (n - 1) s)"
      using 2(2) [OF False h [symmetric]] by simp
    then have "length (escape (drop (n - 1) s)) + 6 * n \<le> 6 * Suc (length s)"
      using n by simp
    then show ?thesis
      using n False h by (auto simp: escape.simps(2) min_def)
  qed
qed simp

lemma length_member:
  "length (json_member (k, JStr v)) \<le> 6 * length k + 6 * length v + 5"
  "length (json_member (k, JBool b)) \<le> 6 * length k + 8"
  "length (json_member (k, enc_word (w :: u32))) \<le> 6 * length k + 13"
  using length_escape [of k] length_escape [of v] word32_dec_length [of w]
  by (simp_all add: json_member_def quote_string_def enc_word_def)

lemma members_sum:
  "\<forall>m \<in> set ms. length (json_member m) \<le> 600 \<Longrightarrow> sum_list (map (Suc \<circ> length \<circ> json_member) ms) \<le> 601 * length ms"
  by (induction ms) (simp_all del: json_print.simps)

lemma short_obj:
  assumes "ms \<noteq> []" and "length ms \<le> 50" and "\<forall>m \<in> set ms. length (json_member m) \<le> 600"
  shows "2 \<le> length (json_print (JObj ms))" "length (json_print (JObj ms)) \<le> privateControlMaxFrameBytes"
proof -
  show "2 \<le> length (json_print (JObj ms))" unfolding json_print_obj by simp
  have "length (json_print (JObj ms)) \<le> 2 + 601 * length ms"
    using length_json_obj [of ms] members_sum [OF assms(3)] by linarith
  also have "\<dots> \<le> privateControlMaxFrameBytes" using assms(2) by (simp add: privateControlMaxFrameBytes_def)
  finally show "length (json_print (JObj ms)) \<le> privateControlMaxFrameBytes" .
qed

lemma small_members:
  "length k \<le> 40 \<Longrightarrow> length v \<le> 40 \<Longrightarrow> length (json_member (k, JStr v)) \<le> 600"
  "length k \<le> 40 \<Longrightarrow> length (json_member (k, JBool b)) \<le> 600"
  "length k \<le> 40 \<Longrightarrow> length (json_member (k, enc_word (w :: u32))) \<le> 600"
  using length_member(1) [of k v] length_member(2) [of k b] length_member(3) [of k w] by linarith+

lemma scan_ok_word [simp]: "scan_ok (enc_word (w :: u32))"
proof -
  have "\<bar>uint w\<bar> < 2 ^ 64" using unsigned_less [of w, where 'a = int] by simp
  then show ?thesis by (simp add: enc_word_def word_to_dec_int float_ok_int)
qed

lemma accept_ok: "json_ok 1 accept_json" "scan_ok accept_json"
  by (simp_all add: accept_json_def)

lemma joined_ok: "json_ok 1 joined_json" "scan_ok joined_json"
  by (simp_all add: joined_json_def)

lemma sample_id_length [simp]: "length sample_id = 22" "length sample_id2 = 22"
  by (simp_all add: sample_id_def sample_id2_def length_b64_encode del: b64_encode.simps replicate.simps)

lemma schema_length [simp]: "length privateControlSchemaVersion = 23"
  by (simp add: privateControlSchemaVersion_def)

lemma read_frame_obj:
  assumes "v = JObj ms" and "json_ok 1 v" and "scan_ok v" and "ms \<noteq> []" and "length ms \<le> 50"
    and "\<forall>m \<in> set ms. length (json_member m) \<le> 600"
  shows "readPrivateControlFrame (frame_of v @ rest) = Inr (json_print v, rest)"
proof -
  have "json_ok 2 v" using assms(2) by (rule json_ok_mono) simp
  then show ?thesis
    unfolding frame_of_def append_assoc
    using read_frame_print [OF _ assms(3)] short_obj [OF assms(4-6)] assms(1) by blast
qed

lemma accept_frame: "readPrivateControlFrame (frame_of accept_json @ rest) = Inr (json_print accept_json, rest)"
  by (rule read_frame_obj [OF accept_json_def accept_ok]) (simp_all add: small_members del: json_print.simps)

lemma joined_frame: "readPrivateControlFrame (frame_of joined_json @ rest) = Inr (json_print joined_json, rest)"
  by (rule read_frame_obj [OF joined_json_def joined_ok]) (simp_all add: small_members del: json_print.simps)

lemma decode_obj:
  assumes "v = JObj ms" and "json_ok 1 v" and "scan_ok v"
  shows "decodePrivateControlJSON fs zero (json_print v) = dec_struct fs True v zero"
proof -
  have "1 \<le> length (json_print v)" unfolding assms(1) json_print_obj by simp
  then show ?thesis using decode_print [OF assms(2) _ _ assms(3)] by (simp add: json_depth_def)
qed

lemma accept_decoded: "decodePrivateControlJSON fields_hello_ack zero_hello_ack (json_print accept_json) = Some accept_ack"
  unfolding decode_obj [OF accept_json_def accept_ok]
  by (simp add: dec_struct_def accept_json_def accept_ack_def fields_hello_ack_def zero_hello_ack_def
      find_field_def field_def dec_ptr_def dec_bool_def)

lemma enc_word_not_null [simp]: "enc_word w \<noteq> JNull"
  by (simp add: enc_word_def)

lemma joined_decoded: "decodePrivateControlJSON fields_event zero_event (json_print joined_json) = Some joined_event"
  unfolding decode_obj [OF joined_json_def joined_ok]
  by (simp add: dec_struct_def joined_json_def joined_event_def fields_event_def zero_event_def
      find_field_def field_def dec_ptr_def)

lemma joined_document: "json_document (json_print joined_json) = Some joined_json"
  using json_document_print(1) [OF json_ok_mono [OF joined_ok(1)]] by (simp add: json_depth_def)

lemma folded_names:
  "fold_name ''schema_version'' = ''SCHEMA_VERSION''" "fold_name ''type'' = ''TYPE''"
  "fold_name ''message_id'' = ''MESSAGE_ID''" "fold_name ''occurred_at'' = ''OCCURRED_AT''"
  "fold_name ''event_type'' = ''EVENT_TYPE''" "fold_name ''channel_id'' = ''CHANNEL_ID''"
  "fold_name ''sender_id'' = ''SENDER_ID''"
  by code_simp+

lemma joined_envelope: "decodePrivateControlEnvelope (json_print joined_json)
    = Some \<lparr>envSchemaVersion = privateControlSchemaVersion, envType = ''relay_lifecycle_event'', envMessageID = sample_id2\<rparr>"
  by (simp add: decodePrivateControlEnvelope_def joined_document del: json_print.simps)
    (simp add: joined_json_def dec_struct_def fields_envelope_def zero_envelope_def find_field_def field_def
      folded_names del: fold_name.simps)

lemma joined_valid: "validPrivateControlLifecycleEvent (raw_members (json_print joined_json)) joined_event"
proof -
  have "validPrivateControlUTCTimestamp ''2024-01-02T03:04:05Z''"
    unfolding validPrivateControlUTCTimestamp_def by code_simp
  then show ?thesis
    by (simp add: validPrivateControlLifecycleEvent_def raw_members_def joined_document joined_event_def
        privateControlLifecycleEventTypes_def del: json_print.simps) (simp add: joined_json_def)
qed

section \<open>A sample session\<close>

definition sample_link :: link where
  "sample_link = \<lparr>lkMeanwhile = id, lkDialed = True, lkHelloRaw = Some sample_raw,
     lkSnapshotRaw = Some (replicate 16 CHR ''b''), lkNow = 5,
     lkIncoming = frame_of accept_json @ frame_of joined_json, lkAnswers = replicate 6 (70000, False)\<rparr>"

definition sample_turn :: turn where
  "sample_turn = \<lparr>tuBefore = id, tuMeanwhile = id, tuBetween = \<lambda>_. id, tuSendEnv = \<lambda>_. good_env, tuSendNow = 100,
     tuSelected = Received_frame, tuHandleEnv = good_env, tuHandleNow = 6\<rparr>"

abbreviation session_of :: "privateControlClient \<Rightarrow> session" where
  "session_of cl \<equiv> \<lparr>snState = newManagementState, snClient = cl, snSnapshot = None\<rparr>"

abbreviation connected_state :: managementState where
  "connected_state \<equiv> markConnected ''r'' 5 newManagementState"

lemma write_bytes_whole:
  "p \<noteq> [] \<Longrightarrow> length p \<le> 70000 \<Longrightarrow> writePrivateControlBytes ((70000, False) # as) p = (p, None, as)"
  by (cases p) simp_all

lemma write_frame_obj:
  assumes "ms \<noteq> []" and "length ms \<le> 50" and "\<forall>m \<in> set ms. length (json_member m) \<le> 600"
  shows "writePrivateControlFrame ((70000, False) # (70000, False) # as) (JObj ms) = (frame_of (JObj ms), None, as)"
proof -
  let ?p = "json_print (JObj ms)"
  have l: "2 \<le> length ?p" "length ?p \<le> privateControlMaxFrameBytes" using short_obj [OF assms] by blast+
  then have "writePrivateControlBytes ((70000, False) # as) ?p = (?p, None, as)"
    by (intro write_bytes_whole) (auto simp: privateControlMaxFrameBytes_def simp del: json_print.simps)
  moreover have "put_be32 n \<noteq> []" for n by (simp add: put_be32_def)
  then have "writePrivateControlBytes ((70000, False) # (70000, False) # as) (put_be32 (length ?p))
      = (put_be32 (length ?p), None, (70000, False) # as)"
    by (intro write_bytes_whole) simp_all
  ultimately show ?thesis
    using l by (simp add: writePrivateControlFrame_def frame_of_def Let_def del: json_print.simps writePrivateControlBytes.simps)
qed

lemma hello_written: "writePrivateControlFrame ((70000, False) # (70000, False) # as)
    (enc_hello (hello_message sample_config sample_id))
    = (frame_of (enc_hello (hello_message sample_config sample_id)), None, as)"
  unfolding enc_hello_def
  by (rule write_frame_obj)
    (simp_all add: small_members hello_message_def enc_ptr_def sample_config_def del: json_print.simps)

lemma request_written: "writePrivateControlFrame ((70000, False) # (70000, False) # as)
    (enc_get_snapshot (snapshot_request sample_id2))
    = (frame_of (enc_get_snapshot (snapshot_request sample_id2)), None, as)"
  unfolding enc_get_snapshot_def
  by (rule write_frame_obj) (simp_all add: small_members snapshot_request_def del: json_print.simps)

lemma accept_valid: "validPrivateControlHelloAck accept_ack sample_id"
proof -
  have "trim_space ''r'' = ''r''" by (rule trim_space_visible) (simp_all add: visible_def)
  then show ?thesis by (simp add: validPrivateControlHelloAck_def accept_ack_def)
qed

lemma sample_handshake:
  assumes "clConfig cl = sample_config"
  shows "handshake sample_link (session_of cl) = (Inr (sample_id2, frame_of joined_json, [(70000, False), (70000, False)]),
     frame_of (enc_hello (hello_message sample_config sample_id)) @ frame_of (enc_get_snapshot (snapshot_request sample_id2)),
     \<lparr>snState = connected_state, snClient = cl, snSnapshot = None\<rparr>)"
proof -
  have "newPrivateControlID (Some sample_raw) = Some sample_id"
      "newPrivateControlID (Some (replicate 16 CHR ''b'')) = Some sample_id2"
    by (simp_all add: newPrivateControlID_def sample_id_def sample_id2_def del: b64_encode.simps replicate.simps)
  moreover have "cfTransport sample_config = privateControlTransportUDS" by (simp add: sample_config_def privateControlTransportUDS_def)
  moreover have "replicate 6 (70000 :: int, False) = (70000, False) # (70000, False) # (70000, False) # (70000, False)
      # [(70000, False), (70000, False)]" by (simp add: numeral_eq_Suc)
  moreover have "haLifecycleEventsAccepted accept_ack = Some True" "haAuditInputsAccepted accept_ack = Some False"
      "haDiagnosticsAccepted accept_ack = Some False" "haRelayID accept_ack = ''r''"
    by (simp_all add: accept_ack_def)
  ultimately show ?thesis
    using assms by (simp add: handshake_def sample_link_def hello_written request_written accept_frame
        accept_decoded accept_valid Let_def del: b64_encode.simps replicate.simps)
qed

text \<open>The first turn handles the event, the second meets the end of the stream.\<close>

abbreviation joined_state :: managementState where
  "joined_state \<equiv> connected_state\<lparr>stLastEventAt := Some 6, stLastEventType := ''participant_joined'',
     stChannels := [(7, [(9, ''idle'')])]\<rparr>"

lemma joined_recorded: "recordLifecycleEvent joined_event 6 connected_state = Inr joined_state"
  by (simp add: recordLifecycleEvent_def joined_event_def update_participants_def markConnected_def
      newManagementState_def applyLifecycleEvent_def Let_def)

lemma joined_handled:
  "handleSessionMessage good_env 6 (json_print joined_json) q
     \<lparr>snState = connected_state, snClient = cl, snSnapshot = None\<rparr>
   = (None, \<lparr>snState = joined_state, snClient = cl, snSnapshot = None\<rparr>)"
  by (simp add: handleSessionMessage_def joined_envelope handle_event_def joined_decoded joined_valid
      joined_recorded del: json_print.simps)

lemma empty_frame: "readPrivateControlFrame [] = Inl FrameEOF"
  by (simp add: readPrivateControlFrame_def)

lemma sample_loop:
  assumes "clPending cl = []"
  shows "session_loop [sample_turn, sample_turn] q (frame_of joined_json) answers []
      \<lparr>snState = connected_state, snClient = cl, snSnapshot = None\<rparr>
    = (Some (SessFrame FrameEOF), [], \<lparr>snState = joined_state, snClient = cl, snSnapshot = None\<rparr>)"
  using assms joined_frame [of "[]"] joined_handled [of q cl]
  by (simp add: sample_turn_def sendPendingCommands_def pendingCommands_def empty_frame del: json_print.simps)

lemma new_client_fields: "clConfig new_client = sample_config" "clPending new_client = []"
  by (simp_all add: new_client_def)

lemma sample_session:
  "runSession sample_link [sample_turn, sample_turn] (session_of new_client)
   = (Some (SessFrame FrameEOF),
      frame_of (enc_hello (hello_message sample_config sample_id)) @ frame_of (enc_get_snapshot (snapshot_request sample_id2)),
      \<lparr>snState = joined_state, snClient = new_client, snSnapshot = None\<rparr>)"
proof -
  have "lkMeanwhile sample_link (session_of new_client) = session_of new_client" by (simp add: sample_link_def)
  then show ?thesis
    unfolding runSession_def
    using sample_handshake [OF new_client_fields(1)] sample_loop [OF new_client_fields(2)] by simp
qed

lemma sample_run:
  "run [(sample_link, [sample_turn, sample_turn])] (session_of new_client)
   = ([1], \<lparr>snState = markDisconnected joined_state, snClient = new_client, snSnapshot = None\<rparr>)"
  unfolding run_def by (simp add: sample_session)

lemma sample_others: "others_ok sample_turn" "interferes s (lkMeanwhile sample_link s)"
  by (simp_all add: others_ok_def sample_turn_def sample_link_def)

lemma enc_int_small: "length k \<le> 40 \<Longrightarrow> length (json_member (k, enc_int 5000)) \<le> 600"
proof -
  assume k: "length k \<le> 40"
  have "length (int_to_dec 5000) \<le> 19" by (rule int63_dec_length) simp_all
  then show ?thesis using k length_escape [of k] by (simp add: json_member_def quote_string_def enc_int_def)
qed

section \<open>A session ends\<close>

text \<open>
  C38. A session does not outlive what the Relay sent: once the Relay has closed the connection,
  a session that goes on reading ends with an error after at most one turn for each frame of
  the stream and one more, whatever else happens in the turns.
\<close>

theorem session_ends:
  assumes "session_loop tus snapshotRequestID incoming answers sent s = (e, out, s')"
    and "\<forall>tu \<in> set tus. tuSelected tu = Received_frame" and "length (frames incoming) < length tus"
  shows "e \<noteq> None"
  using assms
proof (induction tus arbitrary: incoming answers sent s e out s')
  case (Cons tu tus)
  let ?s0 = "tuBefore tu s"
  obtain x out1 answers1 sent1 cl where w: "sendPendingCommands (tuSendEnv tu) (tuBetween tu) (tuSendNow tu) answers sent
      (snClient ?s0) = (x, out1, answers1, sent1, cl)"
    by (metis prod_cases5)
  let ?s1 = "tuMeanwhile tu (?s0\<lparr>snClient := cl\<rparr>)"
  show ?case
  proof (cases "x = None \<and> (\<exists>p. readPrivateControlFrame incoming = Inr p)")
    case False
    then show ?thesis
      using Cons.prems(1,2) w
      by (cases x; cases "readPrivateControlFrame incoming") (auto simp: Let_def)
  next
    case True
    then obtain raw rest where r: "x = None" "readPrivateControlFrame incoming = Inr (raw, rest)" by auto
    obtain err s2 where h: "handleSessionMessage (tuHandleEnv tu) (tuHandleNow tu) raw snapshotRequestID ?s1 = (err, s2)"
      by fastforce
    obtain e2 out2 s3 where l: "session_loop tus snapshotRequestID rest answers1 sent1 s2 = (e2, out2, s3)"
      by (metis prod_cases3)
    have "length (frames rest) < length tus" using Cons.prems(3) frames_read [OF r(2)] by simp
    then have "e2 \<noteq> None" using Cons.IH [OF l] Cons.prems(2) by simp
    then show ?thesis
      using Cons.prems(1,2) w r h l by (cases err) (auto simp: Let_def)
  qed
qed simp

section \<open>Witnesses\<close>

lemma session_ends_witness:
  "\<exists>e s. session_loop [sample_turn, sample_turn] sample_id2 (frame_of joined_json) [] []
      \<lparr>snState = connected_state, snClient = new_client, snSnapshot = None\<rparr> = (Some e, [], s)"
proof -
  have "readPrivateControlFrame [] = Inl FrameEOF" by (simp add: readPrivateControlFrame_def)
  then have "frames [] = []" by (simp add: frames.simps)
  then have "length (frames (frame_of joined_json)) < length [sample_turn, sample_turn]"
    using frames_read [of "frame_of joined_json" "json_print joined_json" "[]"] joined_frame [of "[]"] by simp
  moreover have "tuSelected sample_turn = Received_frame" by (simp add: sample_turn_def)
  ultimately show ?thesis
    using session_ends [OF sample_loop [OF new_client_fields(2)]] sample_loop [OF new_client_fields(2)]
    by auto
qed

lemma refused_message_changes_nothing_witness:
  "\<exists>cl. handleSessionMessage good_env 6 [] sample_id2 (session_of cl) = (Some SessEnvelope, session_of cl)
     \<and> clPending cl = sample_pending"
proof -
  let ?s = "session_of sample_client"
  have h: "handleSessionMessage good_env 6 [] sample_id2 ?s = (Some SessEnvelope, ?s)"
    by (simp add: handleSessionMessage_def decodePrivateControlEnvelope_def json_document_def
        json_value.simps skip_ws_def)
  from refused_message_changes_nothing [OF h] h show ?thesis
    by (intro exI [of _ sample_client]) (simp add: sample_client_def)
qed

lemma connected_only_if_accepted_witness:
  "\<exists>r out s'. handshake sample_link (session_of new_client) = (Inr r, out, s')
     \<and> s' = \<lparr>snState = connected_state, snClient = new_client, snSnapshot = None\<rparr>
     \<and> (\<exists>ack. relay_accepts (lkIncoming sample_link) sample_id ack)"
proof -
  note h = sample_handshake [OF new_client_fields(1)]
  have "newPrivateControlID (lkHelloRaw sample_link) = Some sample_id"
    by (simp add: sample_link_def newPrivateControlID_def sample_id_def del: b64_encode.simps replicate.simps)
  with connected_only_if_accepted [OF h] h show ?thesis by fastforce
qed

lemma link_state_from_relay_witness:
  "\<exists>s' ops. run [(sample_link, [sample_turn, sample_turn])] (session_of new_client) = ([1], s')
     \<and> state_run ops newManagementState = Inr (snState s') \<and> stChannels (snState s') = [(7, [(9, ''idle'')])]"
proof -
  have "\<forall>(lk, tus) \<in> set [(sample_link, [sample_turn, sample_turn])].
      (\<forall>s. interferes s (lkMeanwhile lk s)) \<and> (\<forall>tu \<in> set tus. others_ok tu)"
    using sample_others by simp
  from link_state_from_relay [OF sample_run this] obtain ops where
      "state_run ops newManagementState = Inr (markDisconnected joined_state)" by auto
  moreover have "stChannels (markDisconnected joined_state) = [(7, [(9, ''idle'')])]"
    by (simp add: markDisconnected_def)
  ultimately show ?thesis
    using sample_run by (intro exI [of _ "\<lparr>snState = markDisconnected joined_state, snClient = new_client, snSnapshot = None\<rparr>"]
        exI [of _ ops]) simp
qed

lemma session_sends_once_witness:
  "\<exists>cs. frame_of (enc_revocation sample_command) = concat (map (frame_of \<circ> enc_revocation \<circ> pcMessage) cs)
     \<and> distinct (map command_id cs)"
proof -
  let ?tu = "sample_turn\<lparr>tuSelected := Cancelled\<rparr>"
  let ?hs = "frame_of (enc_hello (hello_message sample_config sample_id))
      @ frame_of (enc_get_snapshot (snapshot_request sample_id2))"
  let ?s1 = "\<lparr>snState = connected_state, snClient = sample_client, snSnapshot = None\<rparr>"
  have h: "handshake sample_link (lkMeanwhile sample_link (session_of sample_client))
      = (Inr (sample_id2, frame_of joined_json, [(70000, False), (70000, False)]), ?hs, ?s1)"
    using sample_handshake [of sample_client]
    by (simp add: sample_link_def sample_client_def new_client_def)
  have p: "pendingCommands sample_client = [sample_pending_command]"
    by (simp add: pendingCommands_def sample_client_def sample_pending_def)
  have len: "length (json_print (enc_revocation sample_command)) \<le> 600"
    by (rule length_print_revocation [OF sample_command_ok])
  have d: "rvDenyUntil sample_command = 5000" by (simp add: sample_command_def)
  have w: "writePrivateControlFrame [(70000, False), (70000, False)] (enc_revocation sample_command)
      = (frame_of (enc_revocation sample_command), None, [])"
    unfolding enc_revocation_def
    by (rule write_frame_obj)
      (simp_all add: small_members sample_command_def omit_empty_def enc_int_small del: json_print.simps)
  have "sendPendingCommands (\<lambda>_. good_env) (\<lambda>_. id) 100 [(70000, False), (70000, False)] [] sample_client
       = (None, frame_of (enc_revocation sample_command), [], [sample_id], sample_client)"
    unfolding sendPendingCommands_def p by (simp add: send_command_def w d sample_message_id)
  then have "runSession sample_link [?tu] (session_of sample_client)
      = (Some SessCancelled, ?hs @ frame_of (enc_revocation sample_command), ?s1)"
    unfolding runSession_def h by (simp add: sample_turn_def)
  from session_sends_once [OF h this] sample_client_inv sample_others(1) show ?thesis
    by (auto simp: others_ok_def)
qed

end
