(* ===== verification/Management_Api.thy ===== *)
theory Management_Api
  imports Http_Api Session_Runs
begin

text \<open>
  The Management API (\<open>management_api.go\<close>, \<open>management_events.go\<close>, \<open>recording_jobs.go\<close>,
  \<open>service_admission_api.go\<close>): its construction, the routing and the handlers.  The hub and
  the job table the API points to are those of the Relay state and are kept there once; the
  revoker is the Private Control Link client.  A handler runs as one step, except where it
  waits: for the result of a revocation and for events.  What the other goroutines do while
  it waits is an argument.
\<close>

section \<open>State\<close>

record managementAPI =
  apAuthorizer :: managementAPIAuthorizer
  apServicesFile :: string
  apChannelACLFile :: string
  apGlobalPermissionsFile :: string
  apAclReloadInterval :: int
  apIssuer :: "serviceAdmissionGrantIssuer option"
  apEventDelivery :: string
  apTLSMinVersion :: nat
  apRequireClientCert :: bool
  apListen :: string

record server =
  svState :: managementState
  svApi :: managementAPI
  svRevoker :: "privateControlClient option"

definition managementAPIEventDeliveryDisabled :: string where
  "managementAPIEventDeliveryDisabled = ''disabled''"

definition managementAPIEventDeliveryLive :: string where
  "managementAPIEventDeliveryLive = ''live''"

definition managementAPIAuditRetrieval :: bool where
  "managementAPIAuditRetrieval = False"

text \<open>\<open>tls.VersionTLS13\<close>.\<close>

definition managementAPIMinimumTLSVersion :: nat where
  "managementAPIMinimumTLSVersion = 772"

section \<open>Construction\<close>

definition api_enabled :: "managementAPIConfig \<Rightarrow> bool" where
  "api_enabled config = (trim_space (acListen config) \<noteq> [])"

datatype api_error =
    ApiState | ApiRequired | ApiKeyPair | ApiReadCA | ApiNoCert | ApiAuthorizer load_error
  | ApiIssuer issuer_error | ApiEventDelivery | ApiReloadInterval

text \<open>
  No API is \<open>Inr None\<close>.  Which of several missing values the error names depends on the order
  of a map and is left out.  With the result there is the state, to which the constructor
  attaches the hub and the job table.
\<close>

definition newManagementAPI ::
  "tls_files \<Rightarrow> key_files \<Rightarrow> (nat \<Rightarrow> nat \<Rightarrow> nat \<Rightarrow> nat) \<Rightarrow> managementAPIConfig \<Rightarrow> managementState option
   \<Rightarrow> (api_error + managementAPI option) \<times> managementState option" where
  "newManagementAPI files kf frac config state =
     (if \<not> api_enabled config then (Inr None, state)
      else case state of
        None \<Rightarrow> (Inl ApiState, state)
      | Some st \<Rightarrow>
      if list_ex (\<lambda>value. trim_space value = [])
           [acCertificateFile config, acPrivateKeyFile config, acClientCAFile config, acServicesFile config,
            acChannelACLFile config, acGlobalPermissionsFile config] then (Inl ApiRequired, state)
      else if \<not> tfKeyPair files (acCertificateFile config) (acPrivateKeyFile config) then (Inl ApiKeyPair, state)
      else case tfRead files (acClientCAFile config) of
        None \<Rightarrow> (Inl ApiReadCA, state)
      | Some caData \<Rightarrow>
      if \<not> tfHasCert files caData then (Inl ApiNoCert, state)
      else case loadManagementAPIAuthorizer (tfRead files (acServicesFile config))
                  (tfRead files (acChannelACLFile config)) (tfRead files (acGlobalPermissionsFile config)) of
        Inl e \<Rightarrow> (Inl (ApiAuthorizer e), state)
      | Inr authorizer \<Rightarrow>
      (case loadServiceAdmissionGrantIssuer kf config of
        Inl e \<Rightarrow> (Inl (ApiIssuer e), state)
      | Inr issuer \<Rightarrow>
          let eventDelivery = trim_space (acEventDelivery config);
              eventDelivery = (if eventDelivery = [] then managementAPIEventDeliveryDisabled else eventDelivery)
          in if eventDelivery \<noteq> managementAPIEventDeliveryDisabled
                \<and> eventDelivery \<noteq> managementAPIEventDeliveryLive then (Inl ApiEventDelivery, state)
             else (case parseManagementACLReloadInterval frac (acAclReloadInterval config) of
               None \<Rightarrow> (Inl ApiReloadInterval, state)
             | Some aclReloadInterval \<Rightarrow>
                 let liveEvents = (if eventDelivery = managementAPIEventDeliveryLive
                                   then Some newManagementLiveEventHub else None);
                     st = setRecordingJobs (Some newManagementRecordingJobs) (setLiveEvents liveEvents st)
                 in (Inr (Some
                      \<lparr>apAuthorizer = authorizer, apServicesFile = acServicesFile config,
                       apChannelACLFile = acChannelACLFile config,
                       apGlobalPermissionsFile = acGlobalPermissionsFile config,
                       apAclReloadInterval = aclReloadInterval, apIssuer = issuer, apEventDelivery = eventDelivery,
                       apTLSMinVersion = managementAPIMinimumTLSVersion, apRequireClientCert = True,
                       apListen = acListen config\<rparr>), Some st))))"

section \<open>What a request meets\<close>

text \<open>
  The readings of the clock, the random bytes for a length, the system calls of the store; for a
  revocation what happens to the queue while it waits, how the wait ends and which case the
  \<open>select\<close> prefers; for an event stream its turns.
\<close>

datatype wait_end = DeadlineExceeded | Canceled

record event_turn =
  etMeanwhile :: "server \<Rightarrow> server"
  etDone :: bool
  etWriteFails :: bool

record api_env =
  aeNow :: int
  aeNow' :: int
  aeRaw :: "nat \<Rightarrow> string option"
  aeStore :: environment
  aeMeanwhile :: "privateControlClient \<Rightarrow> privateControlClient"
  aeEnd :: "wait_end option"
  aePrefer :: bool
  aeTurns :: "event_turn list"

text \<open>
  What the client gets: an answer, the beginning of a stream that is still open, nothing
  while a revocation waits, or nothing because the handler panicked.
\<close>

datatype http_answer = Answer http_response | Streaming http_response | Waiting | Panicked go_panic

abbreviation refuse :: "nat \<Rightarrow> http_answer" where
  "refuse status \<equiv> Answer (writeManagementAPIError [] status)"

abbreviation method_not_allowed :: "string \<Rightarrow> http_answer" where
  "method_not_allowed allowed \<equiv> Answer (writeManagementAPIMethodNotAllowed allowed)"

section \<open>Reading the state\<close>

definition eventDeliveryMode :: "managementAPI option \<Rightarrow> string" where
  "eventDeliveryMode a =
     (case a of None \<Rightarrow> managementAPIEventDeliveryDisabled
      | Some a \<Rightarrow> if apEventDelivery a = [] then managementAPIEventDeliveryDisabled else apEventDelivery a)"

definition handleHealth :: "managementAPIService \<Rightarrow> server \<Rightarrow> http_answer" where
  "handleHealth service sv =
     (if \<not> hasGlobalPermission service managementAPIHealthPermission then refuse 403
      else Answer (writeJSON [] 200 (enc_health
        \<lparr>hrStatus = managementAPIHealthStatus (svState sv),
         hrCapabilities = \<lparr>cpEventDelivery = eventDeliveryMode (Some (svApi sv)),
                           cpAuditRetrieval = managementAPIAuditRetrieval\<rparr>\<rparr>)))"

text \<open>The summaries in the order of the map; their identifiers differ, so any sort gives one result.\<close>

definition channel_summaries :: "managementAPIService \<Rightarrow> channels \<Rightarrow> managementChannelSummary list" where
  "channel_summaries service chs =
     map (\<lambda>(channelID, ps). \<lparr>csChannelID = channelID, csParticipantCount = int (mlen ps)\<rparr>)
       (filter (\<lambda>(channelID, ps). canReadChannel service channelID) chs)"

definition handleChannels :: "managementAPIService \<Rightarrow> server \<Rightarrow> http_answer" where
  "handleChannels service sv =
     (if \<not> canReadChannels service then refuse 403
      else case managementAPIChannelState (svState sv) of
        None \<Rightarrow> refuse 503
      | Some chs \<Rightarrow>
          Answer (writeJSON [] 200 (enc_channel_list (sort_key csChannelID (channel_summaries service chs)))))"

definition participant_rows :: "participants \<Rightarrow> managementParticipant list" where
  "participant_rows ps = map (\<lambda>(senderID, st). \<lparr>mpSenderID = senderID, mpState = st\<rparr>) ps"

definition handleParticipants :: "managementAPIService \<Rightarrow> u32 \<Rightarrow> server \<Rightarrow> http_answer" where
  "handleParticipants service channelID sv =
     (if \<not> canReadChannel service channelID then refuse 403
      else case managementAPIChannelState (svState sv) of
        None \<Rightarrow> refuse 503
      | Some chs \<Rightarrow>
          let ps = (case mget chs channelID of None \<Rightarrow> [] | Some ps \<Rightarrow> ps)
          in Answer (writeJSON [] 200 (enc_participant_list channelID (sort_key mpSenderID (participant_rows ps)))))"

section \<open>Event streams\<close>

definition set_hub :: "managementLiveEventHub \<Rightarrow> server \<Rightarrow> server" where
  "set_hub h sv = sv\<lparr>svState := (svState sv)\<lparr>stLiveEvents := Some h\<rparr>\<rparr>"

text \<open>
  The loop of \<open>handleEvents\<close>: what it writes, whether it has ended, and the state.  A turn in
  which neither case is ready writes nothing.
\<close>

fun event_loop ::
  "event_turn list \<Rightarrow> managementAPIService \<Rightarrow> nat \<Rightarrow> server \<Rightarrow> string \<times> bool \<times> server" where
  "event_loop [] service ref sv = ([], False, sv)"
| "event_loop (tu # tus) service ref sv =
     (let sv = etMeanwhile tu sv
      in if etDone tu then ([], True, sv)
         else case stLiveEvents (svState sv) of
           None \<Rightarrow> ([], True, sv)
         | Some h \<Rightarrow>
             (case receive_event ref h of
                (WouldBlock, _) \<Rightarrow> event_loop tus service ref sv
              | (RecvClosed, h') \<Rightarrow> ([], True, set_hub h' sv)
              | (Received event, h') \<Rightarrow>
                  let sv = set_hub h' sv
                  in if \<not> canReceiveEvent service event then event_loop tus service ref sv
                     else if etWriteFails tu then ([], True, sv)
                     else (case event_loop tus service ref sv of
                             (out, closed, sv') \<Rightarrow> (writeManagementSSEEvent event @ out, closed, sv'))))"

definition event_headers :: "(string, string) gomap" where
  "event_headers = [(''Content-Type'', ''text/event-stream''), (''Cache-Control'', ''no-cache''),
     (''Connection'', ''keep-alive''), (''X-Accel-Buffering'', ''no'')]"

definition stream_start :: string where
  "stream_start = '': connected'' @ [CHR 0x0A, CHR 0x0A]"

definition handleEvents :: "api_env \<Rightarrow> http_request \<Rightarrow> managementAPIService \<Rightarrow> server \<Rightarrow> http_answer \<times> server" where
  "handleEvents env request service sv =
     (if htMethod request \<noteq> ''GET'' then (method_not_allowed ''GET'', sv)
      else if eventDeliveryMode (Some (svApi sv)) \<noteq> managementAPIEventDeliveryLive
              \<or> stLiveEvents (svState sv) = None then (refuse 404, sv)
      else if query_has (htQuery request) ''since'' then (refuse 400, sv)
      else if \<not> canOpenEventStream (Some service) then (refuse 403, sv)
      else if \<not> htFlusher request then (refuse 500, sv)
      else case subscribe (the (stLiveEvents (svState sv))) of
        (None, _) \<Rightarrow> (refuse 503, sv)
      | (Some (ref, sid), h) \<Rightarrow>
          (case event_loop (aeTurns env) service ref (set_hub h sv) of
             (out, closed, sv') \<Rightarrow>
               let response = \<lparr>rsStatus = 200, rsHeaders = event_headers, rsBody = stream_start @ out\<rparr>
               in if \<not> closed then (Streaming response, sv')
                  else case stLiveEvents (svState sv') of
                    None \<Rightarrow> (Answer response, sv')
                  | Some h' \<Rightarrow>
                      (case unsubscribe sid h' of
                         Inl p \<Rightarrow> (Panicked p, sv')
                       | Inr h'' \<Rightarrow> (Answer response, set_hub h'' sv'))))"

section \<open>Recording jobs\<close>

definition set_jobs :: "managementRecordingJobs option \<Rightarrow> server \<Rightarrow> server" where
  "set_jobs j sv = sv\<lparr>svState := (svState sv)\<lparr>stRecordingJobs := j\<rparr>\<rparr>"

definition handleRecordingJobStart ::
  "api_env \<Rightarrow> http_request \<Rightarrow> managementAPIService \<Rightarrow> server \<Rightarrow> http_answer \<times> server" where
  "handleRecordingJobStart env request service sv =
     (if htMethod request \<noteq> ''POST'' then (method_not_allowed ''POST'', sv)
      else case decodeManagementAPIRequest fields_job_request zero_job_request (htBody request) of
        None \<Rightarrow> (refuse 400, sv)
      | Some body \<Rightarrow>
          if \<not> canManageRecordingChannel (Some service) (jrChannelID body) then (refuse 403, sv)
          else (case job_create (aeRaw env 16) (jrChannelID body) (svcID service) (stRecordingJobs (svState sv)) of
             (Inl _, j) \<Rightarrow> (refuse 503, set_jobs j sv)
           | (Inr job, j) \<Rightarrow>
               (Answer (writeJSON no_store 201 (enc_job_response \<lparr>jpJobID = jobID job, jpState = jobState job\<rparr>)),
                set_jobs j sv)))"

definition handleRecordingJobStop ::
  "http_request \<Rightarrow> managementAPIService \<Rightarrow> string \<Rightarrow> server \<Rightarrow> http_answer \<times> server" where
  "handleRecordingJobStop request service jid sv =
     (if htMethod request \<noteq> ''POST'' then (method_not_allowed ''POST'', sv)
      else case job_get jid (stRecordingJobs (svState sv)) of
        None \<Rightarrow> (refuse 403, sv)
      | Some job \<Rightarrow>
          if \<not> canManageRecordingChannel (Some service) (jobChannelID job) then (refuse 403, sv)
          else (Answer \<lparr>rsStatus = 202, rsHeaders = no_store, rsBody = []\<rparr>,
                set_jobs (snd (job_stop jid (stRecordingJobs (svState sv)))) sv))"

section \<open>Service admission\<close>

definition set_issuer :: "serviceAdmissionGrantIssuer option \<Rightarrow> server \<Rightarrow> server" where
  "set_issuer i sv = sv\<lparr>svApi := (svApi sv)\<lparr>apIssuer := i\<rparr>\<rparr>"

definition handleServiceAdmissionGrant ::
  "crypto \<Rightarrow> api_env \<Rightarrow> http_request \<Rightarrow> managementAPIService \<Rightarrow> server \<Rightarrow> http_answer \<times> server" where
  "handleServiceAdmissionGrant cr env request service sv =
     (if htMethod request \<noteq> ''POST'' then (method_not_allowed ''POST'', sv)
      else if apIssuer (svApi sv) = None then (refuse 503, sv)
      else if svcRole service \<noteq> ''recorder'' \<and> svcRole service \<noteq> ''operator'' then (refuse 403, sv)
      else case decodeManagementAPIRequest fields_grant_request zero_grant_request (htBody request) of
        None \<Rightarrow> (refuse 400, sv)
      | Some body \<Rightarrow>
      (case admissionACL (Some service) (grChannelID body) (grSenderID body) of
        None \<Rightarrow> (refuse 403, sv)
      | Some acl \<Rightarrow>
          (case issue cr (aeRaw env 24) (svcID service) acl body (aeNow env) (apIssuer (svApi sv)) of
             (Inl GrantTracking, i) \<Rightarrow> (refuse 503, set_issuer i sv)
           | (Inl _, i) \<Rightarrow> (refuse 400, set_issuer i sv)
           | (Inr (grant, expiresAt), i) \<Rightarrow>
               (Answer (writeJSON no_store 201 (enc_grant_response
                  \<lparr>gpGrant = grant, gpExpiresAt = format_rfc3339 expiresAt\<rparr>)), set_issuer i sv))))"

text \<open>
  The answer to a revocation that was submitted, once its wait is over: the queue and what
  \<open>revokeServiceAdmission\<close> returned.
\<close>

definition revocation_answer ::
  "wait_end option \<Rightarrow> managementServiceAdmissionRevocationRequest
   \<Rightarrow> privateControlAck \<times> string \<times> revoke_error option \<Rightarrow> http_answer" where
  "revocation_answer ended body result =
     (case result of (ack, messageID, err) \<Rightarrow>
        (case err of
           None \<Rightarrow>
             if akDenyUntil ack \<noteq> rqDenyUntil body then refuse 503
             else Answer (writeJSON [] 200 (enc_revocation_response
               \<lparr>rrOutcome = akOutcome ack, rrDenyUntil = akDenyUntil ack,
                rrAffectedMembershipCount = akAffectedMembershipCount ack,
                rrTalkReleaseCount = akTalkReleaseCount ack\<rparr>))
         | Some e \<Rightarrow>
             if e = RevokeContext \<and> ended = Some DeadlineExceeded \<and> messageID \<noteq> []
             then Answer (writeJSON [] 202 (enc_revocation_pending
               \<lparr>rpStatus = ''pending_relay_ack'', rpMessageID = messageID, rpDenyUntil = rqDenyUntil body\<rparr>))
             else refuse 503))"

definition handleServiceAdmissionRevocation ::
  "api_env \<Rightarrow> http_request \<Rightarrow> managementAPIService \<Rightarrow> server \<Rightarrow> http_answer \<times> server" where
  "handleServiceAdmissionRevocation env request service sv =
     (if htMethod request \<noteq> ''POST'' then (method_not_allowed ''POST'', sv)
      else if svcRole service \<noteq> ''admin'' \<or> \<not> hasGlobalPermission service managementAPIRevokePermission
        then (refuse 403, sv)
      else case decodeManagementAPIRequest fields_revocation_request zero_revocation_request (htBody request) of
        None \<Rightarrow> (refuse 400, sv)
      | Some body \<Rightarrow>
      (case validateServiceAdmissionRevocation (aeNow env) (aeNow' env) body (apIssuer (svApi sv)) of
         (valid, i) \<Rightarrow>
           let sv = set_issuer i sv
           in if \<not> valid then (refuse 400, sv)
              else case svRevoker sv of
                None \<Rightarrow> (refuse 503, sv)
              | Some cl \<Rightarrow>
                  (case submit_revocation (aeStore env) (aeRaw env 16) body cl of
                     (Inl _, cl1) \<Rightarrow> (refuse 503, sv\<lparr>svRevoker := Some cl1\<rparr>)
                   | (Inr command, cl1) \<Rightarrow>
                       (case await_result (aeEnd env \<noteq> None) (aePrefer env) command (aeMeanwhile env cl1) of
                          (None, cl2) \<Rightarrow> (Waiting, sv\<lparr>svRevoker := Some cl2\<rparr>)
                        | (Some result, cl2) \<Rightarrow>
                            (revocation_answer (aeEnd env) body result, sv\<lparr>svRevoker := Some cl2\<rparr>)))))"

section \<open>Routing\<close>

definition hex_string :: "string \<Rightarrow> string" where
  "hex_string bs = concat (map (\<lambda>c. [hex_digit (byte_of c div 16), hex_digit (byte_of c mod 16)]) bs)"

definition authenticate :: "crypto \<Rightarrow> http_request \<Rightarrow> server \<Rightarrow> http_answer + managementAPIService" where
  "authenticate cr request sv =
     (case serviceForRequest (\<lambda>cert. hex_string (crSha256 cr cert)) (apAuthorizer (svApi sv)) (htPeer request) of
        None \<Rightarrow> Inl (refuse 403)
      | Some service \<Rightarrow> Inr service)"

abbreviation api_path :: "string \<Rightarrow> string" where
  "api_path name \<equiv> managementAPIVersionPrefix @ name"

definition ServeHTTP :: "crypto \<Rightarrow> api_env \<Rightarrow> http_request \<Rightarrow> server \<Rightarrow> http_answer \<times> server" where
  "ServeHTTP cr env request sv =
     (case authenticate cr request sv of
        Inl answer \<Rightarrow> (answer, sv)
      | Inr service \<Rightarrow>
          let path = htPath request
          in if path = api_path ''/health'' then
               (if htMethod request \<noteq> ''GET'' then method_not_allowed ''GET'' else handleHealth service sv, sv)
             else if path = api_path ''/channels'' then
               (if htMethod request \<noteq> ''GET'' then method_not_allowed ''GET'' else handleChannels service sv, sv)
             else if path = api_path ''/events'' then handleEvents env request service sv
             else if path = api_path ''/service-admission-grants'' then
               handleServiceAdmissionGrant cr env request service sv
             else if path = api_path ''/service-admission-revocations'' then
               handleServiceAdmissionRevocation env request service sv
             else if path = api_path ''/recording-jobs'' then handleRecordingJobStart env request service sv
             else case managementAPIRecordingJobIDFromStopPath path of
               Some jid \<Rightarrow> handleRecordingJobStop request service jid sv
             | None \<Rightarrow>
             (case managementAPIChannelIDFromPath path of
                None \<Rightarrow> (refuse 404, sv)
              | Some channelID \<Rightarrow>
                  (if htMethod request \<noteq> ''GET'' then method_not_allowed ''GET''
                   else handleParticipants service channelID sv, sv)))"

end
