(* ===== verification/Api_Effects.thy ===== *)
theory Api_Effects
  imports Management_Api
begin

text \<open>
  What each handler of the Management API may change: the hub, the jobs, the issuer and the
  queue by their own operations, and nothing else.
\<close>

section \<open>The effect of a request\<close>

text \<open>Steps on a component behind a pointer that may be nil.\<close>

definition opt_steps :: "('a \<Rightarrow> 'a \<Rightarrow> bool) \<Rightarrow> 'a option \<Rightarrow> 'a option \<Rightarrow> bool" where
  "opt_steps step x y =
     (case x of None \<Rightarrow> y = None
      | Some a \<Rightarrow> (case y of None \<Rightarrow> False | Some b \<Rightarrow> step\<^sup>*\<^sup>* a b))"

lemma opt_steps_refl [simp]: "opt_steps step x x"
  by (simp add: opt_steps_def split: option.split)

lemma opt_steps_Some [simp]: "opt_steps step (Some a) (Some b) \<longleftrightarrow> step\<^sup>*\<^sup>* a b"
  by (simp add: opt_steps_def)

lemma opt_steps_None [simp]: "opt_steps step None y \<longleftrightarrow> y = None"
  by (simp add: opt_steps_def)

lemma opt_steps_trans: "opt_steps step x y \<Longrightarrow> opt_steps step y z \<Longrightarrow> opt_steps step x z"
  by (auto simp: opt_steps_def split: option.splits)

inductive issuer_op :: "serviceAdmissionGrantIssuer \<Rightarrow> serviceAdmissionGrantIssuer \<Rightarrow> bool" where
  op_issue: "issue cr raw sid acl req now (Some i) = (r, Some i') \<Longrightarrow> issuer_op i i'"
| op_look_up: "issuedGrant k now (Some i) = (g, Some i') \<Longrightarrow> issuer_op i i'"

lemma issuer_op_inv: "issuer_op i i' \<Longrightarrow> issuer_inv i \<Longrightarrow> issuer_inv i'"
  by (auto elim!: issuer_op.cases intro: issue_inv cleanup_inv simp: issuedGrant_def Let_def)

text \<open>The queue also changes where a waiting handler takes its result.\<close>

inductive client_step :: "privateControlClient \<Rightarrow> privateControlClient \<Rightarrow> bool" where
  client_queue: "queue_step cl cl' \<Longrightarrow> client_step cl cl'"
| client_await: "await_result context_done prefer_done command cl = (r, cl') \<Longrightarrow> client_step cl cl'"

lemma await_cases:
  assumes "await_result d p command cl = (r, cl')"
  obtains (same) "cl' = cl"
  | (taken) x xs where "chanBuf (clResults cl ! pcResult command) = x # xs"
      "cl' = cl\<lparr>clResults := (clResults cl)[pcResult command := (clResults cl ! pcResult command)\<lparr>chanBuf := xs\<rparr>]\<rparr>"
  using assms by (auto simp: await_result_def chan_recv_def Let_def split: list.splits if_splits)

lemma await_inv:
  assumes "await_result d p command cl = (r, cl')" and "queue_inv cl"
  shows "queue_inv cl'"
  using assms(1)
proof (cases rule: await_cases)
  case (taken x xs)
  let ?n = "pcResult command"
  show ?thesis
  proof (cases "?n < length (clResults cl)")
    case True
    then have "\<not> awaiting cl ?n" using assms(2) taken(1) by (auto simp: queue_inv_def make_chan_def)
    moreover have "result_chan_ok ((clResults cl ! ?n)\<lparr>chanBuf := xs\<rparr>)"
      using assms(2) taken(1) True unfolding queue_inv_def by (auto simp: result_chan_ok_def dest!: nth_mem)
    ultimately have ok: "\<forall>c \<in> set (clResults cl'). result_chan_ok c"
      using assms(2) set_update_subset_insert [of "clResults cl" ?n "(clResults cl ! ?n)\<lparr>chanBuf := xs\<rparr>"]
      unfolding taken(2) queue_inv_def by auto
    have aw: "awaiting cl' m = awaiting cl m" for m unfolding taken(2) by (simp add: awaiting_def)
    have "clResults cl' ! m = clResults cl ! m \<and> length (clResults cl') = length (clResults cl)" if "awaiting cl m" for m
      using that \<open>\<not> awaiting cl ?n\<close> unfolding taken(2) by (cases "m = ?n") simp_all
    then show ?thesis
      using assms(2) ok unfolding queue_inv_def aw by (simp add: taken(2))
  next
    case False
    then have "clResults cl' = clResults cl" unfolding taken(2) by (simp add: list_update_beyond not_less)
    then have "cl' = cl" using taken(2) by (cases cl) simp
    then show ?thesis using assms(2) by simp
  qed
qed (use assms(2) in simp)

lemma client_step_inv: "client_step cl cl' \<Longrightarrow> queue_inv cl \<Longrightarrow> queue_inv cl'"
  by (auto elim!: client_step.cases intro: queue_step_inv await_inv)

lemma client_steps_inv: "client_step\<^sup>*\<^sup>* cl cl' \<Longrightarrow> queue_inv cl \<Longrightarrow> queue_inv cl'"
  by (induction rule: rtranclp_induct) (auto intro: client_step_inv)

text \<open>
  What a request may change: the hub, the jobs, the issuer and the queue by their own
  operations, and nothing else.
\<close>

definition api_effect :: "server \<Rightarrow> server \<Rightarrow> bool" where
  "api_effect sv sv' \<longleftrightarrow>
     opt_steps hub_step (stLiveEvents (svState sv)) (stLiveEvents (svState sv'))
     \<and> opt_steps jobs_step (stRecordingJobs (svState sv)) (stRecordingJobs (svState sv'))
     \<and> opt_steps issuer_op (apIssuer (svApi sv)) (apIssuer (svApi sv'))
     \<and> opt_steps client_step (svRevoker sv) (svRevoker sv')
     \<and> (\<exists>h j. svState sv' = (svState sv)\<lparr>stLiveEvents := h, stRecordingJobs := j\<rparr>)
     \<and> (\<exists>i. svApi sv' = (svApi sv)\<lparr>apIssuer := i\<rparr>)"

lemma api_effect_refl [simp]: "api_effect sv sv"
  unfolding api_effect_def
  by (auto intro!: exI [of _ "stLiveEvents (svState sv)"] exI [of _ "stRecordingJobs (svState sv)"]
      exI [of _ "apIssuer (svApi sv)"])

lemma api_effect_hub: "stLiveEvents (svState sv) = Some h \<Longrightarrow> hub_step h h' \<Longrightarrow> api_effect sv (set_hub h' sv)"
  unfolding api_effect_def set_hub_def
  by (auto intro!: exI [of _ "stRecordingJobs (svState sv)"] exI [of _ "apIssuer (svApi sv)"])

lemma api_effect_jobs:
  "opt_steps jobs_step (stRecordingJobs (svState sv)) j \<Longrightarrow> api_effect sv (set_jobs j sv)"
  unfolding api_effect_def set_jobs_def
  by (auto intro!: exI [of _ "stLiveEvents (svState sv)"] exI [of _ "apIssuer (svApi sv)"])

lemma api_effect_issuer:
  "opt_steps issuer_op (apIssuer (svApi sv)) i \<Longrightarrow> api_effect sv (set_issuer i sv)"
  unfolding api_effect_def set_issuer_def
  by (auto intro!: exI [of _ "stLiveEvents (svState sv)"] exI [of _ "stRecordingJobs (svState sv)"])

lemma api_effect_revoker:
  "svRevoker sv = Some cl \<Longrightarrow> client_step\<^sup>*\<^sup>* cl cl' \<Longrightarrow> api_effect sv (sv\<lparr>svRevoker := Some cl'\<rparr>)"
  unfolding api_effect_def
  by (auto intro!: exI [of _ "stLiveEvents (svState sv)"] exI [of _ "stRecordingJobs (svState sv)"]
      exI [of _ "apIssuer (svApi sv)"])

lemma api_effect_trans:
  assumes "api_effect a b" and "api_effect b c"
  shows "api_effect a c"
proof -
  obtain h j i where "svState c = (svState b)\<lparr>stLiveEvents := h, stRecordingJobs := j\<rparr>"
      "svApi c = (svApi b)\<lparr>apIssuer := i\<rparr>"
    using assms(2) unfolding api_effect_def by blast
  moreover obtain h' j' i' where "svState b = (svState a)\<lparr>stLiveEvents := h', stRecordingJobs := j'\<rparr>"
      "svApi b = (svApi a)\<lparr>apIssuer := i'\<rparr>"
    using assms(1) unfolding api_effect_def by blast
  ultimately have "\<exists>h j. svState c = (svState a)\<lparr>stLiveEvents := h, stRecordingJobs := j\<rparr>"
      "\<exists>i. svApi c = (svApi a)\<lparr>apIssuer := i\<rparr>"
    by (auto intro!: exI [of _ h] exI [of _ j] exI [of _ i])
  then show ?thesis using assms unfolding api_effect_def by (meson opt_steps_trans)
qed

section \<open>Jobs, grants and revocations\<close>

lemma create_steps:
  assumes "job_create raw ch svc j = (r, j')" and "\<forall>bs. raw = Some bs \<longrightarrow> length bs = 16"
  shows "opt_steps jobs_step j j'"
proof (cases j)
  case None
  then show ?thesis using assms by (auto simp: job_create_def)
next
  case (Some js)
  then obtain js' where "j' = Some js'"
    using assms(1) by (auto simp: job_create_def Let_def split: option.splits if_splits)
  then show ?thesis using Some assms step_create [of raw ch svc js r js'] by auto
qed

lemma stop_steps: "opt_steps jobs_step j (snd (job_stop jid j))"
proof (cases j)
  case (Some js)
  obtain r j' where s: "job_stop jid j = (r, j')" by fastforce
  moreover from s Some obtain js' where "j' = Some js'"
    by (auto simp: job_stop_def Let_def split: option.splits if_splits)
  ultimately show ?thesis using Some step_stop [of jid js r js'] by auto
qed (simp add: job_stop_def)

lemma issue_steps: "issue cr raw sid acl req now i = (r, i') \<Longrightarrow> opt_steps issuer_op i i'"
proof (cases i)
  case (Some x)
  assume s: "issue cr raw sid acl req now i = (r, i')"
  then obtain y where "i' = Some y"
    using Some by (auto simp: issue_def Let_def split: if_splits option.splits)
  then show ?thesis using Some s op_issue by auto
qed (simp add: issue_def)

lemma validate_steps: "validateServiceAdmissionRevocation now now' req i = (v, i') \<Longrightarrow> opt_steps issuer_op i i'"
proof -
  assume v: "validateServiceAdmissionRevocation now now' req i = (v, i')"
  have "i' = i \<or> i' = snd (issuedGrant (rqGrantIDHash req) now' i)"
    using v by (auto simp: validateServiceAdmissionRevocation_def split: if_splits prod.splits option.splits)
  moreover have "opt_steps issuer_op i (snd (issuedGrant (rqGrantIDHash req) now' i))"
  proof (cases i)
    case (Some x)
    have "issuedGrant (rqGrantIDHash req) now' (Some x)
        = (mget (isIssued (cleanupIssuedLocked now' x)) (rqGrantIDHash req), Some (cleanupIssuedLocked now' x))"
      by (simp add: issuedGrant_def Let_def)
    then have "issuer_op x (cleanupIssuedLocked now' x)" by (rule op_look_up)
    then show ?thesis using Some by (simp add: issuedGrant_def Let_def r_into_rtranclp)
  qed (simp add: issuedGrant_def)
  ultimately show ?thesis by auto
qed

lemma decoded_deny:
  assumes "decodeManagementAPIRequest fields_revocation_request zero_revocation_request body = Some req"
  shows "rqDenyUntil req < 2 ^ 63"
proof -
  obtain v where "dec_struct fields_revocation_request True v zero_revocation_request = Some req"
    using assms by (auto simp: decodeManagementAPIRequest_def split: if_splits option.splits)
  then show ?thesis
  proof (rule dec_struct_keeps [where P = "\<lambda>r. rqDenyUntil r < 2 ^ 63", rotated])
    show "rqDenyUntil zero_revocation_request < 2 ^ 63" by (simp add: zero_revocation_request_def)
  qed (auto simp: fields_revocation_request_def field_def dest!: dec_int64_range)
qed

section \<open>Each handler's effect\<close>

text \<open>An environment without waiting in it, whose random bytes have the length asked for.\<close>

definition env_ok :: "api_env \<Rightarrow> bool" where
  "env_ok env \<longleftrightarrow> (\<forall>n bs. aeRaw env n = Some bs \<longrightarrow> length bs = n)
     \<and> (\<forall>cl. client_step\<^sup>*\<^sup>* cl (aeMeanwhile env cl))
     \<and> (\<forall>tu \<in> set (aeTurns env). \<forall>sv. api_effect sv (etMeanwhile tu sv))"

lemma event_loop_effect:
  assumes "event_loop tus service ref sv = (out, closed, sv')"
    and "\<forall>tu \<in> set tus. \<forall>sv. api_effect sv (etMeanwhile tu sv)"
  shows "api_effect sv sv'"
  using assms
proof (induction tus arbitrary: sv out closed sv')
  case (Cons tu tus)
  define s1 where "s1 = etMeanwhile tu sv"
  have e1: "api_effect sv s1" using Cons.prems(2) by (simp add: s1_def)
  have next': "api_effect sv t'" if "api_effect s1 t" and "event_loop tus service ref t = (o', c', t')" for t o' c' t'
    using api_effect_trans [OF api_effect_trans [OF e1 that(1)] Cons.IH [OF that(2)]] Cons.prems(2) by simp
  show ?case
  proof (cases "etDone tu")
    case True
    then show ?thesis using Cons.prems(1) e1 by (simp add: s1_def)
  next
    case going: False
    show ?thesis
    proof (cases "stLiveEvents (svState s1)")
      case None
      then show ?thesis using Cons.prems(1) e1 going by (simp add: s1_def)
    next
      case (Some h)
      obtain r h' where r: "receive_event ref h = (r, h')" by fastforce
      then have hub: "api_effect s1 (set_hub h' s1)"
        using api_effect_hub [OF Some step_receive] by blast
      obtain o1 c1 t1 where l1: "event_loop tus service ref s1 = (o1, c1, t1)" by (metis prod_cases3)
      obtain o2 c2 t2 where l2: "event_loop tus service ref (set_hub h' s1) = (o2, c2, t2)" by (metis prod_cases3)
      have "sv' = set_hub h' s1 \<or> sv' = t1 \<or> sv' = t2"
        using Cons.prems(1) going Some r l1 l2
        by (cases r) (auto simp: s1_def [symmetric] Let_def split: if_splits)
      then show ?thesis
        using api_effect_trans [OF e1 hub] next' [OF api_effect_refl l1] next' [OF hub l2] by blast
    qed
  qed
qed simp

lemma events_effect:
  assumes "handleEvents env request service sv = (answer, sv')" and "env_ok env"
  shows "api_effect sv sv'"
proof (cases "sv' = sv")
  case False
  obtain h where h: "stLiveEvents (svState sv) = Some h"
    using assms(1) False by (auto simp: handleEvents_def split: if_splits)
  obtain x h1 where sub: "subscribe h = (x, h1)" by fastforce
  obtain ref sid where x: "x = Some (ref, sid)"
    using assms(1) False h sub by (cases x) (auto simp: handleEvents_def split: if_splits)
  obtain out closed s1 where l: "event_loop (aeTurns env) service ref (set_hub h1 sv) = (out, closed, s1)"
    by (metis prod_cases3)
  have "api_effect sv (set_hub h1 sv)" using api_effect_hub [OF h step_subscribe [OF sub]] .
  then have e1: "api_effect sv s1"
    using event_loop_effect [OF l] assms(2) api_effect_trans by (simp add: env_ok_def)
  have "sv' = s1 \<or> (\<exists>h' h''. stLiveEvents (svState s1) = Some h' \<and> unsubscribe sid h' = Inr h'' \<and> sv' = set_hub h'' s1)"
    using assms(1) False h sub x l
    by (auto simp: handleEvents_def Let_def split: if_splits option.splits sum.splits)
  then show ?thesis
  proof (elim disjE exE conjE)
    fix h' h'' assume "stLiveEvents (svState s1) = Some h'" "unsubscribe sid h' = Inr h''" "sv' = set_hub h'' s1"
    then show ?thesis using api_effect_trans [OF e1 api_effect_hub] step_unsubscribe by blast
  qed (use e1 in simp)
qed simp

lemma job_start_effect:
  assumes "handleRecordingJobStart env request service sv = (answer, sv')" and "env_ok env"
  shows "api_effect sv sv'"
proof -
  have "sv' = sv \<or> (\<exists>b r j. job_create (aeRaw env 16) b (svcID service) (stRecordingJobs (svState sv)) = (r, j)
      \<and> sv' = set_jobs j sv)"
    using assms(1) by (auto simp: handleRecordingJobStart_def split: if_splits option.splits prod.splits sum.splits)
  moreover have "api_effect sv (set_jobs j sv)"
    if "job_create (aeRaw env 16) b (svcID service) (stRecordingJobs (svState sv)) = (r, j)" for b r j
    using assms(2) create_steps [OF that] by (intro api_effect_jobs) (simp add: env_ok_def)
  ultimately show ?thesis by auto
qed

lemma job_stop_effect:
  assumes "handleRecordingJobStop request service jid sv = (answer, sv')"
  shows "api_effect sv sv'"
proof -
  have "sv' = sv \<or> sv' = set_jobs (snd (job_stop jid (stRecordingJobs (svState sv)))) sv"
    using assms by (auto simp: handleRecordingJobStop_def split: if_splits option.splits)
  then show ?thesis using api_effect_jobs [OF stop_steps] by auto
qed

lemma grant_effect:
  assumes "handleServiceAdmissionGrant cr env request service sv = (answer, sv')"
  shows "api_effect sv sv'"
proof -
  have "sv' = sv \<or> (\<exists>acl body r i. issue cr (aeRaw env 24) (svcID service) acl body (aeNow env) (apIssuer (svApi sv)) = (r, i)
      \<and> sv' = set_issuer i sv)"
    using assms by (auto simp: handleServiceAdmissionGrant_def split: if_splits option.splits prod.splits sum.splits grant_error.splits)
  then show ?thesis using issue_steps by (auto intro: api_effect_issuer)
qed

text \<open>The cases of a revocation request.\<close>

lemma revocation_cases:
  assumes "handleServiceAdmissionRevocation env request service sv = (answer, sv')"
  obtains (early) "sv' = sv" "answer = method_not_allowed ''POST'' \<or> answer = refuse 403 \<or> answer = refuse 400"
  | (checked) body i where
      "htMethod request = ''POST''" "svcRole service = ''admin''"
      "hasGlobalPermission service managementAPIRevokePermission"
      "decodeManagementAPIRequest fields_revocation_request zero_revocation_request (htBody request) = Some body"
      "validateServiceAdmissionRevocation (aeNow env) (aeNow' env) body (apIssuer (svApi sv)) = (False, i)"
      "answer = refuse 400" "sv' = set_issuer i sv"
  | (no_revoker) body i where
      "decodeManagementAPIRequest fields_revocation_request zero_revocation_request (htBody request) = Some body"
      "validateServiceAdmissionRevocation (aeNow env) (aeNow' env) body (apIssuer (svApi sv)) = (True, i)"
      "svRevoker sv = None" "answer = refuse 503" "sv' = set_issuer i sv"
  | (not_queued) body i cl e cl1 where
      "decodeManagementAPIRequest fields_revocation_request zero_revocation_request (htBody request) = Some body"
      "validateServiceAdmissionRevocation (aeNow env) (aeNow' env) body (apIssuer (svApi sv)) = (True, i)"
      "svRevoker sv = Some cl" "submit_revocation (aeStore env) (aeRaw env 16) body cl = (Inl e, cl1)"
      "answer = refuse 503" "sv' = (set_issuer i sv)\<lparr>svRevoker := Some cl1\<rparr>"
  | (queued) body i cl command cl1 r cl2 where
      "htMethod request = ''POST''" "svcRole service = ''admin''"
      "hasGlobalPermission service managementAPIRevokePermission"
      "decodeManagementAPIRequest fields_revocation_request zero_revocation_request (htBody request) = Some body"
      "validateServiceAdmissionRevocation (aeNow env) (aeNow' env) body (apIssuer (svApi sv)) = (True, i)"
      "svRevoker sv = Some cl" "submit_revocation (aeStore env) (aeRaw env 16) body cl = (Inr command, cl1)"
      "await_result (aeEnd env \<noteq> None) (aePrefer env) command (aeMeanwhile env cl1) = (r, cl2)"
      "answer = (case r of None \<Rightarrow> Waiting | Some result \<Rightarrow> revocation_answer (aeEnd env) body result)"
      "sv' = (set_issuer i sv)\<lparr>svRevoker := Some cl2\<rparr>"
proof (cases "htMethod request = ''POST'' \<and> svcRole service = ''admin''
    \<and> hasGlobalPermission service managementAPIRevokePermission")
  case False
  then have "sv' = sv \<and> (answer = method_not_allowed ''POST'' \<or> answer = refuse 403)"
    using assms by (auto simp: handleServiceAdmissionRevocation_def split: if_splits)
  then show thesis using early by blast
next
  case may: True
  show thesis
  proof (cases "decodeManagementAPIRequest fields_revocation_request zero_revocation_request (htBody request)")
    case None
    then have "sv' = sv \<and> answer = refuse 400"
      using assms may by (auto simp: handleServiceAdmissionRevocation_def)
    then show thesis using early by blast
  next
    case (Some body)
    obtain v i where v: "validateServiceAdmissionRevocation (aeNow env) (aeNow' env) body (apIssuer (svApi sv)) = (v, i)"
      by fastforce
    have rev: "svRevoker (set_issuer i sv) = svRevoker sv" by (simp add: set_issuer_def)
    show thesis
    proof (cases v)
      case False
      then have "answer = refuse 400 \<and> sv' = set_issuer i sv"
        using assms may Some v by (auto simp: handleServiceAdmissionRevocation_def Let_def)
      moreover have "validateServiceAdmissionRevocation (aeNow env) (aeNow' env) body (apIssuer (svApi sv)) = (False, i)"
        using v False by simp
      ultimately show thesis using checked may Some by blast
    next
      case True
      have v: "validateServiceAdmissionRevocation (aeNow env) (aeNow' env) body (apIssuer (svApi sv)) = (True, i)"
        using v True by simp
      note body = \<open>decodeManagementAPIRequest fields_revocation_request zero_revocation_request (htBody request) = Some body\<close>
      show thesis
      proof (cases "svRevoker sv")
        case None
        then have "answer = refuse 503 \<and> sv' = set_issuer i sv"
          using assms may body v rev None by (auto simp: handleServiceAdmissionRevocation_def Let_def)
        then show thesis using no_revoker body v None by blast
      next
        case (Some cl)
        obtain x cl1 where sub: "submit_revocation (aeStore env) (aeRaw env 16) body cl = (x, cl1)" by fastforce
        show thesis
        proof (cases x)
          case (Inl e)
          then have "answer = refuse 503 \<and> sv' = (set_issuer i sv)\<lparr>svRevoker := Some cl1\<rparr>"
            using assms may body v Some rev sub
            by (auto simp: handleServiceAdmissionRevocation_def Let_def)
          then show thesis
            using not_queued body v Some sub unfolding Inl by blast
        next
          case (Inr command)
          obtain r cl2 where aw: "await_result (aeEnd env \<noteq> None) (aePrefer env) command (aeMeanwhile env cl1) = (r, cl2)"
            by fastforce
          then have "answer = (case r of None \<Rightarrow> Waiting | Some result \<Rightarrow> revocation_answer (aeEnd env) body result)
              \<and> sv' = (set_issuer i sv)\<lparr>svRevoker := Some cl2\<rparr>"
            using assms may body v Some rev sub aw Inr
            by (auto simp: handleServiceAdmissionRevocation_def Let_def split: option.split)
          moreover have "submit_revocation (aeStore env) (aeRaw env 16) body cl = (Inr command, cl1)"
            using sub Inr by simp
          ultimately show thesis
            using queued [OF _ _ _ body v Some _ aw] may by blast
        qed
      qed
    qed
  qed
qed

lemma revocation_effect:
  assumes "handleServiceAdmissionRevocation env request service sv = (answer, sv')" and "env_ok env"
  shows "api_effect sv sv'"
  using assms(1)
proof (cases rule: revocation_cases)
  case (checked body i)
  then show ?thesis using api_effect_issuer [OF validate_steps] by blast
next
  case (no_revoker body i)
  then show ?thesis using api_effect_issuer [OF validate_steps] by blast
next
  case (not_queued body i cl e cl1)
  have "queue_step cl cl1" using submit_wait [OF not_queued(4) decoded_deny [OF not_queued(1)]] .
  then have "client_step\<^sup>*\<^sup>* cl cl1" using client_queue by blast
  moreover have "svRevoker (set_issuer i sv) = Some cl" using not_queued(3) by (simp add: set_issuer_def)
  ultimately have "api_effect (set_issuer i sv) sv'" unfolding not_queued(6) by (intro api_effect_revoker)
  then show ?thesis using api_effect_trans [OF api_effect_issuer [OF validate_steps [OF not_queued(2)]]] by blast
next
  case (queued body i cl command cl1 r cl2)
  have "client_step cl cl1" using client_queue [OF submit_wait [OF queued(7) decoded_deny [OF queued(4)]]] .
  moreover have "client_step\<^sup>*\<^sup>* cl1 (aeMeanwhile env cl1)" using assms(2) by (simp add: env_ok_def)
  moreover have "client_step (aeMeanwhile env cl1) cl2" using client_await [OF queued(8)] .
  ultimately have "client_step\<^sup>*\<^sup>* cl cl2" by (meson converse_rtranclp_into_rtranclp rtranclp.rtrancl_into_rtrancl)
  moreover have "svRevoker (set_issuer i sv) = Some cl" using queued(6) by (simp add: set_issuer_def)
  ultimately have "api_effect (set_issuer i sv) sv'" unfolding queued(10) by (intro api_effect_revoker)
  then show ?thesis using api_effect_trans [OF api_effect_issuer [OF validate_steps [OF queued(5)]]] by blast
qed simp

section \<open>The effect of any request\<close>

text \<open>The cases of \<open>ServeHTTP\<close> that can change something.\<close>

lemma serve_cases:
  assumes "ServeHTTP cr env request sv = (answer, sv')"
  obtains (refused) "authenticate cr request sv = Inl answer" "sv' = sv"
  | (unchanged) service where "authenticate cr request sv = Inr service" "sv' = sv"
  | (events) service where "authenticate cr request sv = Inr service" "htPath request = ''/v1/events''"
      "handleEvents env request service sv = (answer, sv')"
  | (grant) service where "authenticate cr request sv = Inr service"
      "handleServiceAdmissionGrant cr env request service sv = (answer, sv')"
  | (revocation) service where "authenticate cr request sv = Inr service"
      "handleServiceAdmissionRevocation env request service sv = (answer, sv')"
  | (job_start) service where "authenticate cr request sv = Inr service"
      "handleRecordingJobStart env request service sv = (answer, sv')"
  | (job_stop) service jid where "authenticate cr request sv = Inr service"
      "handleRecordingJobStop request service jid sv = (answer, sv')"
proof (cases "authenticate cr request sv")
  case (Inl a)
  then have "ServeHTTP cr env request sv = (a, sv)" by (simp add: ServeHTTP_def)
  then have "a = answer \<and> sv' = sv" using assms by auto
  then show thesis using refused Inl by blast
next
  case (Inr service)
  define path where "path = htPath request"
  consider (plain) "sv' = sv" | (events') "path = ''/v1/events''" "ServeHTTP cr env request sv = handleEvents env request service sv"
    | (grant') "ServeHTTP cr env request sv = handleServiceAdmissionGrant cr env request service sv"
    | (revocation') "ServeHTTP cr env request sv = handleServiceAdmissionRevocation env request service sv"
    | (start') "ServeHTTP cr env request sv = handleRecordingJobStart env request service sv"
    | (stop') jid where "ServeHTTP cr env request sv = handleRecordingJobStop request service jid sv"
  proof -
    have s: "ServeHTTP cr env request sv = (if path = ''/v1/health'' then
               (if htMethod request \<noteq> ''GET'' then method_not_allowed ''GET'' else handleHealth service sv, sv)
             else if path = ''/v1/channels'' then
               (if htMethod request \<noteq> ''GET'' then method_not_allowed ''GET'' else handleChannels service sv, sv)
             else if path = ''/v1/events'' then handleEvents env request service sv
             else if path = ''/v1/service-admission-grants'' then handleServiceAdmissionGrant cr env request service sv
             else if path = ''/v1/service-admission-revocations'' then
               handleServiceAdmissionRevocation env request service sv
             else if path = ''/v1/recording-jobs'' then handleRecordingJobStart env request service sv
             else case managementAPIRecordingJobIDFromStopPath path of
               Some jid \<Rightarrow> handleRecordingJobStop request service jid sv
             | None \<Rightarrow>
             (case managementAPIChannelIDFromPath path of
                None \<Rightarrow> (refuse 404, sv)
              | Some channelID \<Rightarrow>
                  (if htMethod request \<noteq> ''GET'' then method_not_allowed ''GET''
                   else handleParticipants service channelID sv, sv)))"
      unfolding path_def ServeHTTP_def Inr Let_def managementAPIVersionPrefix_def by simp
    have "path \<notin> {''/v1/health'', ''/v1/channels''} \<or> sv' = sv"
      using assms s by (auto split: if_splits)
    then show ?thesis
    proof (elim disjE)
      assume "path \<notin> {''/v1/health'', ''/v1/channels''}"
      then have n: "path \<noteq> ''/v1/health''" "path \<noteq> ''/v1/channels''" by simp_all
      note s1 = s [unfolded if_not_P [OF n(1)] if_not_P [OF n(2)]]
      show ?thesis
      proof (cases "managementAPIRecordingJobIDFromStopPath path")
        case (Some jid)
        then show ?thesis
          using s1 events' grant' revocation' start' stop' by (simp only: option.case) (metis (full_types))
      next
        case None
        have "snd (case managementAPIChannelIDFromPath path of
                None \<Rightarrow> (refuse 404, sv)
              | Some channelID \<Rightarrow>
                  (if htMethod request \<noteq> ''GET'' then method_not_allowed ''GET''
                   else handleParticipants service channelID sv, sv)) = sv"
          by (simp split: option.split)
        then show ?thesis
          using s1 [unfolded None] assms plain events' grant' revocation' start' stop'
          by (simp only: option.case) (metis (full_types) snd_conv)
      qed
    qed (rule plain)
  qed
  then show thesis
  proof cases
    case plain
    then show thesis using unchanged Inr by blast
  next
    case events'
    then show thesis using events [OF Inr] assms unfolding path_def by simp
  next
    case grant'
    then show thesis using grant [OF Inr] assms by simp
  next
    case revocation'
    then show thesis using revocation [OF Inr] assms by simp
  next
    case start'
    then show thesis using job_start [OF Inr] assms by simp
  next
    case (stop' jid)
    then show thesis using job_stop [OF Inr] assms by simp
  qed
qed

lemma serve_effect:
  assumes "ServeHTTP cr env request sv = (answer, sv')" and "env_ok env"
  shows "api_effect sv sv'"
  using assms(1)
proof (cases rule: serve_cases)
  case (events service)
  then show ?thesis using events_effect assms(2) by blast
next
  case (grant service)
  then show ?thesis using grant_effect by blast
next
  case (revocation service)
  then show ?thesis using revocation_effect assms(2) by blast
next
  case (job_start service)
  then show ?thesis using job_start_effect assms(2) by blast
next
  case (job_stop service jid)
  then show ?thesis using job_stop_effect by blast
qed simp_all

text \<open>A request that is not a POST changes nothing, unless it opens an event stream.\<close>

lemma post_changes:
  "handleServiceAdmissionGrant cr env request service sv = (answer, sv') \<Longrightarrow> sv' \<noteq> sv \<Longrightarrow> htMethod request = ''POST''"
  "handleServiceAdmissionRevocation env request service sv = (answer, sv') \<Longrightarrow> sv' \<noteq> sv \<Longrightarrow> htMethod request = ''POST''"
  "handleRecordingJobStart env request service sv = (answer, sv') \<Longrightarrow> sv' \<noteq> sv \<Longrightarrow> htMethod request = ''POST''"
  "handleRecordingJobStop request service jid sv = (answer, sv') \<Longrightarrow> sv' \<noteq> sv \<Longrightarrow> htMethod request = ''POST''"
  by (auto simp: handleServiceAdmissionGrant_def handleServiceAdmissionRevocation_def handleRecordingJobStart_def
      handleRecordingJobStop_def split: if_splits)

lemma events_changes:
  "handleEvents env request service sv = (answer, sv') \<Longrightarrow> sv' \<noteq> sv \<Longrightarrow>
   htMethod request = ''GET'' \<and> canOpenEventStream (Some service)"
  by (auto simp: handleEvents_def split: if_splits)

end
