(* ===== verification/Api_Properties.thy ===== *)
theory Api_Properties
  imports Api_Effects
begin

text \<open>
  What the handlers of the Management API guarantee: who is served, what an answer says of
  the state, that a grant or a revocation is only done for who may, that a stop discloses
  nothing, and that a stream carries only permitted events in well-formed frames.
\<close>

section \<open>Who is served\<close>

abbreviation certificate_hash :: "crypto \<Rightarrow> string \<Rightarrow> string" where
  "certificate_hash cr cert \<equiv> hex_string (crSha256 cr cert)"

lemma authenticate_cases:
  "authenticate cr request sv = Inr service \<longleftrightarrow>
     serviceForRequest (certificate_hash cr) (apAuthorizer (svApi sv)) (htPeer request) = Some service"
  "authenticate cr request sv = Inl answer \<longleftrightarrow>
     serviceForRequest (certificate_hash cr) (apAuthorizer (svApi sv)) (htPeer request) = None \<and> answer = refuse 403"
  by (auto simp: authenticate_def split: option.splits)

lemma served_enabled: "serviceForRequest f a peer = Some service \<Longrightarrow> svcEnabled service"
  by (auto simp: serviceForRequest_def split: option.splits if_splits)

text \<open>
  C1. A request whose certificate is not that of an enabled service is answered with 403 and
  changes nothing; and whatever a request changes, it came from an enabled service, as a POST
  or by opening an event stream that the service may open.
\<close>

theorem only_permitted_requests_change:
  assumes "ServeHTTP cr env request sv = (answer, sv')"
  shows "(serviceForRequest (certificate_hash cr) (apAuthorizer (svApi sv)) (htPeer request) = None \<longrightarrow>
            answer = refuse 403 \<and> sv' = sv)
     \<and> (sv' \<noteq> sv \<longrightarrow>
          (\<exists>service. serviceForRequest (certificate_hash cr) (apAuthorizer (svApi sv)) (htPeer request) = Some service
             \<and> svcEnabled service
             \<and> (htMethod request = ''POST'' \<or> htMethod request = ''GET'' \<and> htPath request = ''/v1/events''
                \<and> canOpenEventStream (Some service))))"
proof -
  have "\<exists>service. authenticate cr request sv = Inr service
       \<and> (htMethod request = ''POST'' \<or> htMethod request = ''GET'' \<and> htPath request = ''/v1/events''
          \<and> canOpenEventStream (Some service))" if "sv' \<noteq> sv"
    using assms
  proof (cases rule: serve_cases)
    case (events service)
    then show ?thesis using events_changes that by blast
  next
    case (grant service)
    then show ?thesis using post_changes(1) that by blast
  next
    case (revocation service)
    then show ?thesis using post_changes(2) that by blast
  next
    case (job_start service)
    then show ?thesis using post_changes(3) that by blast
  next
    case (job_stop service jid)
    then show ?thesis using post_changes(4) that by blast
  qed (use that in simp_all)
  moreover have "answer = refuse 403 \<and> sv' = sv" if "authenticate cr request sv = Inl (refuse 403)"
    using assms that by (auto simp: ServeHTTP_def)
  ultimately show ?thesis
    using served_enabled by (auto simp: authenticate_cases)
qed

section \<open>What the state resources say\<close>

definition channels_ok :: "channels \<Rightarrow> bool" where
  "channels_ok chs \<longleftrightarrow> gomap_ok chs \<and> (\<forall>(c, ps) \<in> set chs. gomap_ok ps)"

lemma card_participants: "gomap_ok ps \<Longrightarrow> mlen ps = card {p. mget ps p \<noteq> None}"
proof -
  assume "gomap_ok ps"
  then have "card (fst ` set ps) = mlen ps"
    using distinct_card [of "map fst ps"] by (simp add: gomap_ok_def)
  moreover have "{p. mget ps p \<noteq> None} = fst ` set ps"
    by (simp add: dom_map_of_conv_image_fst [symmetric] dom_def)
  ultimately show ?thesis by simp
qed

lemma sorted_distinct_key:
  assumes "distinct (map f xs)"
  shows "sorted_wrt (<) (map f (sort_key f xs))"
proof -
  have "mset (map f (sort_key f xs)) = mset (map f xs)" by simp
  then have "distinct (map f (sort_key f xs))"
    using assms mset_eq_imp_distinct_iff by blast
  then show ?thesis by (simp add: strict_sorted_iff)
qed

lemma channel_summaries_ids: "map csChannelID (channel_summaries service chs)
    = map fst (filter (\<lambda>(c, ps). canReadChannel service c) chs)"
  by (simp add: channel_summaries_def case_prod_beta comp_def)

lemma channel_summaries_spec:
  assumes "channels_ok chs"
  shows "sorted_wrt (<) (map csChannelID (sort_key csChannelID (channel_summaries service chs)))"
    "\<lparr>csChannelID = c, csParticipantCount = n\<rparr> \<in> set (channel_summaries service chs) \<longleftrightarrow>
       canReadChannel service c \<and> mhas chs c \<and> n = int (card {p. view_of chs c p \<noteq> None})"
proof -
  have ok: "gomap_ok chs" using assms by (simp add: channels_ok_def)
  then have "distinct (map csChannelID (channel_summaries service chs))"
    unfolding channel_summaries_ids using gomap_ok_filter by (auto simp: gomap_ok_def)
  then show "sorted_wrt (<) (map csChannelID (sort_key csChannelID (channel_summaries service chs)))"
    by (rule sorted_distinct_key)
  have "(\<exists>ps. (c, ps) \<in> set chs \<and> n = int (mlen ps)) \<longleftrightarrow> mhas chs c \<and> n = int (card {p. view_of chs c p \<noteq> None})"
  proof (cases "mget chs c")
    case None
    have "(c, ps) \<notin> set chs" for ps using mget_in_set [OF ok, of c ps] None by auto
    then show ?thesis using None by (simp add: mhas_iff)
  next
    case (Some ps)
    then have in_set: "(c, ps) \<in> set chs" using mget_in_set [OF ok] by blast
    then have "gomap_ok ps" using assms by (auto simp: channels_ok_def)
    then have "mlen ps = card {p. view_of chs c p \<noteq> None}"
      using card_participants Some by (simp add: view_of_def)
    moreover have "(\<exists>ps. (c, ps) \<in> set chs \<and> n = int (mlen ps)) \<longleftrightarrow> n = int (mlen ps)"
      using in_set Some mget_in_set [OF ok] by (metis option.inject)
    ultimately show ?thesis using Some by (simp add: mhas_iff)
  qed
  then show "\<lparr>csChannelID = c, csParticipantCount = n\<rparr> \<in> set (channel_summaries service chs) \<longleftrightarrow>
       canReadChannel service c \<and> mhas chs c \<and> n = int (card {p. view_of chs c p \<noteq> None})"
    by (auto simp: channel_summaries_def image_iff case_prod_beta)
qed

text \<open>
  C18. \<open>GET /v1/channels\<close> changes nothing and, for a service that may read channels, answers
  503 until the current connection has given a snapshot, and then lists exactly the known
  channels the service may read, in ascending order, each with the number of participants in
  it.
\<close>

theorem channel_list_exact:
  assumes "authenticate cr request sv = Inr service" and "htPath request = ''/v1/channels''"
    and "htMethod request = ''GET''" and "channels_ok (stChannels (svState sv))"
  shows "\<exists>cs. sorted_wrt (<) (map csChannelID cs)
     \<and> (\<forall>c n. \<lparr>csChannelID = c, csParticipantCount = n\<rparr> \<in> set cs \<longleftrightarrow>
          canReadChannel service c \<and> mhas (stChannels (svState sv)) c
          \<and> n = int (card {p. view_of (stChannels (svState sv)) c p \<noteq> None}))
     \<and> ServeHTTP cr env request sv =
         (if \<not> canReadChannels service then refuse 403
          else if \<not> stConnected (svState sv) \<or> stSnapshotAt (svState sv) = None then refuse 503
          else Answer (writeJSON [] 200 (enc_channel_list cs)), sv)"
proof -
  let ?cs = "sort_key csChannelID (channel_summaries service (stChannels (svState sv)))"
  have "ServeHTTP cr env request sv = (handleChannels service sv, sv)"
    using assms(1-3) by (simp add: ServeHTTP_def managementAPIVersionPrefix_def)
  moreover have "handleChannels service sv = (if \<not> canReadChannels service then refuse 403
          else if \<not> stConnected (svState sv) \<or> stSnapshotAt (svState sv) = None then refuse 503
          else Answer (writeJSON [] 200 (enc_channel_list ?cs)))"
    by (simp add: handleChannels_def managementAPIChannelState_def)
  ultimately show ?thesis
    using channel_summaries_spec(1) [OF assms(4)] channel_summaries_spec(2) [OF assms(4)]
    by (intro exI [of _ ?cs]) simp
qed

section \<open>Paths\<close>

lemma participants_path:
  "managementAPIChannelIDFromPath (''/v1/channels/'' @ word_to_dec c @ ''/participants'') = Some (c :: u32)"
proof -
  have p: "''/v1/channels/'' = managementAPIVersionPrefix @ ''/channels/''" by (simp add: managementAPIVersionPrefix_def)
  have ne: "word_to_dec c \<noteq> []" by (simp add: word_to_dec_def)
  have d: "managementAPIDecimalPattern (word_to_dec c)"
    using nat_to_dec_digits [of "unat c"] ne by (simp add: managementAPIDecimalPattern_def word_to_dec_def)
  show ?thesis
    unfolding p managementAPIChannelIDFromPath_def Let_def
    by (simp only: has_prefix_append trim_prefix_append trim_suffix_append, simp only: append_assoc [symmetric])
      (simp add: has_suffix_append ne word_to_dec_not_slash parseManagementU32_def d del: append_assoc)
qed

lemma participants_not_stop:
  "managementAPIRecordingJobIDFromStopPath (''/v1/channels/'' @ s) = None"
proof -
  have "\<not> has_prefix (''/v1/channels/'' @ s) (managementAPIVersionPrefix @ ''/recording-jobs/'')"
    by (simp add: has_prefix_def managementAPIVersionPrefix_def)
  then show ?thesis unfolding managementAPIRecordingJobIDFromStopPath_def Let_def by simp
qed

lemma participant_rows_spec:
  assumes "channels_ok chs"
  shows "sorted_wrt (<) (map mpSenderID (sort_key mpSenderID (participant_rows (case mget chs c of None \<Rightarrow> [] | Some ps \<Rightarrow> ps))))"
    "\<lparr>mpSenderID = p, mpState = st\<rparr> \<in> set (participant_rows (case mget chs c of None \<Rightarrow> [] | Some ps \<Rightarrow> ps))
       \<longleftrightarrow> view_of chs c p = Some st"
proof -
  let ?ps = "case mget chs c of None \<Rightarrow> [] | Some ps \<Rightarrow> ps"
  have ok: "gomap_ok ?ps"
    using assms mget_in_set [of chs c] by (auto simp: channels_ok_def split: option.split)
  then have "distinct (map mpSenderID (participant_rows ?ps))"
    by (simp add: participant_rows_def gomap_ok_def comp_def case_prod_beta)
  then show "sorted_wrt (<) (map mpSenderID (sort_key mpSenderID (participant_rows ?ps)))"
    by (rule sorted_distinct_key)
  have "\<lparr>mpSenderID = p, mpState = st\<rparr> \<in> set (participant_rows ?ps) \<longleftrightarrow> (p, st) \<in> set ?ps"
    by (auto simp: participant_rows_def image_iff)
  then show "\<lparr>mpSenderID = p, mpState = st\<rparr> \<in> set (participant_rows ?ps) \<longleftrightarrow> view_of chs c p = Some st"
    unfolding mget_in_set [OF ok, symmetric] by (simp add: view_of_def split: option.split)
qed

text \<open>
  \<open>GET /v1/channels/{id}/participants\<close>, with the identifier in decimal, changes nothing
  and, for a service that may read that channel, answers 503 until the current connection has
  given a snapshot, and then lists exactly the participants known in the channel, in ascending
  order, each with its state; an unknown channel has none.
\<close>

theorem participant_list_exact:
  assumes "authenticate cr request sv = Inr service" and "htMethod request = ''GET''"
    and "htPath request = ''/v1/channels/'' @ word_to_dec c @ ''/participants''"
    and "channels_ok (stChannels (svState sv))"
  shows "\<exists>ps. sorted_wrt (<) (map mpSenderID ps)
     \<and> (\<forall>p st. \<lparr>mpSenderID = p, mpState = st\<rparr> \<in> set ps \<longleftrightarrow> view_of (stChannels (svState sv)) c p = Some st)
     \<and> ServeHTTP cr env request sv =
         (if \<not> canReadChannel service c then refuse 403
          else if \<not> stConnected (svState sv) \<or> stSnapshotAt (svState sv) = None then refuse 503
          else Answer (writeJSON [] 200 (enc_participant_list c ps)), sv)"
proof -
  let ?chs = "stChannels (svState sv)"
  let ?ps = "sort_key mpSenderID (participant_rows (case mget ?chs c of None \<Rightarrow> [] | Some ps \<Rightarrow> ps))"
  have path: "htPath request \<noteq> api_path p" if "p \<in> {''/health'', ''/channels'', ''/events'', ''/service-admission-grants'',
      ''/service-admission-revocations'', ''/recording-jobs''}" for p
    using that assms(3) by (auto simp: managementAPIVersionPrefix_def)
  have "ServeHTTP cr env request sv = (handleParticipants service c sv, sv)"
    using assms(1,2) path participants_not_stop participants_path unfolding ServeHTTP_def Let_def assms(3)
    by simp
  moreover have "handleParticipants service c sv = (if \<not> canReadChannel service c then refuse 403
          else if \<not> stConnected (svState sv) \<or> stSnapshotAt (svState sv) = None then refuse 503
          else Answer (writeJSON [] 200 (enc_participant_list c ?ps)))"
    by (simp add: handleParticipants_def managementAPIChannelState_def Let_def)
  ultimately show ?thesis
    using participant_rows_spec(1) [OF assms(4)] participant_rows_spec(2) [OF assms(4)]
    by (intro exI [of _ ?ps]) simp
qed

end
