(* ===== verification/Api_Commands.thy ===== *)
theory Api_Commands
  imports Api_Properties
begin

text \<open>
  The requests of the Management API that change something: recording jobs
  (\<open>recording_jobs.go\<close>), grants and revocations (\<open>service_admission_api.go\<close>).
\<close>

section \<open>Answers\<close>

lemma status_simps [simp]:
  "rsStatus (writeJSON hs n v) = n" "rsStatus (writeManagementAPIError hs n) = n"
  "rsStatus (writeManagementAPIMethodNotAllowed m) = 405"
  by (simp_all add: writeJSON_def writeManagementAPIError_def writeManagementAPIMethodNotAllowed_def)

section \<open>Recording jobs\<close>

text \<open>Every job the table can hold is reached by its path.\<close>

lemma b64_char_ascii: "n < 64 \<Longrightarrow> b64_char n \<noteq> CHR ''/'' \<and> byte_of (b64_char n) < 128"
proof -
  assume "n < 64"
  then have "b64_val (b64_char n) = Some n" by simp
  then show ?thesis
    by (auto simp: b64_val_def is_upper_def is_lower_def is_digit_def split: if_splits)
qed

lemma stop_path:
  assumes "validPrivateControlID jid"
  shows "managementAPIRecordingJobIDFromStopPath (''/v1/recording-jobs/'' @ jid @ ''/stop'') = Some jid"
proof -
  obtain bs where bs: "length bs = 16" "jid = b64_encode bs"
    using assms unfolding validPrivateControlID_iff by blast
  have c: "CHR ''/'' \<notin> set jid \<and> list_all (\<lambda>c. byte_of c < 128) jid"
    using b64_char_ascii b64_groups_bound unfolding bs(2) b64_encode_groups by (fastforce simp: list_all_iff)
  have l: "length jid = 22" unfolding bs(2) length_b64_encode bs(1) by simp
  then have r: "rune_count jid = 22" using ascii_rune_count c by simp
  have p: "''/v1/recording-jobs/'' = managementAPIVersionPrefix @ ''/recording-jobs/''"
    by (simp add: managementAPIVersionPrefix_def)
  show ?thesis
    unfolding p managementAPIRecordingJobIDFromStopPath_def Let_def
    by (simp only: has_prefix_append trim_prefix_append trim_suffix_append, simp only: append_assoc [symmetric])
      (simp add: has_suffix_append c r del: append_assoc)
qed

text \<open>The route of each path that is not a state resource.\<close>

lemma serve_stop:
  assumes "authenticate cr request sv = Inr service" and "validPrivateControlID jid"
    and "htPath request = ''/v1/recording-jobs/'' @ jid @ ''/stop''"
  shows "ServeHTTP cr env request sv = handleRecordingJobStop request service jid sv"
proof -
  have "htPath request \<noteq> api_path p" if "p \<in> {''/health'', ''/channels'', ''/events'', ''/service-admission-grants'',
      ''/service-admission-revocations'', ''/recording-jobs''}" for p
    using that assms(3) by (auto simp: managementAPIVersionPrefix_def)
  then show ?thesis
    using assms(1) stop_path [OF assms(2)] unfolding ServeHTTP_def Let_def assms(3) by simp
qed

lemma serve_routes:
  assumes "authenticate cr request sv = Inr service"
  shows "htPath request = ''/v1/recording-jobs'' \<Longrightarrow>
      ServeHTTP cr env request sv = handleRecordingJobStart env request service sv"
    "htPath request = ''/v1/service-admission-grants'' \<Longrightarrow>
      ServeHTTP cr env request sv = handleServiceAdmissionGrant cr env request service sv"
    "htPath request = ''/v1/service-admission-revocations'' \<Longrightarrow>
      ServeHTTP cr env request sv = handleServiceAdmissionRevocation env request service sv"
    "htPath request = ''/v1/events'' \<Longrightarrow> ServeHTTP cr env request sv = handleEvents env request service sv"
  using assms by (simp_all add: ServeHTTP_def Let_def managementAPIVersionPrefix_def)

text \<open>
  C16. A request to stop a job, by the path of its identifier, changes nothing and is answered
  with 403 both where the job does not exist and where the service may not manage its channel,
  so the answer does not tell one from the other; otherwise it is accepted, and the job asked
  for, unless it is at its end, is stopping afterwards, and no other job has changed.
\<close>

theorem stop_request_discloses_nothing:
  assumes "authenticate cr request sv = Inr service" and "validPrivateControlID jid"
    and "htPath request = ''/v1/recording-jobs/'' @ jid @ ''/stop''" and "htMethod request = ''POST''"
    and "ServeHTTP cr env request sv = (answer, sv')"
  shows "let jobs = stRecordingJobs (svState sv);
             may = (\<exists>job. job_get jid jobs = Some job \<and> canManageRecordingChannel (Some service) (jobChannelID job))
         in (\<not> may \<longrightarrow> answer = refuse 403 \<and> sv' = sv)
          \<and> (may \<longrightarrow> answer = Answer \<lparr>rsStatus = 202, rsHeaders = no_store, rsBody = []\<rparr>
              \<and> (\<forall>k. job_get k (stRecordingJobs (svState sv')) =
                   (if k = jid then map_option (\<lambda>job. if jobState job \<in> {''stopped'', ''failed''} then job
                                                   else job\<lparr>jobState := ''stopping''\<rparr>) (job_get k jobs)
                    else job_get k jobs)))"
proof -
  let ?jobs = "stRecordingJobs (svState sv)"
  have h: "handleRecordingJobStop request service jid sv = (answer, sv')"
    using assms(5) serve_stop [OF assms(1-3)] by simp
  show ?thesis
  proof (cases "\<exists>job. job_get jid ?jobs = Some job \<and> canManageRecordingChannel (Some service) (jobChannelID job)")
    case False
    then show ?thesis
      using h assms(4) by (auto simp: handleRecordingJobStop_def split: option.splits if_splits)
  next
    case True
    then obtain job js where j: "?jobs = Some js" "job_get jid ?jobs = Some job"
        "canManageRecordingChannel (Some service) (jobChannelID job)"
      by (auto simp: job_get_def split: option.splits)
    obtain r j' where s: "job_stop jid (Some js) = (r, j')" by fastforce
    then obtain js' where js': "j' = Some js'"
      by (auto simp: job_stop_spec split: option.splits if_splits)
    have "answer = Answer \<lparr>rsStatus = 202, rsHeaders = no_store, rsBody = []\<rparr> \<and> sv' = set_jobs (Some js') sv"
      using h assms(4) j s js' by (auto simp: handleRecordingJobStop_def split: if_splits)
    then show ?thesis
      using True job_stop_get [of jid js r js'] s js' j(1) by (auto simp: set_jobs_def Let_def)
  qed
qed

text \<open>
  A recording job is created by POST of an object with a channel the service may manage,
  and only then.  The answer 201 is not to be cached and names the new job; the job starts in
  that channel for that service, and the other jobs are as before.  With any other answer the
  jobs are as they were.
\<close>

theorem start_request_creates:
  assumes "authenticate cr request sv = Inr service" and "htPath request = ''/v1/recording-jobs''"
    and "ServeHTTP cr env request sv = (answer, sv')"
  shows "stRecordingJobs (svState sv') = stRecordingJobs (svState sv)
       \<and> (\<forall>response. answer = Answer response \<longrightarrow> rsStatus response \<in> {400, 403, 405, 503})
     \<or> (\<exists>body raw js. htMethod request = ''POST''
          \<and> decodeManagementAPIRequest fields_job_request zero_job_request (htBody request) = Some body
          \<and> canManageRecordingChannel (Some service) (jrChannelID body) \<and> aeRaw env 16 = Some raw
          \<and> stRecordingJobs (svState sv) = Some js \<and> mlen (jobTable js) < managementRecordingJobLimit
          \<and> answer = Answer (writeJSON no_store 201
              (enc_job_response \<lparr>jpJobID = b64_encode raw, jpState = ''starting''\<rparr>))
          \<and> (\<forall>k. job_get k (stRecordingJobs (svState sv')) =
               (if k = b64_encode raw then Some \<lparr>jobID = b64_encode raw, jobChannelID = jrChannelID body,
                   jobRecorderServiceID = svcID service, jobState = ''starting''\<rparr>
                else job_get k (Some js))))"
proof -
  have h: "handleRecordingJobStart env request service sv = (answer, sv')"
    using assms(3) serve_routes(1) [OF assms(1,2)] by simp
  show ?thesis
  proof (cases "htMethod request = ''POST'' \<and> (\<exists>body.
      decodeManagementAPIRequest fields_job_request zero_job_request (htBody request) = Some body
      \<and> canManageRecordingChannel (Some service) (jrChannelID body))")
    case False
    then have "sv' = sv \<and> (answer = method_not_allowed ''POST'' \<or> answer = refuse 400 \<or> answer = refuse 403)"
      using h by (auto simp: handleRecordingJobStart_def split: if_splits option.splits)
    then show ?thesis by auto
  next
    case True
    then obtain body where b: "htMethod request = ''POST''"
        "decodeManagementAPIRequest fields_job_request zero_job_request (htBody request) = Some body"
        "canManageRecordingChannel (Some service) (jrChannelID body)" by blast
    obtain r j where c: "job_create (aeRaw env 16) (jrChannelID body) (svcID service) (stRecordingJobs (svState sv)) = (r, j)"
      by fastforce
    have jobs: "stRecordingJobs (svState (set_jobs x sv)) = x" for x by (simp add: set_jobs_def)
    show ?thesis
    proof (cases r)
      case (Inl e)
      then have "answer = refuse 503 \<and> sv' = set_jobs j sv" using h b c by (simp add: handleRecordingJobStart_def)
      moreover have "j = stRecordingJobs (svState sv)"
        using c Inl by (auto simp: job_create_def Let_def split: option.splits if_splits)
      ultimately show ?thesis by (simp add: jobs)
    next
      case (Inr job)
      then have a: "answer = Answer (writeJSON no_store 201 (enc_job_response \<lparr>jpJobID = jobID job, jpState = jobState job\<rparr>))"
          "sv' = set_jobs j sv"
        using h b c by (auto simp: handleRecordingJobStart_def)
      obtain raw js where "aeRaw env 16 = Some raw" "stRecordingJobs (svState sv) = Some js"
          "mlen (jobTable js) < managementRecordingJobLimit"
          "job = \<lparr>jobID = b64_encode raw, jobChannelID = jrChannelID body,
                   jobRecorderServiceID = svcID service, jobState = ''starting''\<rparr>"
          "j = Some (js\<lparr>jobTable := mput (b64_encode raw) job (jobTable js)\<rparr>)"
        using c Inr by (auto simp: job_create_def newPrivateControlID_def Let_def split: option.splits if_splits)
      then show ?thesis
        using b a by (intro disjI2 exI [of _ body] exI [of _ raw] exI [of _ js]) (simp add: jobs job_get_def mget_put)
    qed
  qed
qed

section \<open>Grants\<close>

lemma cleanup_tracked: "issuer_inv i \<Longrightarrow> mget (isIssued (cleanupIssuedLocked now i)) k = Some g \<Longrightarrow>
    mget (isIssued i) k = Some g"
  by (auto simp: cleanupIssuedLocked_def issuer_inv_def gomap_ok_mget_filter split: option.splits if_splits)

text \<open>
  C17. A grant is given out by POST only, to a recorder or an operator whose enabled admission
  entry allows what the body asks for, with the answer 201, which is not to be cached; the
  answer holds the signed grant and its expiry, and the grant is tracked from then on under its
  hash.  With any other answer nothing new is tracked.
\<close>

theorem grant_request_answered:
  assumes "authenticate cr request sv = Inr service" and "htPath request = ''/v1/service-admission-grants''"
    and "ServeHTTP cr env request sv = (answer, sv')"
    and "\<And>i. apIssuer (svApi sv) = Some i \<Longrightarrow> issuer_inv i"
  shows "(\<exists>response i'. answer = Answer response \<and> rsStatus response \<in> {400, 403, 405, 503}
          \<and> sv' = set_issuer i' sv
          \<and> (\<forall>i'' k g. i' = Some i'' \<and> mget (isIssued i'') k = Some g \<longrightarrow>
               (\<exists>i. apIssuer (svApi sv) = Some i \<and> mget (isIssued i) k = Some g)))
     \<or> (\<exists>body acl raw i i' claims grant.
          htMethod request = ''POST'' \<and> svcRole service \<in> {''recorder'', ''operator''}
          \<and> decodeManagementAPIRequest fields_grant_request zero_grant_request (htBody request) = Some body
          \<and> admissionACL (Some service) (grChannelID body) (grSenderID body) = Some acl
          \<and> aclEnabled acl \<and> aclAllowListen acl \<and> aclRole acl = grRole body
          \<and> (grRequestTalk body \<longrightarrow> aclAllowTalk acl)
          \<and> (grRequestInterrupt body \<longrightarrow> grRequestTalk body \<and> aclAllowInterrupt acl \<and> aclInterruptPriority acl \<noteq> 0)
          \<and> aeRaw env 24 = Some raw \<and> apIssuer (svApi sv) = Some i \<and> sv' = set_issuer (Some i') sv
          \<and> signServiceAdmissionGrant cr (isPrivateKey i) (isKeyID i) claims = Some grant
          \<and> gcServiceID claims = svcID service \<and> gcChannelID claims = grChannelID body
          \<and> gcSenderID claims = grSenderID body \<and> gcGrantID claims = b64_encode raw
          \<and> answer = Answer (writeJSON no_store 201 (enc_grant_response \<lparr>gpGrant = grant,
              gpExpiresAt = format_rfc3339 (truncate_second (aeNow env) + isLifetime i)\<rparr>))
          \<and> mget (isIssued i') (grant_hash cr (b64_encode raw)) = Some \<lparr>igServiceID = svcID service,
              igChannelID = grChannelID body, igExpiresAt = truncate_second (aeNow env) + isLifetime i\<rparr>)"
proof -
  have h: "handleServiceAdmissionGrant cr env request service sv = (answer, sv')"
    using assms(3) serve_routes(2) [OF assms(1,2)] by simp
  have same: "sv = set_issuer (apIssuer (svApi sv)) sv" by (simp add: set_issuer_def)
  show ?thesis
  proof (cases "htMethod request = ''POST'' \<and> apIssuer (svApi sv) \<noteq> None \<and> svcRole service \<in> {''recorder'', ''operator''}
      \<and> (\<exists>body acl. decodeManagementAPIRequest fields_grant_request zero_grant_request (htBody request) = Some body
        \<and> admissionACL (Some service) (grChannelID body) (grSenderID body) = Some acl)")
    case False
    then have "sv' = sv \<and> (\<exists>n \<in> {400, 403, 503}. answer = method_not_allowed ''POST'' \<or> answer = refuse n)"
      using h by (auto simp: handleServiceAdmissionGrant_def split: if_splits option.splits)
    then have "\<exists>response. answer = Answer response \<and> rsStatus response \<in> {400, 403, 405, 503} \<and> sv' = sv" by auto
    then show ?thesis using same by (metis (no_types, lifting))
  next
    case True
    then obtain body acl i where b: "htMethod request = ''POST''" "apIssuer (svApi sv) = Some i"
        "svcRole service \<in> {''recorder'', ''operator''}"
        "decodeManagementAPIRequest fields_grant_request zero_grant_request (htBody request) = Some body"
        "admissionACL (Some service) (grChannelID body) (grSenderID body) = Some acl" by blast
    obtain r i' where c: "issue cr (aeRaw env 24) (svcID service) acl body (aeNow env) (Some i) = (r, i')" by fastforce
    show ?thesis
    proof (cases r)
      case (Inl e)
      then have "\<exists>n \<in> {400, 503}. answer = refuse n \<and> sv' = set_issuer i' sv"
        using h b c by (cases e) (auto simp: handleServiceAdmissionGrant_def)
      moreover have "i' = Some i \<or> i' = Some (cleanupIssuedLocked (truncate_second (aeNow env)) i)"
        using issue_fails c Inl by blast
      ultimately show ?thesis
        using cleanup_tracked [OF assms(4) [OF b(2)]] b(2)
        by (intro disjI1) (elim bexE conjE, intro exI conjI, assumption, auto)
    next
      case (Inr g)
      obtain grant expires where g: "g = (grant, expires)" by (cases g)
      have a: "answer = Answer (writeJSON no_store 201 (enc_grant_response
          \<lparr>gpGrant = grant, gpExpiresAt = format_rfc3339 expires\<rparr>))" "sv' = set_issuer i' sv"
        using h b c Inr g by (auto simp: handleServiceAdmissionGrant_def)
      from c [unfolded Inr g] show ?thesis
      proof (cases rule: issue_cases)
        case (1 raw publicKey)
        let ?claims = "grant_claims cr i (svcID service) acl body (truncate_second (aeNow env)) (b64_encode raw) publicKey"
        obtain i'' where i'': "i' = Some i''" "mget (isIssued i'') (grant_hash cr (b64_encode raw)) = Some
            \<lparr>igServiceID = svcID service, igChannelID = grChannelID body, igExpiresAt = expires\<rparr>"
          using 1(12) by (simp add: mget_put)
        have "gcServiceID ?claims = svcID service" "gcChannelID ?claims = grChannelID body"
            "gcSenderID ?claims = grSenderID body" "gcGrantID ?claims = b64_encode raw"
          by (simp_all add: grant_claims_def Let_def)
        then show ?thesis
          using b a 1(1,4-9) i'' 1(10)
          by (intro disjI2 exI [of _ body] exI [of _ acl] exI [of _ raw] exI [of _ i] exI [of _ i'']
              exI [of _ ?claims] exI [of _ grant]) simp
      qed
    qed
  qed
qed

section \<open>Revocations\<close>

lemma submit_cases:
  assumes "submit_revocation env raw body cl = (Inr command, cl1)" and "queue_inv cl"
  shows "command_of body command \<and> newPrivateControlID raw = Some (command_id command)
     \<and> clPending cl1 = clPending cl @ [(command_id command, command)]
     \<and> (clStore cl \<longrightarrow> dkStore (clDisk cl1) = Some (store_data (clPending cl1)))"
proof -
  obtain r cl0 where n: "newPendingRevocation raw body cl = (r, cl0)" by fastforce
  then have r: "r = Inr command" "enqueuePendingCommands env [command] cl0 = (None, cl1)"
    using assms(1) by (auto simp: submit_revocation_def enqueuePendingCommand_def split: sum.splits option.splits prod.splits)
  have new: "command_of body command \<and> newPrivateControlID raw = Some (command_id command)
      \<and> clPending cl0 = clPending cl \<and> clStore cl0 = clStore cl \<and> clDisk cl0 = clDisk cl"
    using n by (cases rule: new_pending_cases) (auto simp: r(1) command_of_def)
  from r(2) show ?thesis
    by (cases rule: enqueue_cases) (use new persist_success in auto)
qed

lemma await_answers:
  assumes "await_result ended prefer command cl = (Some (ack, messageID, err), cl')"
  shows "messageID = command_id command"
    "err = None \<Longrightarrow> \<exists>rest. chanBuf (clResults cl ! pcResult command) = \<lparr>crAck = ack, crErr = None\<rparr> # rest"
    "err = Some RevokeContext \<Longrightarrow> ended"
proof -
  have "messageID = command_id command
    \<and> (err = None \<longrightarrow> (\<exists>x rest. chanBuf (clResults cl ! pcResult command) = x # rest \<and> crAck x = ack \<and> crErr x = None))
    \<and> (err = Some RevokeContext \<longrightarrow> ended)"
    using assms by (auto simp: await_result_def chan_recv_def Let_def split: list.splits if_splits)
  then show "messageID = command_id command"
    "err = None \<Longrightarrow> \<exists>rest. chanBuf (clResults cl ! pcResult command) = \<lparr>crAck = ack, crErr = None\<rparr> # rest"
    "err = Some RevokeContext \<Longrightarrow> ended"
    by (metis privateControlCommandResult.surjective old.unit.exhaust)+
qed

text \<open>
  C6. What the answer to a revocation request claims is so.  The answers 200 and 202 are only
  given to a POST of an administrator who holds the permission, for a body that passed the
  check, and then a command with what the body says has been put into the queue and, where there is
  one, into the store.  Moreover 200 only repeats an acknowledgement that arrived for this very
  command, for the deadline the body has, and 202 only says that the deadline of the request
  came first, and names the command.
\<close>

theorem revocation_answer_honest:
  assumes "handleServiceAdmissionRevocation env request service sv = (Answer response, sv')"
    and "rsStatus response \<in> {200, 202}" and "\<And>cl. svRevoker sv = Some cl \<Longrightarrow> queue_inv cl"
  shows "\<exists>body i cl command cl1.
       htMethod request = ''POST'' \<and> svcRole service = ''admin''
     \<and> hasGlobalPermission service managementAPIRevokePermission
     \<and> decodeManagementAPIRequest fields_revocation_request zero_revocation_request (htBody request) = Some body
     \<and> validateServiceAdmissionRevocation (aeNow env) (aeNow' env) body (apIssuer (svApi sv)) = (True, i)
     \<and> svRevoker sv = Some cl \<and> submit_revocation (aeStore env) (aeRaw env 16) body cl = (Inr command, cl1)
     \<and> command_of body command \<and> mget (clPending cl1) (command_id command) = Some command
     \<and> (clStore cl \<longrightarrow> dkStore (clDisk cl1) = Some (store_data (clPending cl1)))
     \<and> (rsStatus response = 200 \<longrightarrow> (\<exists>ack rest.
          chanBuf (clResults (aeMeanwhile env cl1) ! pcResult command) = \<lparr>crAck = ack, crErr = None\<rparr> # rest
          \<and> akDenyUntil ack = rqDenyUntil body
          \<and> response = writeJSON [] 200 (enc_revocation_response \<lparr>rrOutcome = akOutcome ack,
              rrDenyUntil = akDenyUntil ack, rrAffectedMembershipCount = akAffectedMembershipCount ack,
              rrTalkReleaseCount = akTalkReleaseCount ack\<rparr>)))
     \<and> (rsStatus response = 202 \<longrightarrow> aeEnd env = Some DeadlineExceeded
          \<and> response = writeJSON [] 202 (enc_revocation_pending \<lparr>rpStatus = ''pending_relay_ack'',
              rpMessageID = command_id command, rpDenyUntil = rqDenyUntil body\<rparr>))"
  using assms(1)
proof (cases rule: revocation_cases)
  case (queued body i cl command cl1 r cl2)
  obtain ack messageID err where r: "r = Some (ack, messageID, err)"
    using queued(9) by (cases r) auto
  note w = await_answers [OF queued(8) [unfolded r]]
  note q = submit_cases [OF queued(7) assms(3) [OF queued(6)]]
  have a: "Answer response = revocation_answer (aeEnd env) body (ack, command_id command, err)"
    using queued(9) r w(1) by simp
  have "queue_inv cl1"
    using queue_step_inv [OF submit_wait [OF queued(7) decoded_deny [OF queued(4)]]] assms(3) [OF queued(6)] by blast
  then have p: "mget (clPending cl1) (command_id command) = Some command"
    using q mget_in_set by (fastforce simp: queue_inv_def pending_ok_def)
  have ok: "rsStatus response = 200 \<Longrightarrow> err = None \<and> akDenyUntil ack = rqDenyUntil body
        \<and> response = writeJSON [] 200 (enc_revocation_response \<lparr>rrOutcome = akOutcome ack,
              rrDenyUntil = akDenyUntil ack, rrAffectedMembershipCount = akAffectedMembershipCount ack,
              rrTalkReleaseCount = akTalkReleaseCount ack\<rparr>)"
    using a by (auto simp: revocation_answer_def split: option.splits if_splits)
  have pend: "rsStatus response = 202 \<Longrightarrow> aeEnd env = Some DeadlineExceeded
          \<and> response = writeJSON [] 202 (enc_revocation_pending \<lparr>rpStatus = ''pending_relay_ack'',
              rpMessageID = command_id command, rpDenyUntil = rqDenyUntil body\<rparr>)"
    using a by (auto simp: revocation_answer_def split: option.splits if_splits)
  show ?thesis
    using queued(1-7) q p ok pend w(2)
    by (intro exI [of _ body] exI [of _ i] exI [of _ cl] exI [of _ command] exI [of _ cl1]) blast
qed (use assms(2) in auto)

end
