(* ===== verification/Event_Streams.thy ===== *)
theory Event_Streams
  imports Api_Effects
begin

text \<open>
  The event streams of the Management API (\<open>management_events.go\<close>, lines 101 to 162): the
  frames against a client that follows the format of server-sent events, and the loop that
  writes them.
\<close>

section \<open>A client of the stream\<close>

text \<open>
  The reading side as the standard has it.  Lines end at CR LF, LF or CR; what follows the
  last line end is not a line.
\<close>

fun sse_lines :: "string \<Rightarrow> string \<Rightarrow> string list" where
  "sse_lines line [] = []"
| "sse_lines line (c # s) =
     (if c = CHR 0x0A \<or> c = CHR 0x0D \<and> (s = [] \<or> hd s \<noteq> CHR 0x0A) then line # sse_lines [] s
      else if c = CHR 0x0D then sse_lines line s
      else sse_lines (line @ [c]) s)"

text \<open>
  The messages of the lines, as identifier, type and data: an empty line ends a message, which
  is dropped without data, and a line that begins with a colon is a comment.
\<close>

fun sse_messages ::
  "string list \<Rightarrow> string \<Rightarrow> string \<Rightarrow> string \<Rightarrow> (string \<times> string \<times> string) list" where
  "sse_messages [] ident type data = []"
| "sse_messages (line # lines) ident type data =
     (if line = [] then
        (if data = [] then sse_messages lines ident [] []
         else (ident, if type = [] then ''message'' else type, butlast data) # sse_messages lines ident [] [])
      else if hd line = CHR '':'' then sse_messages lines ident type data
      else
        let name = takeWhile (\<lambda>c. c \<noteq> CHR '':'') line;
            rest = drop 1 (dropWhile (\<lambda>c. c \<noteq> CHR '':'') line);
            val = (if rest \<noteq> [] \<and> hd rest = CHR '' '' then tl rest else rest)
        in if name = ''id'' then sse_messages lines val type data
           else if name = ''event'' then sse_messages lines ident val data
           else if name = ''data'' then sse_messages lines ident type (data @ val @ [CHR 0x0A])
           else sse_messages lines ident type data)"

definition sse_parse :: "string \<Rightarrow> (string \<times> string \<times> string) list" where
  "sse_parse s = sse_messages (sse_lines [] s) [] [] []"

abbreviation one_line :: "string \<Rightarrow> bool" where
  "one_line s \<equiv> CHR 0x0A \<notin> set s \<and> CHR 0x0D \<notin> set s"

lemma sse_lines_line: "one_line l \<Longrightarrow> sse_lines p (l @ CHR 0x0A # s) = (p @ l) # sse_lines [] s"
  by (induction l arbitrary: p) auto

lemma sse_lines_blank: "sse_lines [] (CHR 0x0A # s) = [] # sse_lines [] s"
  by simp

section \<open>No frame breaks its lines\<close>

lemma rune_bytes:
  "rune_head (c # s) = (n, True) \<Longrightarrow> \<not> byte_of c < 128 \<Longrightarrow> x \<in> set (take n (c # s)) \<Longrightarrow> 128 \<le> byte_of x"
  by (auto simp: rune_head.simps(2) in_range_def second_ok_def split: list.splits if_splits)

lemma hex_digit_plain:
  assumes "n < 16"
  shows "hex_digit n \<noteq> CHR 0x0A" "hex_digit n \<noteq> CHR 0x0D" "CHR 0x0A \<noteq> hex_digit n" "CHR 0x0D \<noteq> hex_digit n"
proof -
  have "hex_val CHR 0x0A = None" "hex_val CHR 0x0D = None" by (simp_all add: hex_val_def is_digit_def)
  then show "hex_digit n \<noteq> CHR 0x0A" "hex_digit n \<noteq> CHR 0x0D" "CHR 0x0A \<noteq> hex_digit n" "CHR 0x0D \<noteq> hex_digit n"
    using hex_digit_val [OF assms] by fastforce+
qed

lemma escape_one_line: "one_line (escape s)"
proof (induction s rule: escape.induct)
  case (2 c s)
  show ?case
  proof (cases "byte_of c < 128")
    case True
    then have "byte_of c div 16 < 16" "byte_of c mod 16 < 16" by simp_all
    then have "one_line (escape_ascii c)"
      by (auto simp: escape_ascii_def hex_digit_plain)
    then show ?thesis using True 2(1) by (simp add: escape.simps(2))
  next
    case False
    obtain n ok where h: "rune_head (c # s) = (n, ok)" by fastforce
    have "one_line (take n (c # s))" if ok
    proof -
      have "x \<noteq> CHR 0x0A \<and> x \<noteq> CHR 0x0D" if "x \<in> set (take n (c # s))" for x
        using rune_bytes [of c s n x] h False that \<open>ok\<close> by auto
      then show ?thesis by blast
    qed
    then show ?thesis using False h 2(2) by (auto simp: escape.simps(2))
  qed
qed simp

lemma quote_one_line: "one_line (quote_string s)"
  using escape_one_line by (simp add: quote_string_def)

lemma digits_one_line: "list_all is_digit s \<Longrightarrow> one_line s"
  by (auto simp: list_all_iff is_digit_def)

lemma commas_one_line: "\<forall>x \<in> set xs. one_line x \<Longrightarrow> one_line (commas xs)"
  by (induction xs rule: commas.induct) auto

lemma dec_one_line [simp]: "one_line (word_to_dec w)"
  using digits_one_line [OF nat_to_dec_digits] by (simp add: word_to_dec_def)

lemma value_one_line [simp]: "one_line (json_print JNull)" "one_line (json_print (JStr s))"
    "one_line (json_print (enc_word w))" "one_line (json_print (JBool b))"
  using quote_one_line by (auto simp: enc_word_def)

lemma object_one_line:
  assumes "\<forall>m \<in> set ms. one_line (json_print (snd m))"
  shows "one_line (json_print (JObj ms))"
proof -
  have "\<forall>x \<in> set (map json_member ms). one_line x"
    using assms quote_one_line by (auto simp: json_member_def)
  then show ?thesis unfolding json_print_obj using commas_one_line by simp
qed

lemma event_one_line: "one_line (json_print (enc_event e))"
  unfolding enc_event_def
  by (rule object_one_line)
    (auto simp: enc_ptr_def omit_nil_def simp del: json_print.simps split: option.splits)

section \<open>Reading a stream back\<close>

lemma valid_event_type: "validPrivateControlLifecycleEvent members input \<Longrightarrow>
    leEventType input \<in> set privateControlLifecycleEventTypes"
  by (simp add: validPrivateControlLifecycleEvent_def split: if_splits)

lemma event_type_plain: "t \<in> set privateControlLifecycleEventTypes \<Longrightarrow> one_line t \<and> t \<noteq> []"
  by (auto simp: privateControlLifecycleEventTypes_def)

lemma sse_fields:
  "sse_messages ((''id: '' @ x) # lines) ident type data = sse_messages lines x type data"
  "sse_messages ((''event: '' @ x) # lines) ident type data = sse_messages lines ident x data"
  "sse_messages ((''data: '' @ x) # lines) ident type data = sse_messages lines ident type (data @ x @ [CHR 0x0A])"
  by (simp_all add: Let_def)

lemma sse_dispatch: "t \<noteq> [] \<Longrightarrow>
    sse_messages ([] # lines) ident t (x @ [CHR 0x0A]) = (ident, t, x) # sse_messages lines ident [] []"
  by simp

lemma frame_parsed:
  assumes "evType e \<in> set privateControlLifecycleEventTypes" and "one_line (evEventID e)"
  shows "sse_messages (sse_lines [] (writeManagementSSEEvent e @ s)) ident [] []
     = (evEventID e, evType e, json_print (enc_event e)) # sse_messages (sse_lines [] s) (evEventID e) [] []"
proof -
  have l: "one_line (''id: '' @ evEventID e)" "one_line (''event: '' @ evType e)"
      "one_line (''data: '' @ json_print (enc_event e))" "one_line []"
    using assms event_type_plain event_one_line by auto
  have w: "writeManagementSSEEvent e @ s = (''id: '' @ evEventID e) @ newline # (''event: '' @ evType e) @ newline
      # (''data: '' @ json_print (enc_event e)) @ newline # [] @ newline # s"
    unfolding writeManagementSSEEvent_def append_assoc by simp
  have "sse_lines [] (writeManagementSSEEvent e @ s) = (''id: '' @ evEventID e) # (''event: '' @ evType e)
      # (''data: '' @ json_print (enc_event e)) # [] # sse_lines [] s"
    unfolding w l(1-3) [THEN sse_lines_line] append_Nil sse_lines_blank ..
  moreover have "evType e \<noteq> []" using assms(1) event_type_plain by blast
  ultimately show ?thesis
    by (simp only: sse_fields sse_dispatch append_Nil not_False_eq_True)
qed

lemma frames_parsed:
  "\<forall>e \<in> set es. evType e \<in> set privateControlLifecycleEventTypes \<and> one_line (evEventID e) \<Longrightarrow>
   sse_messages (sse_lines [] (concat (map writeManagementSSEEvent es))) ident [] []
     = map (\<lambda>e. (evEventID e, evType e, json_print (enc_event e))) es"
proof (induction es arbitrary: ident)
  case (Cons e es)
  then show ?case by (simp add: frame_parsed del: sse_lines.simps)
qed simp

text \<open>
  C25. Whatever strings the Relay has put into them, events that were published from valid
  lifecycle events are read back by a standard client of the stream as they were written: one
  message for each, in order, with its identifier, its type and its JSON text.
\<close>

theorem stream_roundtrip:
  assumes "\<forall>e \<in> set es. \<exists>n input members. e = event_of n input \<and> validPrivateControlLifecycleEvent members input"
  shows "sse_parse (stream_start @ concat (map writeManagementSSEEvent es))
     = map (\<lambda>e. (evEventID e, evType e, json_print (enc_event e))) es"
proof -
  have "evType e \<in> set privateControlLifecycleEventTypes \<and> one_line (evEventID e)" if "e \<in> set es" for e
    using assms that valid_event_type by (fastforce simp: event_of_def)
  then have "sse_messages (sse_lines [] (concat (map writeManagementSSEEvent es))) [] [] []
      = map (\<lambda>e. (evEventID e, evType e, json_print (enc_event e))) es"
    by (intro frames_parsed) blast
  moreover have "sse_lines [] (stream_start @ s) = '': connected'' # [] # sse_lines [] s" for s
    by (simp add: stream_start_def)
  ultimately show ?thesis by (simp add: sse_parse_def del: sse_lines.simps)
qed

section \<open>What a stream carries\<close>

lemma event_loop_permitted:
  assumes "event_loop tus service ref sv = (out, closed, sv')"
  shows "\<exists>es. out = concat (map writeManagementSSEEvent es) \<and> (\<forall>e \<in> set es. canReceiveEvent service e)"
  using assms
proof (induction tus arbitrary: sv out closed sv')
  case (Cons tu tus)
  define s1 where "s1 = etMeanwhile tu sv"
  have nil: ?case if "out = []" using that by (intro exI [of _ "[]"]) simp
  show ?case
  proof (cases "etDone tu \<or> stLiveEvents (svState s1) = None")
    case True
    then show ?thesis using Cons.prems nil by (auto simp: s1_def Let_def split: if_splits)
  next
    case False
    then obtain h where h: "\<not> etDone tu" "stLiveEvents (svState s1) = Some h" by blast
    obtain r h' where r: "receive_event ref h = (r, h')" by fastforce
    obtain o1 c1 t1 where l1: "event_loop tus service ref s1 = (o1, c1, t1)" by (metis prod_cases3)
    obtain o2 c2 t2 where l2: "event_loop tus service ref (set_hub h' s1) = (o2, c2, t2)" by (metis prod_cases3)
    have "out \<in> {[], o1, o2} \<or> (\<exists>e. canReceiveEvent service e \<and> out = writeManagementSSEEvent e @ o2)"
      using Cons.prems h r l1 l2 by (cases r) (auto simp: s1_def [symmetric] Let_def split: if_splits)
    then show ?thesis
    proof (elim disjE exE conjE)
      fix e assume e: "canReceiveEvent service e" "out = writeManagementSSEEvent e @ o2"
      obtain es where "o2 = concat (map writeManagementSSEEvent es)" "\<forall>e \<in> set es. canReceiveEvent service e"
        using Cons.IH [OF l2] by blast
      then show ?thesis using e by (intro exI [of _ "e # es"]) simp
    next
      assume "out \<in> {[], o1, o2}"
      then show ?thesis using nil Cons.IH [OF l1] Cons.IH [OF l2] by blast
    qed
  qed
qed (auto intro: exI [of _ "[]"])


text \<open>
  The channel of a subscriber, and what a reader takes from a channel that is fed in turns: one
  event a turn, where there is one.
\<close>

definition chan_at :: "nat \<Rightarrow> server \<Rightarrow> managementEvent chan option" where
  "chan_at ref sv =
     (case stLiveEvents (svState sv) of None \<Rightarrow> None
      | Some h \<Rightarrow> if ref < length (hubChans h) then Some (hubChans h ! ref) else None)"

fun drain :: "'a list \<Rightarrow> 'a list list \<Rightarrow> 'a list \<times> 'a list" where
  "drain buf [] = ([], buf)"
| "drain buf (new # news) =
     (case buf @ new of
        [] \<Rightarrow> drain [] news
      | e # buf' \<Rightarrow> (case drain buf' news of (got, left) \<Rightarrow> (e # got, left)))"

lemma drain_keeps: "drain buf news = (got, left) \<Longrightarrow> got @ left = buf @ concat news"
proof (induction buf news arbitrary: got left rule: drain.induct)
  case (2 buf new news)
  show ?case
  proof (cases "buf @ new")
    case none: Nil
    then show ?thesis using 2(1) [OF none] 2(3) by simp
  next
    case some: (Cons e buf')
    obtain got' left' where d: "drain buf' news = (got', left')" by fastforce
    then have "got' @ left' = buf' @ concat news" "got = e # got'" "left = left'"
      using 2(2) [OF some] 2(3) some by simp_all
    then have "got @ left = (buf @ new) @ concat news" unfolding some by simp
    then show ?thesis by simp
  qed
qed simp


end
