(* ===== verification/Service.thy ===== *)
theory Service
  imports Api_Commands Event_Streams
begin

text \<open>
  The process (\<open>main.go\<close>): its configuration, its construction, the local probes, and the
  steps of its goroutines on the state they share.
\<close>

section \<open>Configuration\<close>

record configuration =
  cgControl :: privateControlClientConfig
  cgHTTPListen :: string
  cgAPI :: managementAPIConfig

definition valueOrDefault :: "string \<Rightarrow> string \<Rightarrow> string" where
  "valueOrDefault val fallback = (if val = [] then fallback else val)"

text \<open>
  \<open>getenv\<close> gives the empty string for an unset variable; \<open>given\<close> has the values of the flags of
  the command line, which \<open>flag.Parse\<close> has accepted.
\<close>

definition flag_value :: "(string \<Rightarrow> string option) \<Rightarrow> string \<Rightarrow> string \<Rightarrow> string" where
  "flag_value given name preset = (case given name of None \<Rightarrow> preset | Some v \<Rightarrow> v)"

definition loadConfiguration :: "(string \<Rightarrow> string) \<Rightarrow> (string \<Rightarrow> string option) \<Rightarrow> configuration" where
  "loadConfiguration getenv given =
     \<lparr>cgControl =
        \<lparr>cfTransport = flag_value given ''pcl-transport'' (getenv ''INCOMUDON_MANAGEMENT_PCL_TRANSPORT''),
         cfRelayAddress = flag_value given ''pcl-relay-address'' (getenv ''INCOMUDON_MANAGEMENT_PCL_RELAY_ADDRESS''),
         cfUdsSocketPath = flag_value given ''pcl-uds-socket-path'' (getenv ''INCOMUDON_MANAGEMENT_PCL_UDS_SOCKET_PATH''),
         cfServerName = flag_value given ''pcl-server-name'' (getenv ''INCOMUDON_MANAGEMENT_PCL_SERVER_NAME''),
         cfServiceID = flag_value given ''pcl-service-id'' (getenv ''INCOMUDON_MANAGEMENT_PCL_SERVICE_ID''),
         cfCertificateFile = flag_value given ''pcl-cert-file'' (getenv ''INCOMUDON_MANAGEMENT_PCL_CERT_FILE''),
         cfPrivateKeyFile = flag_value given ''pcl-key-file'' (getenv ''INCOMUDON_MANAGEMENT_PCL_KEY_FILE''),
         cfRelayCAFile = flag_value given ''pcl-relay-ca-file'' (getenv ''INCOMUDON_MANAGEMENT_PCL_RELAY_CA_FILE''),
         cfCommandStoreFile = flag_value given ''pcl-command-store-file''
           (getenv ''INCOMUDON_MANAGEMENT_PCL_COMMAND_STORE_FILE'')\<rparr>,
      cgHTTPListen = flag_value given ''http-listen''
        (valueOrDefault (getenv ''INCOMUDON_MANAGEMENT_HTTP_LISTEN'') '':8080''),
      cgAPI =
        \<lparr>acListen = flag_value given ''api-listen'' (getenv ''INCOMUDON_MANAGEMENT_API_LISTEN''),
         acCertificateFile = flag_value given ''api-cert-file'' (getenv ''INCOMUDON_MANAGEMENT_API_CERT_FILE''),
         acPrivateKeyFile = flag_value given ''api-key-file'' (getenv ''INCOMUDON_MANAGEMENT_API_KEY_FILE''),
         acClientCAFile = flag_value given ''api-client-ca-file'' (getenv ''INCOMUDON_MANAGEMENT_API_CLIENT_CA_FILE''),
         acServicesFile = flag_value given ''api-services-file'' (getenv ''INCOMUDON_MANAGEMENT_API_SERVICES_FILE''),
         acChannelACLFile = flag_value given ''api-channel-acl-file''
           (getenv ''INCOMUDON_MANAGEMENT_API_CHANNEL_ACL_FILE''),
         acGlobalPermissionsFile = flag_value given ''api-global-permissions-file''
           (getenv ''INCOMUDON_MANAGEMENT_API_GLOBAL_PERMISSIONS_FILE''),
         acGrantSigningKeyFile = flag_value given ''grant-signing-key-file''
           (getenv ''INCOMUDON_MANAGEMENT_GRANT_SIGNING_KEY_FILE''),
         acGrantKeyID = flag_value given ''grant-key-id'' (getenv ''INCOMUDON_MANAGEMENT_GRANT_KEY_ID''),
         acGrantIssuer = flag_value given ''grant-issuer'' (getenv ''INCOMUDON_MANAGEMENT_GRANT_ISSUER''),
         acGrantAudience = flag_value given ''grant-audience'' (getenv ''INCOMUDON_MANAGEMENT_GRANT_AUDIENCE''),
         acGrantTTLSeconds = flag_value given ''grant-ttl-seconds'' (getenv ''INCOMUDON_MANAGEMENT_GRANT_TTL_SECONDS''),
         acEventDelivery = flag_value given ''api-event-delivery''
           (valueOrDefault (getenv ''INCOMUDON_MANAGEMENT_API_EVENT_DELIVERY'') managementAPIEventDeliveryDisabled),
         acAclReloadInterval = flag_value given ''api-acl-reload-interval''
           (valueOrDefault (getenv ''INCOMUDON_MANAGEMENT_API_ACL_RELOAD_INTERVAL'') ''5s'')\<rparr>\<rparr>"

section \<open>Construction\<close>

text \<open>
  What the goroutines share: the state, the client and the API, with the snapshot a session is
  putting together.
\<close>

record process =
  prState :: managementState
  prClient :: privateControlClient
  prAPI :: "managementAPI option"
  prSnapshot :: "privateControlSnapshotReassembly option"

datatype start_error = BadControl client_error | BadAPI api_error

definition start_process ::
  "tls_files \<Rightarrow> key_files \<Rightarrow> (nat \<Rightarrow> nat \<Rightarrow> nat \<Rightarrow> nat) \<Rightarrow> environment \<Rightarrow> int \<Rightarrow> configuration \<Rightarrow> disk
   \<Rightarrow> start_error + process" where
  "start_process files kf frac env now config dk =
     (case newPrivateControlClient files env now (cgControl config) dk of
        (Inl e, _) \<Rightarrow> Inl (BadControl e)
      | (Inr client, _) \<Rightarrow>
          (case newManagementAPI files kf frac (cgAPI config) (Some newManagementState) of
             (Inl e, _) \<Rightarrow> Inl (BadAPI e)
           | (Inr api, state) \<Rightarrow>
               Inr \<lparr>prState = (case state of None \<Rightarrow> newManagementState | Some st \<Rightarrow> st),
                    prClient = client, prAPI = api, prSnapshot = None\<rparr>))"

section \<open>The probes\<close>

definition enc_status_value :: "status_value \<Rightarrow> json" where
  "enc_status_value v =
     (case v of StatusText s \<Rightarrow> JStr s | StatusTime t \<Rightarrow> JStr (format_rfc3339 t) | StatusCount n \<Rightarrow> enc_int (int n))"

text \<open>The encoder sorts the keys of a map.\<close>

definition enc_status :: "(string, status_value) gomap \<Rightarrow> json" where
  "enc_status m = JObj (sort_key fst (map (\<lambda>(k, v). (k, enc_status_value v)) m))"

definition healthz :: "string \<Rightarrow> managementState \<Rightarrow> http_response" where
  "healthz method state =
     (if method \<noteq> ''GET'' then \<lparr>rsStatus = 405, rsHeaders = [], rsBody = []\<rparr>
      else writeJSON [] 200 (enc_status (state_snapshot state)))"

text \<open>The two reads of the state are two steps.\<close>

definition readyz :: "string \<Rightarrow> managementState \<Rightarrow> managementState \<Rightarrow> http_response" where
  "readyz method state later =
     (if method \<noteq> ''GET'' then \<lparr>rsStatus = 405, rsHeaders = [], rsBody = []\<rparr>
      else
        let snapshot = state_snapshot state;
            status = (if managementAPIChannelState later \<noteq> None then 200 else 503)
        in writeJSON [] status (enc_status snapshot))"

end
