(* ===== verification/Service_Runs.thy ===== *)
theory Service_Runs
  imports Service
begin

text \<open>
  The runs of the process: the steps of the request handlers, of the session, of the reloading
  and of the waiting handlers, in any order, and what holds in every state they reach.
\<close>

section \<open>Steps\<close>

definition server_of :: "process \<Rightarrow> managementAPI \<Rightarrow> server" where
  "server_of p api = \<lparr>svState = prState p, svApi = api, svRevoker = Some (prClient p)\<rparr>"

definition put_server :: "server \<Rightarrow> process \<Rightarrow> process" where
  "put_server sv p =
     p\<lparr>prState := svState sv, prAPI := Some (svApi sv),
       prClient := (case svRevoker sv of None \<Rightarrow> prClient p | Some cl \<Rightarrow> cl)\<rparr>"

definition session_of_process :: "process \<Rightarrow> session" where
  "session_of_process p = \<lparr>snState = prState p, snClient = prClient p, snSnapshot = prSnapshot p\<rparr>"

definition put_session :: "session \<Rightarrow> process \<Rightarrow> process" where
  "put_session s p = p\<lparr>prState := snState s, prClient := snClient s, prSnapshot := snSnapshot s\<rparr>"

text \<open>
  A request runs up to where it waits; the turns of its stream and the end of its wait are steps
  of their own.
\<close>

definition alone :: "api_env \<Rightarrow> bool" where
  "alone env \<longleftrightarrow> (\<forall>n bs. aeRaw env n = Some bs \<longrightarrow> length bs = n) \<and> aeMeanwhile env = id \<and> aeTurns env = []"

inductive service_step :: "process \<Rightarrow> process \<Rightarrow> bool" where
  request: "prAPI p = Some api \<Longrightarrow> alone env \<Longrightarrow>
     ServeHTTP cr env req (server_of p api) = (answer, sv) \<Longrightarrow> service_step p (put_server sv p)"
| stream_turn: "prAPI p = Some api \<Longrightarrow> etMeanwhile tu = id \<Longrightarrow>
     event_loop [tu] service ref (server_of p api) = (out, closed, sv) \<Longrightarrow> service_step p (put_server sv p)"
| stream_end: "stLiveEvents (prState p) = Some h \<Longrightarrow> unsubscribe sid h = Inr h' \<Longrightarrow>
     service_step p (p\<lparr>prState := (prState p)\<lparr>stLiveEvents := Some h'\<rparr>\<rparr>)"
| wait_over: "await_result ended done_first command (prClient p) = (r, cl) \<Longrightarrow> service_step p (p\<lparr>prClient := cl\<rparr>)"
| reload: "prAPI p = Some api \<Longrightarrow> now + managementAPIAutomaticRevocationDenyWindow < 2 ^ 63 \<Longrightarrow>
     reloadAuthorizer env raws now f1 f2 f3 (apAuthorizer api) (Some (prClient p)) = (n, a, Some cl) \<Longrightarrow>
     service_step p (p\<lparr>prAPI := Some (api\<lparr>apAuthorizer := a\<rparr>), prClient := cl\<rparr>)"
| connect: "handshake lk (session_of_process p) = (r, out, s) \<Longrightarrow> service_step p (put_session s p)"
| send_one: "send_command env now command answers sent (prClient p) = (e, out, answers', sent', cl) \<Longrightarrow>
     service_step p (p\<lparr>prClient := cl\<rparr>)"
| notified: "chan_recv (clNotify (prClient p)) = (Received u, c) \<Longrightarrow>
     service_step p (p\<lparr>prClient := (prClient p)\<lparr>clNotify := c\<rparr>\<rparr>)"
| message: "handleSessionMessage env now raw q (session_of_process p) = (e, s) \<Longrightarrow> service_step p (put_session s p)"
| disconnect: "service_step p (p\<lparr>prState := markDisconnected (prState p)\<rparr>)"

section \<open>The invariant\<close>

definition state_inv :: "managementState \<Rightarrow> bool" where
  "state_inv s \<longleftrightarrow> channels_ok (stChannels s)
     \<and> (\<forall>h. stLiveEvents s = Some h \<longrightarrow> table_ok h) \<and> (\<forall>js. stRecordingJobs s = Some js \<longrightarrow> jobs_ok js)"

definition api_inv :: "managementAPI \<Rightarrow> bool" where
  "api_inv api \<longleftrightarrow> authorizer_ok (apAuthorizer api) \<and> (\<forall>i. apIssuer api = Some i \<longrightarrow> issuer_inv i)"

definition process_inv :: "process \<Rightarrow> bool" where
  "process_inv p \<longleftrightarrow> state_inv (prState p) \<and> queue_inv (prClient p) \<and> (\<forall>api. prAPI p = Some api \<longrightarrow> api_inv api)"

text \<open>The channel map stays a map of maps.\<close>

lemma channels_ok_Nil [simp]: "channels_ok []"
  by (simp add: channels_ok_def)

lemma channels_ok_put: "channels_ok chs \<Longrightarrow> gomap_ok ps \<Longrightarrow> channels_ok (mput c ps chs)"
  unfolding channels_ok_def by (auto simp: set_mput)

lemma channels_ok_del: "channels_ok chs \<Longrightarrow> channels_ok (mdel c chs)"
  unfolding channels_ok_def by (auto simp: set_mdel)

lemma channels_ok_get: "channels_ok chs \<Longrightarrow> mget chs c = Some ps \<Longrightarrow> gomap_ok ps"
  by (auto simp: channels_ok_def dest: map_of_SomeD)

lemma channels_ok_at: "channels_ok chs \<Longrightarrow> gomap_ok (case mget chs c of None \<Rightarrow> [] | Some ps \<Rightarrow> ps)"
  by (auto split: option.split dest: channels_ok_get)

lemma gomap_ok_one: "gomap_ok [x]"
  by (simp add: gomap_ok_def)

lemma channels_ok_event: "channels_ok chs \<Longrightarrow> channels_ok (update_participants e chs)"
  by (auto simp: update_participants_def Let_def intro!: channels_ok_put channels_ok_del gomap_ok_one
      dest: channels_ok_get split: option.split)

lemma participants_ok: "gomap_ok m \<Longrightarrow> gomap_ok (project_participants ps m)"
  by (induction ps m rule: project_participants.induct) simp_all

lemma channels_ok_project: "channels_ok proj \<Longrightarrow> channels_ok (project_channels cs proj)"
  by (induction cs proj rule: project_channels.induct) (simp_all add: channels_ok_put participants_ok channels_ok_at)

lemma snapshot_inv: "state_inv s \<Longrightarrow> state_inv (applyRelayStateSnapshot cs now s)"
  by (simp add: state_inv_def applyRelayStateSnapshot_def channels_ok_project)

lemma connected_inv: "state_inv s \<Longrightarrow> state_inv (markConnected r now s)"
  by (simp add: state_inv_def markConnected_def)

lemma event_inv:
  assumes "state_inv s" and "recordLifecycleEvent e now s = Inr s'"
  shows "state_inv s'"
proof -
  have "jobs_ok js" if "stRecordingJobs s' = Some js" for js
  proof -
    have "applyLifecycleEvent e (stRecordingJobs s) = Some js"
      using that recordLifecycleEvent_fields(5) [OF assms(2)] by simp
    moreover from applyLifecycleEvent_Some [OF this] obtain j where "stRecordingJobs s = Some j" ..
    ultimately show ?thesis using assms(1) applyLifecycleEvent_ok by (auto simp: state_inv_def)
  qed
  moreover have "table_ok h" if h: "stLiveEvents s' = Some h" for h
  proof -
    obtain h0 where h0: "stLiveEvents s = Some h0" "publish e h0 = Inr h"
      using assms(2) h by (auto simp: recordLifecycleEvent_def Let_def split: option.splits sum.splits)
    then show ?thesis
      using hub_table.step_inv [OF _ step_publish [OF h0(2)]] assms(1) by (simp add: state_inv_def)
  qed
  moreover have "channels_ok (stChannels s')"
    using recordLifecycleEvent_fields(3) [OF assms(2)] assms(1) channels_ok_event by (simp add: state_inv_def)
  ultimately show ?thesis by (simp add: state_inv_def)
qed

text \<open>What a request, or a turn of a stream, keeps.\<close>

lemma effect_inv:
  assumes "api_effect (server_of p api) sv" and "process_inv p" and "prAPI p = Some api"
  shows "process_inv (put_server sv p)"
proof -
  have e: "opt_steps hub_step (stLiveEvents (prState p)) (stLiveEvents (svState sv))"
      "opt_steps jobs_step (stRecordingJobs (prState p)) (stRecordingJobs (svState sv))"
      "opt_steps issuer_op (apIssuer api) (apIssuer (svApi sv))"
      "opt_steps client_step (Some (prClient p)) (svRevoker sv)"
      "stChannels (svState sv) = stChannels (prState p)" "apAuthorizer (svApi sv) = apAuthorizer api"
    using assms(1) unfolding api_effect_def server_of_def by auto
  have kept: "P y" if o: "opt_steps step x (Some y)" and start: "\<And>a. x = Some a \<Longrightarrow> P a"
      and step: "\<And>a b. step a b \<Longrightarrow> P a \<Longrightarrow> P b"
    for step :: "'x \<Rightarrow> 'x \<Rightarrow> bool" and x y P
  proof -
    obtain a where "x = Some a" "step\<^sup>*\<^sup>* a y" using o by (cases x) simp_all
    from this(2) start [OF this(1)] show ?thesis by (induction rule: rtranclp_induct) (auto intro: step)
  qed
  have "table_ok h" if "stLiveEvents (svState sv) = Some h" for h
    by (rule kept [OF e(1) [unfolded that]])
      (use assms(2) hub_table.step_inv in \<open>auto simp: process_inv_def state_inv_def\<close>)
  moreover have "jobs_ok j" if "stRecordingJobs (svState sv) = Some j" for j
    by (rule kept [OF e(2) [unfolded that]])
      (use assms(2) jobs_step_ok in \<open>auto simp: process_inv_def state_inv_def\<close>)
  moreover have "issuer_inv i" if "apIssuer (svApi sv) = Some i" for i
    by (rule kept [OF e(3) [unfolded that]])
      (use assms(2,3) issuer_op_inv in \<open>auto simp: process_inv_def api_inv_def\<close>)
  moreover have "queue_inv cl" if "svRevoker sv = Some cl" for cl
    by (rule kept [OF e(4) [unfolded that]]) (use assms(2) client_step_inv in \<open>auto simp: process_inv_def\<close>)
  ultimately show ?thesis
    using assms(2,3) e(5,6) by (auto simp: process_inv_def state_inv_def api_inv_def put_server_def split: option.split)
qed

lemma alone_ok: "alone env \<Longrightarrow> env_ok env"
  by (simp add: alone_def env_ok_def)

text \<open>What a reload keeps.\<close>

lemma reload_inv:
  assumes "reloadAuthorizer env raws now f1 f2 f3 previous (Some cl) = (n, a, Some cl')"
    and "authorizer_ok previous" and "queue_inv cl" and "now + managementAPIAutomaticRevocationDenyWindow < 2 ^ 63"
  shows "authorizer_ok a \<and> queue_inv cl'"
proof (cases "loadManagementAPIAuthorizer f1 f2 f3")
  case (Inl e)
  then have "a = previous \<and> cl' = cl" using assms(1) by (simp add: reloadAuthorizer_def)
  then show ?thesis using assms by simp
next
  case (Inr replacement)
  let ?targets = "managementAutomaticRevocations previous replacement"
  let ?requests = "map (revocation_request (now + managementAPIAutomaticRevocationDenyWindow)) ?targets"
  obtain e q where q: "queueServiceAdmissionRevocations env raws ?requests cl = (e, q)" by fastforce
  have "\<forall>r \<in> set ?requests. rqDenyUntil r < 2 ^ 63" using assms(4) by (auto simp: revocation_request_def)
  then have "queue_inv q" using batch_inv [OF assms(3) q] by blast
  moreover have "(a = previous \<or> a = replacement) \<and> (cl' = cl \<or> cl' = q)"
    using assms(1) Inr q by (auto simp: reloadAuthorizer_def Let_def split: if_splits option.splits)
  ultimately show ?thesis using assms(2,3) loaded_authorizer_ok [OF Inr] by auto
qed

text \<open>What a message of the Relay keeps.\<close>

lemma message_inv:
  assumes "handleSessionMessage env now raw q s = (e, s')" and "state_inv (snState s)" and "queue_inv (snClient s)"
  shows "state_inv (snState s') \<and> queue_inv (snClient s')"
  using assms(1)
proof (cases rule: handle_message_cases)
  case event
  then show ?thesis using assms(2,3) event_inv by (cases rule: handle_event_cases) auto
next
  case snapshot
  then show ?thesis
  proof (cases rule: handle_snapshot_cases)
    case (chunk response r0 res r)
    then show ?thesis using assms(2,3) snapshot_inv by (cases res) auto
  qed (use assms(2,3) in auto)
next
  case ack
  then show ?thesis
  proof (cases rule: handle_ack_cases)
    case (refused cl)
    then show ?thesis using assms(2,3) queue_table.run_inv by auto
  next
    case (completed response cl)
    then show ?thesis using assms(2,3) ack_inv by auto
  qed
next
  case relay_error
  then show ?thesis
  proof (cases rule: handle_error_cases)
    case (refused cl)
    then show ?thesis using assms(2,3) queue_table.run_inv by auto
  next
    case (completed response cl)
    then show ?thesis using assms(2,3) queue_step_inv [OF complete] by auto
  qed
qed (use assms(2,3) in simp)

section \<open>Every step keeps the invariant\<close>

lemma service_step_inv: "service_step p p' \<Longrightarrow> process_inv p \<Longrightarrow> process_inv p'"
proof (induction rule: service_step.induct)
  case (request p api env cr req answer sv)
  then show ?case using effect_inv [OF serve_effect [OF _ alone_ok]] by blast
next
  case (stream_turn p api tu service ref out closed sv)
  then have "api_effect (server_of p api) sv" using event_loop_effect [OF stream_turn(3)] by simp
  then show ?case using effect_inv stream_turn by blast
next
  case (stream_end p h sid h')
  then have "table_ok h'"
    using hub_table.step_inv [OF _ step_unsubscribe] by (auto simp: process_inv_def state_inv_def)
  then show ?case using stream_end by (simp add: process_inv_def state_inv_def)
next
  case (wait_over ended done_first command p r cl)
  then show ?case using await_inv by (auto simp: process_inv_def)
next
  case (reload p api now env raws f1 f2 f3 n a cl)
  have "authorizer_ok a \<and> queue_inv cl"
    using reload_inv [OF reload(3)] reload(1,2,4) by (simp add: process_inv_def api_inv_def)
  then show ?case using reload(1,4) by (simp add: process_inv_def api_inv_def)
next
  case (connect lk p r out s)
  from connect(1) have "state_inv (snState s) \<and> queue_inv (snClient s)"
    by (cases rule: handshake_cases)
      (use connect(2) connected_inv in \<open>auto simp: process_inv_def session_of_process_def\<close>)
  then show ?case using connect(2) by (simp add: process_inv_def put_session_def)
next
  case (send_one env now command answers sent p e out answers' sent' cl)
  then show ?case using queue_step_inv [OF send] by (auto simp: process_inv_def)
next
  case (notified p u c)
  then have "queue_step (prClient p) ((prClient p)\<lparr>clNotify := c\<rparr>)"
    using queue_step.notified [of "prClient p"] by simp
  then show ?case using notified(2) queue_step_inv by (auto simp: process_inv_def)
next
  case (message env now raw q p e s)
  then have "state_inv (snState s) \<and> queue_inv (snClient s)"
    using message_inv by (simp add: process_inv_def session_of_process_def)
  then show ?case using message(2) by (simp add: process_inv_def put_session_def)
next
  case (disconnect p)
  then show ?case by (simp add: process_inv_def state_inv_def markDisconnected_def)
qed

section \<open>From the start\<close>

lemma api_made:
  assumes "newManagementAPI files kf frac config (Some st) = (Inr (Some api), st')"
  obtains f2 f3 authorizer issuer interval where
    "api_enabled config" "tfKeyPair files (acCertificateFile config) (acPrivateKeyFile config)"
    "loadManagementAPIAuthorizer (tfRead files (acServicesFile config)) (tfRead files (acChannelACLFile config))
       (tfRead files (acGlobalPermissionsFile config)) = Inr (apAuthorizer api)"
    "loadServiceAdmissionGrantIssuer kf config = Inr (apIssuer api)"
    "parseManagementACLReloadInterval frac (acAclReloadInterval config) = Some (apAclReloadInterval api)"
    "apEventDelivery api = ''disabled'' \<or> apEventDelivery api = ''live''"
    "apTLSMinVersion api = managementAPIMinimumTLSVersion" "apRequireClientCert api" "apListen api = acListen config"
    "st' = Some (setRecordingJobs (Some newManagementRecordingJobs) (setLiveEvents
       (if apEventDelivery api = ''live'' then Some newManagementLiveEventHub else None) st))"
  using assms
  by (auto simp: newManagementAPI_def Let_def managementAPIEventDeliveryLive_def managementAPIEventDeliveryDisabled_def
      split: if_splits option.splits sum.splits)

lemma no_api: "newManagementAPI files kf frac config (Some st) = (Inr None, st') \<Longrightarrow> \<not> api_enabled config \<and> st' = Some st"
  by (auto simp: newManagementAPI_def Let_def split: if_splits option.splits sum.splits)

lemma new_hub_ok: "table_ok newManagementLiveEventHub"
  by (simp add: table_ok_def newManagementLiveEventHub_def)

lemma start_inv:
  assumes "start_process files kf frac env now config dk = Inr p"
  shows "process_inv p"
proof -
  obtain cl dk' where c: "newPrivateControlClient files env now (cgControl config) dk = (Inr cl, dk')"
    using assms by (auto simp: start_process_def split: sum.splits prod.splits)
  obtain api st where a: "newManagementAPI files kf frac (cgAPI config) (Some newManagementState) = (Inr api, st)"
    using assms c by (auto simp: start_process_def split: sum.splits prod.splits)
  have p: "p = \<lparr>prState = (case st of None \<Rightarrow> newManagementState | Some st \<Rightarrow> st),
      prClient = cl, prAPI = api, prSnapshot = None\<rparr>"
    using assms c a by (simp add: start_process_def)
  have new: "state_inv newManagementState" by (simp add: state_inv_def newManagementState_def)
  show ?thesis
  proof (cases api)
    case None
    then show ?thesis using no_api [OF a [unfolded None]] new_client_inv [OF c] new by (simp add: process_inv_def p)
  next
    case (Some x)
    from a [unfolded Some] show ?thesis
      by (cases rule: api_made)
        (use new_client_inv [OF c] loaded_authorizer_ok load_issuer new_hub_ok jobs_ok_new Some in
          \<open>auto simp: process_inv_def p api_inv_def state_inv_def setRecordingJobs_def setLiveEvents_def newManagementState_def
             split: if_splits\<close>)
  qed
qed

lemma process_run_inv: "service_step\<^sup>*\<^sup>* p p' \<Longrightarrow> process_inv p \<Longrightarrow> process_inv p'"
  by (induction rule: rtranclp_induct) (auto intro: service_step_inv)

text \<open>
  C2. In every state the process reaches from its start, by the steps of its requests, streams,
  sessions and reloads in any order: at most 64 commands are pending, each valid and with a
  result channel of its own; the hub has at most 128 subscribers, the job table at most 4096
  jobs under their own identifiers and the issuer at most 4096 grants; no channel and no
  participant of a channel is listed twice; and the services of the authorizer have valid
  identifiers and no entry twice.
\<close>

theorem service_invariant:
  assumes "start_process files kf frac env now config dk = Inr p0" and "service_step\<^sup>*\<^sup>* p0 p"
  shows "mlen (clPending (prClient p)) \<le> 64
     \<and> (\<forall>k c. (k, c) \<in> set (clPending (prClient p)) \<longrightarrow> k = command_id c \<and> validPrivateControlRevocation (pcMessage c))
     \<and> distinct (map (pcResult \<circ> snd) (clPending (prClient p)))
     \<and> (\<forall>h. stLiveEvents (prState p) = Some h \<longrightarrow> subscriberCount h \<le> 128)
     \<and> (\<forall>js. stRecordingJobs (prState p) = Some js \<longrightarrow> mlen (jobTable js) \<le> 4096
          \<and> (\<forall>jid job. mget (jobTable js) jid = Some job \<longrightarrow> jobID job = jid \<and> validPrivateControlID jid))
     \<and> gomap_ok (stChannels (prState p)) \<and> (\<forall>(c, ps) \<in> set (stChannels (prState p)). gomap_ok ps)
     \<and> (\<forall>api. prAPI p = Some api \<longrightarrow>
          gomap_ok (auServices (apAuthorizer api))
          \<and> (\<forall>sid svc. (sid, svc) \<in> set (auServices (apAuthorizer api)) \<longrightarrow>
               validManagementServiceID sid \<and> gomap_ok (svcAdmissions svc))
          \<and> (\<forall>i. apIssuer api = Some i \<longrightarrow> mlen (isIssued i) \<le> 4096))"
proof -
  have inv: "process_inv p" using process_run_inv [OF assms(2) start_inv [OF assms(1)]] .
  then have q: "queue_inv (prClient p)" and st: "state_inv (prState p)" by (simp_all add: process_inv_def)
  have "mlen (clPending (prClient p)) \<le> 64
      \<and> (\<forall>k c. (k, c) \<in> set (clPending (prClient p)) \<longrightarrow> k = command_id c \<and> validPrivateControlRevocation (pcMessage c))
      \<and> distinct (map (pcResult \<circ> snd) (clPending (prClient p)))"
    using q by (auto simp: queue_inv_def pending_ok_def command_ok_def privateControlMaxPendingCommands_def)
  moreover have "subscriberCount h \<le> 128" if "stLiveEvents (prState p) = Some h" for h
    using st that by (simp add: state_inv_def table_ok_def subscriberCount_def managementLiveEventMaximumSubscribers_def)
  moreover have "mlen (jobTable js) \<le> 4096
      \<and> (\<forall>jid job. mget (jobTable js) jid = Some job \<longrightarrow> jobID job = jid \<and> validPrivateControlID jid)"
    if "stRecordingJobs (prState p) = Some js" for js
    using st that jobs_okD [of js] by (simp add: state_inv_def managementRecordingJobLimit_def)
  moreover have "gomap_ok (stChannels (prState p)) \<and> (\<forall>(c, ps) \<in> set (stChannels (prState p)). gomap_ok ps)"
    using st by (simp add: state_inv_def channels_ok_def)
  moreover have "gomap_ok (auServices (apAuthorizer api))
      \<and> (\<forall>sid svc. (sid, svc) \<in> set (auServices (apAuthorizer api)) \<longrightarrow>
           validManagementServiceID sid \<and> gomap_ok (svcAdmissions svc))
      \<and> (\<forall>i. apIssuer api = Some i \<longrightarrow> mlen (isIssued i) \<le> 4096)" if "prAPI p = Some api" for api
    using inv that unfolding process_inv_def api_inv_def authorizer_ok_def issuer_inv_def
      serviceAdmissionGrantMaximumTracked_def by blast
  ultimately show ?thesis by blast
qed

text \<open>
  C36. The Management API is served exactly if its listen address is not blank, and then with
  TLS 1.3 at least and a client certificate required, from the authorizer that the three files
  give and the issuer that the key file gives, with a reload interval from a second to a
  minute; its recording jobs begin empty, and a hub without subscribers is there exactly if
  live delivery is configured.
\<close>

theorem api_started_secured:
  assumes "start_process files kf frac env now config dk = Inr p"
  shows "case prAPI p of
       None \<Rightarrow> trim_space (acListen (cgAPI config)) = [] \<and> prState p = newManagementState
     | Some api \<Rightarrow> trim_space (acListen (cgAPI config)) \<noteq> [] \<and> apListen api = acListen (cgAPI config)
         \<and> apTLSMinVersion api = 772 \<and> apRequireClientCert api
         \<and> tfKeyPair files (acCertificateFile (cgAPI config)) (acPrivateKeyFile (cgAPI config))
         \<and> loadManagementAPIAuthorizer (tfRead files (acServicesFile (cgAPI config)))
             (tfRead files (acChannelACLFile (cgAPI config))) (tfRead files (acGlobalPermissionsFile (cgAPI config)))
           = Inr (apAuthorizer api)
         \<and> loadServiceAdmissionGrantIssuer kf (cgAPI config) = Inr (apIssuer api)
         \<and> 10 ^ 9 \<le> apAclReloadInterval api \<and> apAclReloadInterval api \<le> 60 * 10 ^ 9
         \<and> prState p = newManagementState\<lparr>stRecordingJobs := Some newManagementRecordingJobs,
             stLiveEvents := (if apEventDelivery api = ''live'' then Some newManagementLiveEventHub else None)\<rparr>"
proof -
  obtain cl dk' where c: "newPrivateControlClient files env now (cgControl config) dk = (Inr cl, dk')"
    using assms by (auto simp: start_process_def split: sum.splits prod.splits)
  obtain api st where a: "newManagementAPI files kf frac (cgAPI config) (Some newManagementState) = (Inr api, st)"
    using assms c by (auto simp: start_process_def split: sum.splits prod.splits)
  have p: "p = \<lparr>prState = (case st of None \<Rightarrow> newManagementState | Some st \<Rightarrow> st),
      prClient = cl, prAPI = api, prSnapshot = None\<rparr>"
    using assms c a by (simp add: start_process_def)
  show ?thesis
  proof (cases api)
    case None
    then show ?thesis using no_api [OF a [unfolded None]] p by (simp add: api_enabled_def)
  next
    case (Some x)
    from a [unfolded Some] show ?thesis
      by (cases rule: api_made)
        (use Some reload_interval_range in \<open>simp add: p api_enabled_def managementAPIMinimumTLSVersion_def
           setRecordingJobs_def setLiveEvents_def\<close>)
  qed
qed

text \<open>
  While the state does not change between its two reads, the probe \<open>/readyz\<close> answers 200
  exactly when \<open>GET /v1/channels\<close> answers a service that may read channels with a list, which
  is when the health resource says that the Relay is healthy; otherwise the first answers 503,
  and so does the second.  The body is that of \<open>/healthz\<close>.
\<close>

theorem ready_iff_served:
  assumes "canReadChannels service"
  shows "(rsStatus (readyz ''GET'' (svState sv) (svState sv)) = 200
       \<longleftrightarrow> (\<exists>cs. handleChannels service sv = Answer (writeJSON [] 200 (enc_channel_list cs))))
     \<and> (rsStatus (readyz ''GET'' (svState sv) (svState sv)) = 200
       \<longleftrightarrow> managementAPIHealthStatus (svState sv) = ''healthy'')
     \<and> (rsStatus (readyz ''GET'' (svState sv) (svState sv)) = 503 \<longleftrightarrow> handleChannels service sv = refuse 503)
     \<and> rsBody (readyz ''GET'' (svState sv) (svState sv)) = rsBody (healthz ''GET'' (svState sv))"
proof -
  have "rsStatus (writeJSON [] n v) = n" "rsBody (writeJSON [] n v) = json_print v @ [newline]" for n v
    by (simp_all add: writeJSON_def)
  moreover have "writeManagementAPIError [] 503 \<noteq> writeJSON [] 200 v" "writeJSON [] 200 v \<noteq> writeManagementAPIError [] 503" for v
    by (simp_all add: writeJSON_def writeManagementAPIError_def)
  ultimately show ?thesis
    using assms unfolding readyz_def healthz_def handleChannels_def managementAPIChannelState_def managementAPIHealthStatus_def
    by (auto simp: Let_def simp del: json_print.simps)
qed

end
