(* ===== verification/Service_Safety.thy ===== *)
theory Service_Safety
  imports Service_Runs
begin

text \<open>
  The process does not panic: no event of the Relay, no request and no end of a stream sends on
  a closed channel or closes one twice, in any state the process reaches.
\<close>

section \<open>The hub's open channels\<close>

text \<open>
  The part of the hub's invariant that does not depend on the counter of subscriptions: it holds
  even after the counter has wrapped.
\<close>

definition hub_open :: "managementLiveEventHub \<Rightarrow> bool" where
  "hub_open h \<longleftrightarrow> distinct (map fst (hubSubscribers h)) \<and> distinct (map snd (hubSubscribers h))
     \<and> (\<forall>(sid, ref) \<in> set (hubSubscribers h). ref < length (hubChans h) \<and> \<not> chanClosed (hubChans h ! ref))"

lemma hub_openD: "hub_open h \<Longrightarrow> (sid, ref) \<in> set (hubSubscribers h) \<Longrightarrow>
    ref < length (hubChans h) \<and> \<not> chanClosed (hubChans h ! ref)"
  by (auto simp: hub_open_def)

lemma hub_open_new: "hub_open newManagementLiveEventHub"
  by (simp add: hub_open_def newManagementLiveEventHub_def)

lemma publish_open:
  assumes "hub_open h"
  shows "\<exists>h'. publish e h = Inr h' \<and> hub_open h'"
proof (cases "hubNextEventID h = -1")
  case True
  then show ?thesis using assms by (simp add: publish_def)
next
  case False
  let ?h = "h\<lparr>hubNextEventID := hubNextEventID h + 1\<rparr>" and ?ev = "event_of (hubNextEventID h + 1) e"
  have d: "distinct (map fst (hubSubscribers h))" "distinct (map snd (hubSubscribers h))"
    "\<forall>(sid, ref) \<in> set (hubSubscribers h). ref < length (hubChans ?h) \<and> \<not> chanClosed (hubChans ?h ! ref)"
    using assms by (simp_all add: hub_open_def)
  obtain h' where p: "publish_loop ?ev (hubSubscribers h) ?h = Inr h'" "length (hubChans h') = length (hubChans h)"
    and chans: "\<forall>ref < length (hubChans h). hubChans h' ! ref =
        (if ref \<in> snd ` set (hubSubscribers h) then deliver ?ev (hubChans h ! ref) else hubChans h ! ref)"
    and subs: "hubSubscribers h' = filter (\<lambda>(sid, ref). \<not> overflowing ?h (hubSubscribers h) sid) (hubSubscribers h)"
    using publish_loop_spec [OF d, of ?ev] by auto
  have "ref < length (hubChans h') \<and> \<not> chanClosed (hubChans h' ! ref)" if "(sid, ref) \<in> set (hubSubscribers h')" for sid ref
  proof -
    have s: "(sid, ref) \<in> set (hubSubscribers h)" "\<not> chan_full (hubChans h ! ref)"
      using that unfolding subs by (auto simp: overflowing_def)
    then show ?thesis using hub_openD [OF assms s(1)] chans p(2) by auto
  qed
  moreover have "distinct (map fst (hubSubscribers h'))" "distinct (map snd (hubSubscribers h'))"
    using d(1,2) unfolding subs by (simp_all add: distinct_map_filter)
  ultimately have "hub_open h'" by (auto simp: hub_open_def)
  then show ?thesis using p(1) False by (simp add: publish_def Let_def)
qed

lemma unsubscribe_open:
  assumes "hub_open h"
  shows "\<exists>h'. unsubscribe sid h = Inr h' \<and> hub_open h'"
proof (cases "mget (hubSubscribers h) sid")
  case None
  then show ?thesis using assms by (simp add: unsubscribe_def)
next
  case (Some ref)
  then have m: "(sid, ref) \<in> set (hubSubscribers h)" by (rule map_of_SomeD)
  let ?h = "h\<lparr>hubSubscribers := mdel sid (hubSubscribers h), hubChans := (hubChans h)[ref := (hubChans h ! ref)\<lparr>chanClosed := True\<rparr>]\<rparr>"
  have "r \<noteq> ref" if "(s, r) \<in> set (hubSubscribers h)" "s \<noteq> sid" for s r
  proof
    assume "r = ref"
    moreover have "inj_on snd (set (hubSubscribers h))" using assms by (simp add: hub_open_def distinct_map)
    ultimately have "(s, r) = (sid, ref)" using m that(1) by (intro inj_onD [of snd]) simp_all
    with that(2) show False by simp
  qed
  then have "hub_open ?h"
    using assms by (fastforce simp: hub_open_def set_mdel AList.delete_eq intro: distinct_map_filter)
  then show ?thesis using Some hub_openD [OF assms m] by (simp add: unsubscribe_def chan_close_def)
qed

lemma set_mput_subset: "set (mput k v m) \<subseteq> insert (k, v) (set m)"
  by (induction m) auto

lemma distinct_snd_mput: "distinct (map snd m) \<Longrightarrow> v \<notin> snd ` set m \<Longrightarrow> distinct (map snd (mput k v m))"
proof (induction m)
  case (Cons p m)
  have "snd ` set (mput k v m) \<subseteq> insert v (snd ` set m)" using set_mput_subset [of k v m] by force
  with Cons show ?case by (cases p) auto
qed simp

lemma subscribe_open:
  assumes "hub_open h" and "subscribe h = (r, h')"
  shows "hub_open h'"
  using assms(2)
proof (cases rule: subscribe_cases)
  case refused
  then show ?thesis using assms(1) by simp
next
  case subscribed
  let ?n = "length (hubChans h)"
  have below: "ref < ?n \<and> \<not> chanClosed (hubChans h ! ref)" if "(sid, ref) \<in> set (hubSubscribers h)" for sid ref
    using hub_openD [OF assms(1) that] .
  then have "?n \<notin> snd ` set (hubSubscribers h)" by fastforce
  then have "distinct (map snd (hubSubscribers h'))" "distinct (map fst (hubSubscribers h'))"
    using assms(1) subscribed(6) distinct_snd_mput by (auto simp: hub_open_def distinct_update)
  moreover have "ref < length (hubChans h') \<and> \<not> chanClosed (hubChans h' ! ref)"
    if "(sid, ref) \<in> set (hubSubscribers h')" for sid ref
    using that set_mput_subset [of "hubNextSubID h + 1" ?n "hubSubscribers h"] below
    by (auto simp: subscribed(5,6) nth_append make_chan_def)
  ultimately show ?thesis by (auto simp: hub_open_def)
qed

lemma recv_closed: "chan_recv c = (v, c') \<Longrightarrow> chanClosed c' = chanClosed c"
  by (auto simp: chan_recv_def split: list.splits if_splits)

lemma receive_open:
  assumes "hub_open h" and "receive_event ref h = (v, h')"
  shows "hub_open h'"
proof -
  obtain c where c: "chan_recv (hubChans h ! ref) = (v, c)" "h' = h\<lparr>hubChans := (hubChans h)[ref := c]\<rparr>"
    using assms(2) by (auto simp: receive_event_def split: prod.splits)
  have "chanClosed ((hubChans h)[ref := c] ! r) = chanClosed (hubChans h ! r)" if "r < length (hubChans h)" for r
    using that recv_closed [OF c(1)] by (cases "r = ref") simp_all
  then show ?thesis using assms(1) c(2) by (fastforce simp: hub_open_def)
qed

lemma hub_step_open: "hub_step h h' \<Longrightarrow> hub_open h \<Longrightarrow> hub_open h'"
proof (induction rule: hub_step.induct)
  case (step_unsubscribe sid h h')
  then show ?case using unsubscribe_open [of h sid] by simp
next
  case (step_publish e h h')
  then show ?case using publish_open [of h e] by simp
qed (blast intro: subscribe_open receive_open)+

lemma hub_steps_open: "hub_step\<^sup>*\<^sup>* h h' \<Longrightarrow> hub_open h \<Longrightarrow> hub_open h'"
  by (induction rule: rtranclp_induct) (auto intro: hub_step_open)

text \<open>A hub behind a pointer that may be nil.\<close>

definition opt_open :: "managementLiveEventHub option \<Rightarrow> bool" where
  "opt_open x \<longleftrightarrow> (\<forall>h. x = Some h \<longrightarrow> hub_open h)"

lemma opt_steps_open: "opt_steps hub_step x y \<Longrightarrow> opt_open x \<Longrightarrow> opt_open y"
  by (auto simp: opt_steps_def opt_open_def intro: hub_steps_open split: option.splits)

section \<open>The hub of the process\<close>

lemma record_hub:
  assumes "recordLifecycleEvent e now s = Inr s'"
  shows "opt_steps hub_step (stLiveEvents s) (stLiveEvents s')"
  using assms step_publish
  by (fastforce simp: recordLifecycleEvent_def Let_def opt_steps_def split: option.splits sum.splits)

lemma message_hub:
  assumes "handleSessionMessage env now raw q s = (e, s')"
  shows "opt_steps hub_step (stLiveEvents (snState s)) (stLiveEvents (snState s'))"
  using assms
proof (cases rule: handle_message_cases)
  case event
  then show ?thesis by (cases rule: handle_event_cases) (auto intro: record_hub)
next
  case snapshot
  then show ?thesis
  proof (cases rule: handle_snapshot_cases)
    case (chunk response r0 res r)
    then show ?thesis by (cases res) (simp_all add: applyRelayStateSnapshot_def)
  qed auto
next
  case ack
  then show ?thesis by (cases rule: handle_ack_cases) auto
next
  case relay_error
  then show ?thesis by (cases rule: handle_error_cases) auto
qed auto

lemma service_step_hub:
  "service_step p p' \<Longrightarrow> opt_steps hub_step (stLiveEvents (prState p)) (stLiveEvents (prState p'))"
proof (induction rule: service_step.induct)
  case (request p api env cr req answer sv)
  have "api_effect (server_of p api) sv" by (rule serve_effect [OF request(3) alone_ok [OF request(2)]])
  then show ?case by (simp add: api_effect_def server_of_def put_server_def)
next
  case (stream_turn p api tu service ref out closed sv)
  have "api_effect (server_of p api) sv" by (rule event_loop_effect [OF stream_turn(3)]) (simp add: stream_turn(2))
  then show ?case by (simp add: api_effect_def server_of_def put_server_def)
next
  case (stream_end p h sid h')
  then show ?case using step_unsubscribe by (simp add: r_into_rtranclp)
next
  case (connect lk p r out s)
  then show ?case
    by (cases rule: handshake_cases) (auto simp: session_of_process_def put_session_def markConnected_def)
next
  case (message env now raw q p e s)
  then show ?case using message_hub [OF message(1)] by (simp add: session_of_process_def put_session_def)
qed (simp_all add: markDisconnected_def)

lemma service_run_open:
  "service_step\<^sup>*\<^sup>* p p' \<Longrightarrow> opt_open (stLiveEvents (prState p)) \<Longrightarrow> opt_open (stLiveEvents (prState p'))"
  by (induction rule: rtranclp_induct) (auto dest: service_step_hub opt_steps_open)

lemma start_open:
  assumes "start_process files kf frac env now config dk = Inr p"
  shows "opt_open (stLiveEvents (prState p))"
proof -
  obtain api st where a: "newManagementAPI files kf frac (cgAPI config) (Some newManagementState) = (Inr api, st)"
    and p: "prState p = (case st of None \<Rightarrow> newManagementState | Some st \<Rightarrow> st)"
    using assms by (auto simp: start_process_def split: sum.splits prod.splits)
  show ?thesis
  proof (cases api)
    case None
    then show ?thesis using no_api [OF a [unfolded None]] p by (simp add: newManagementState_def opt_open_def)
  next
    case (Some x)
    from a [unfolded Some] show ?thesis
      by (cases rule: api_made)
        (use hub_open_new p in \<open>auto simp: setRecordingJobs_def setLiveEvents_def opt_open_def split: if_splits\<close>)
  qed
qed

section \<open>No panic\<close>

lemma message_no_panic:
  assumes "opt_open (stLiveEvents (snState s))"
  shows "fst (handleSessionMessage env now raw q s) \<noteq> Some (SessPanic x)"
proof -
  have r: "\<exists>st. recordLifecycleEvent e now (snState s) = Inr st" for e
  proof (cases "stLiveEvents (snState s)")
    case None
    then show ?thesis by (simp add: recordLifecycleEvent_def Let_def)
  next
    case (Some h)
    then obtain h' where "publish e h = Inr h'" using assms publish_open by (auto simp: opt_open_def)
    then show ?thesis using Some by (simp add: recordLifecycleEvent_def Let_def)
  qed
  have "fst (handle_event now raw s) \<noteq> Some (SessPanic x)"
    using r by (auto simp: handle_event_def split: option.split) (metis fst_conv old.sum.simps(6) option.distinct(1))
  moreover have "fst (handle_snapshot now raw q s) \<noteq> Some (SessPanic x)"
    by (auto simp: handle_snapshot_def Let_def split: option.split prod.split sum.split)
  moreover have "fst (handle_ack env raw s) \<noteq> Some (SessPanic x)"
    by (auto simp: handle_ack_def split: option.split prod.split)
  moreover have "fst (handle_error env raw q s) \<noteq> Some (SessPanic x)"
    by (auto simp: handle_error_def split: option.split prod.split)
  ultimately show ?thesis by (simp add: handleSessionMessage_def split: option.split)
qed

lemma events_no_panic:
  assumes "opt_open (stLiveEvents (svState sv))" and "env_ok env"
  shows "fst (handleEvents env request service sv) \<noteq> Panicked x"
proof (cases "stLiveEvents (svState sv)")
  case None
  then show ?thesis by (simp add: handleEvents_def)
next
  case (Some h)
  obtain r h1 where s: "subscribe h = (r, h1)" by fastforce
  show ?thesis
  proof (cases r)
    case None
    then show ?thesis using Some s by (simp add: handleEvents_def)
  next
    case (Some y)
    obtain ref sid where y: "y = (ref, sid)" by fastforce
    obtain out closed sv' where l: "event_loop (aeTurns env) service ref (set_hub h1 sv) = (out, closed, sv')"
      by (metis prod_cases3)
    have "opt_open (stLiveEvents (svState (set_hub h1 sv)))"
      using assms(1) \<open>stLiveEvents (svState sv) = Some h\<close> subscribe_open [OF _ s] by (simp add: set_hub_def opt_open_def)
    moreover have "opt_steps hub_step (stLiveEvents (svState (set_hub h1 sv))) (stLiveEvents (svState sv'))"
      using event_loop_effect [OF l] assms(2) by (simp add: env_ok_def api_effect_def)
    ultimately have "opt_open (stLiveEvents (svState sv'))" using opt_steps_open by blast
    then have "\<exists>h''. unsubscribe sid h' = Inr h''" if "stLiveEvents (svState sv') = Some h'" for h'
      using that unsubscribe_open by (auto simp: opt_open_def)
    then show ?thesis
      using \<open>stLiveEvents (svState sv) = Some h\<close> s Some y l
      by (auto simp: handleEvents_def Let_def split: option.split sum.split)
  qed
qed

lemma revocation_answer_no_panic: "revocation_answer ended body result \<noteq> Panicked x"
  by (simp add: revocation_answer_def split: prod.split option.split)

lemma serve_no_panic:
  assumes "opt_open (stLiveEvents (svState sv))" and "env_ok env"
  shows "fst (ServeHTTP cr env request sv) \<noteq> Panicked x"
proof -
  have "fst (handleRecordingJobStart env request service sv) \<noteq> Panicked x" for service
    by (simp add: handleRecordingJobStart_def split: option.split prod.split sum.split)
  moreover have "fst (handleRecordingJobStop request service jid sv) \<noteq> Panicked x" for service jid
    by (simp add: handleRecordingJobStop_def split: option.split)
  moreover have "fst (handleServiceAdmissionGrant cr env request service sv) \<noteq> Panicked x" for service
    by (simp add: handleServiceAdmissionGrant_def split: option.split prod.split sum.split grant_error.split)
  moreover have "fst (handleServiceAdmissionRevocation env request service sv) \<noteq> Panicked x" for service
    using revocation_answer_no_panic
    by (simp add: handleServiceAdmissionRevocation_def Let_def split: option.split prod.split sum.split)
  moreover have "handleHealth service sv \<noteq> Panicked x" "handleChannels service sv \<noteq> Panicked x"
    "handleParticipants service c sv \<noteq> Panicked x" for service c
    by (simp_all add: handleHealth_def handleChannels_def handleParticipants_def Let_def split: option.split)
  moreover have "authenticate cr request sv \<noteq> Inl (Panicked x)"
    by (simp add: authenticate_def split: option.split)
  ultimately show ?thesis
    using events_no_panic [OF assms] by (auto simp: ServeHTTP_def Let_def split: sum.split option.split)
qed

text \<open>
  C37. The process never panics.  In every state it reaches from its start, by the steps of its
  requests, streams, sessions and reloads in any order and without a bound on their number: no
  message of the Relay, whatever its bytes, makes the session send on a closed channel or close
  one twice; no request does, whatever the other goroutines do with their operations while it is
  served; and every stream can be ended.
\<close>

theorem process_never_panics:
  assumes "start_process files kf frac env now config dk = Inr p0" and "service_step\<^sup>*\<^sup>* p0 p"
  shows "(\<forall>env now raw q x. fst (handleSessionMessage env now raw q (session_of_process p)) \<noteq> Some (SessPanic x))
     \<and> (\<forall>api cr env request x. prAPI p = Some api \<longrightarrow> env_ok env \<longrightarrow>
          fst (ServeHTTP cr env request (server_of p api)) \<noteq> Panicked x)
     \<and> (\<forall>h sid. stLiveEvents (prState p) = Some h \<longrightarrow> (\<exists>h'. unsubscribe sid h = Inr h'))"
proof -
  have o: "opt_open (stLiveEvents (prState p))" using service_run_open [OF assms(2) start_open [OF assms(1)]] .
  then have "\<exists>h'. unsubscribe sid h = Inr h'" if "stLiveEvents (prState p) = Some h" for h sid
    using that unsubscribe_open by (auto simp: opt_open_def)
  then show ?thesis
    using o message_no_panic [of "session_of_process p"] serve_no_panic [of "server_of p api" for api]
    by (simp add: session_of_process_def server_of_def)
qed

end
