(* ===== verification/Service_Lifecycle.thy ===== *)
theory Service_Lifecycle
  imports Service_Runs
begin

text \<open>
  The end of the process (\<open>main.go\<close>, lines 160 to 219): the goroutines that \<open>main\<close> starts, the
  context they share, and the shutdown of the two listeners.
\<close>

section \<open>The state of \<open>main\<close>\<close>

text \<open>
  A listener serves until its \<open>ListenAndServe\<close> returns: with an error of its own, or with
  \<open>ErrServerClosed\<close> because \<open>Shutdown\<close> was called.
\<close>

datatype listener = Serving | Broken | Closed

text \<open>Where \<open>main\<close> is: at \<open><-ctx.Done()\<close>, at one of the calls of \<open>Shutdown\<close>, or done.\<close>

datatype main_phase = AwaitDone | CloseAPI | CloseHealth | Returned

record service_main =
  smProcess :: process
  smDone :: bool
  smHealth :: listener
  smAPI :: "listener option"
  smPhase :: main_phase

text \<open>Without an error in the construction; with one the process exits (\<open>log.Fatalf\<close>).\<close>

definition main_start ::
  "tls_files \<Rightarrow> key_files \<Rightarrow> (nat \<Rightarrow> nat \<Rightarrow> nat \<Rightarrow> nat) \<Rightarrow> environment \<Rightarrow> int \<Rightarrow> configuration \<Rightarrow> disk
   \<Rightarrow> start_error + service_main" where
  "main_start files kf frac env now config dk =
     (case start_process files kf frac env now config dk of
        Inl e \<Rightarrow> Inl e
      | Inr p \<Rightarrow> Inr \<lparr>smProcess = p, smDone = False, smHealth = Serving,
                     smAPI = (if prAPI p = None then None else Some Serving), smPhase = AwaitDone\<rparr>)"

text \<open>
  \<open>Shutdown\<close> closes the listener and returns at the latest when the context of the shutdown is
  done, five seconds after its beginning; what it returns is only logged.
\<close>

definition shutdown :: "listener \<Rightarrow> listener" where
  "shutdown l = (case l of Broken \<Rightarrow> Broken | _ \<Rightarrow> Closed)"

text \<open>The next step of \<open>main\<close> itself, or nothing while it blocks and after its return.\<close>

definition main_next :: "service_main \<Rightarrow> service_main option" where
  "main_next m =
     (case smPhase m of
        AwaitDone \<Rightarrow>
          if smDone m then Some (m\<lparr>smPhase := (if smAPI m = None then CloseHealth else CloseAPI)\<rparr>) else None
      | CloseAPI \<Rightarrow> Some (m\<lparr>smAPI := map_option shutdown (smAPI m), smPhase := CloseHealth\<rparr>)
      | CloseHealth \<Rightarrow> Some (m\<lparr>smHealth := shutdown (smHealth m), smPhase := Returned\<rparr>)
      | Returned \<Rightarrow> None)"

text \<open>
  The steps of the process until \<open>main\<close> returns, which ends all goroutines: those of the
  goroutines, an interrupt or a SIGTERM, a listener that fails and cancels, and those of \<open>main\<close>.
\<close>

inductive main_step :: "service_main \<Rightarrow> service_main \<Rightarrow> bool" where
  goroutine: "smPhase m \<noteq> Returned \<Longrightarrow> service_step (smProcess m) p \<Longrightarrow> main_step m (m\<lparr>smProcess := p\<rparr>)"
| signalled: "smPhase m \<noteq> Returned \<Longrightarrow> main_step m (m\<lparr>smDone := True\<rparr>)"
| health_fails: "smPhase m \<noteq> Returned \<Longrightarrow> smHealth m = Serving \<Longrightarrow>
     main_step m (m\<lparr>smHealth := Broken, smDone := True\<rparr>)"
| api_fails: "smPhase m \<noteq> Returned \<Longrightarrow> smAPI m = Some Serving \<Longrightarrow>
     main_step m (m\<lparr>smAPI := Some Broken, smDone := True\<rparr>)"
| main_goes_on: "main_next m = Some m' \<Longrightarrow> main_step m m'"

section \<open>What holds while it runs and when it ends\<close>

definition main_inv :: "service_main \<Rightarrow> bool" where
  "main_inv m \<longleftrightarrow> process_inv (smProcess m)
     \<and> (smAPI m = None \<longleftrightarrow> prAPI (smProcess m) = None)
     \<and> (\<not> smDone m \<longrightarrow> smPhase m = AwaitDone \<and> smHealth m = Serving \<and> smAPI m \<in> {None, Some Serving})
     \<and> (smPhase m \<in> {AwaitDone, CloseAPI} \<longrightarrow> smHealth m \<noteq> Closed \<and> smAPI m \<noteq> Some Closed)
     \<and> (smPhase m \<in> {CloseHealth, Returned} \<longrightarrow> smAPI m \<noteq> Some Serving)
     \<and> (smPhase m = CloseHealth \<longrightarrow> smHealth m \<noteq> Closed)
     \<and> (smPhase m = Returned \<longrightarrow> smHealth m \<noteq> Serving)"

lemma service_step_api: "service_step p p' \<Longrightarrow> prAPI p' = None \<longleftrightarrow> prAPI p = None"
  by (induction rule: service_step.induct) (auto simp: put_server_def put_session_def)

lemma main_next_cases:
  assumes "main_next m = Some m'"
  obtains (leaves) "smPhase m = AwaitDone" "smDone m" "m' = m\<lparr>smPhase := (if smAPI m = None then CloseHealth else CloseAPI)\<rparr>"
  | (api_closed) "smPhase m = CloseAPI" "m' = m\<lparr>smAPI := map_option shutdown (smAPI m), smPhase := CloseHealth\<rparr>"
  | (returns) "smPhase m = CloseHealth" "m' = m\<lparr>smHealth := shutdown (smHealth m), smPhase := Returned\<rparr>"
  using assms by (auto simp: main_next_def split: main_phase.splits if_splits)

lemma shutdown_simps [simp]: "shutdown l \<noteq> Serving"
  by (simp add: shutdown_def split: listener.split)

lemma main_step_inv: "main_step m m' \<Longrightarrow> main_inv m \<Longrightarrow> main_inv m'"
proof (induction rule: main_step.induct)
  case (goroutine m p)
  then show ?case
    using service_step_inv [OF goroutine(2)] service_step_api [OF goroutine(2)] by (auto simp: main_inv_def)
next
  case (main_goes_on m m')
  from main_goes_on(1) show ?case
  proof (cases rule: main_next_cases)
    case leaves
    then show ?thesis using main_goes_on(2) by (auto simp: main_inv_def)
  next
    case api_closed
    then show ?thesis using main_goes_on(2) by (cases "smAPI m") (auto simp: main_inv_def)
  next
    case returns
    then show ?thesis using main_goes_on(2) by (auto simp: main_inv_def)
  qed
qed (auto simp: main_inv_def)

lemma main_start_inv:
  assumes "main_start files kf frac env now config dk = Inr m"
  shows "main_inv m"
proof -
  obtain p where p: "start_process files kf frac env now config dk = Inr p"
    and m: "m = \<lparr>smProcess = p, smDone = False, smHealth = Serving,
        smAPI = (if prAPI p = None then None else Some Serving), smPhase = AwaitDone\<rparr>"
    using assms by (auto simp: main_start_def split: sum.splits)
  show ?thesis using start_inv [OF p] by (simp add: main_inv_def m)
qed

lemma main_run_inv: "main_step\<^sup>*\<^sup>* m m' \<Longrightarrow> main_inv m \<Longrightarrow> main_inv m'"
  by (induction rule: rtranclp_induct) (auto intro: main_step_inv)

text \<open>
  While the process runs, its shutdown is orderly: \<open>main\<close> leaves its wait only after a signal or
  the failure of a listener, a listener that is not being shut down serves or has failed, the
  health listener is not closed before that of the API, nothing serves when \<open>main\<close> returns, and the
  tables of the process are in order up to the end.
\<close>

theorem shutdown_orderly:
  assumes "main_start files kf frac env now config dk = Inr m0" and "main_step\<^sup>*\<^sup>* m0 m"
  shows "(smPhase m \<noteq> AwaitDone \<longrightarrow> smDone m)
     \<and> (\<not> smDone m \<longrightarrow> smHealth m = Serving \<and> (prAPI (smProcess m) \<noteq> None \<longrightarrow> smAPI m = Some Serving))
     \<and> (smHealth m = Closed \<longrightarrow> smAPI m \<noteq> Some Serving)
     \<and> (smPhase m = Returned \<longrightarrow> smHealth m \<noteq> Serving \<and> smAPI m \<noteq> Some Serving)
     \<and> process_inv (smProcess m)"
proof -
  have "main_inv m" using main_run_inv [OF assms(2) main_start_inv [OF assms(1)]] .
  then show ?thesis by (cases "smPhase m") (auto simp: main_inv_def)
qed

section \<open>The process ends\<close>

text \<open>The steps of \<open>main\<close> that are left.\<close>

definition steps_left :: "service_main \<Rightarrow> nat" where
  "steps_left m = (case smPhase m of AwaitDone \<Rightarrow> 3 | CloseAPI \<Rightarrow> 2 | CloseHealth \<Rightarrow> 1 | Returned \<Rightarrow> 0)"

lemma steps_left_next: "main_next m = Some m' \<Longrightarrow> steps_left m' < steps_left m"
  by (erule main_next_cases) (simp_all add: steps_left_def)

lemma steps_left_step: "main_step m m' \<Longrightarrow> steps_left m' \<le> steps_left m \<and> (smDone m \<longrightarrow> smDone m')"
proof (induction rule: main_step.induct)
  case (main_goes_on m m')
  then show ?case using steps_left_next [of m m'] by (auto elim!: main_next_cases)
qed (simp_all add: steps_left_def)

lemma done_not_blocked: "smDone m \<Longrightarrow> steps_left m \<noteq> 0 \<Longrightarrow> main_next m \<noteq> None"
  by (auto simp: main_next_def steps_left_def split: main_phase.splits)

text \<open>A run of the process; where it has no more steps, its last state is repeated.\<close>

definition main_run :: "(nat \<Rightarrow> service_main) \<Rightarrow> bool" where
  "main_run tr \<longleftrightarrow> (\<forall>i. main_step (tr i) (tr (Suc i)) \<or> tr (Suc i) = tr i)"

text \<open>The goroutine of \<open>main\<close> is scheduled again and again while it can go on.\<close>

definition main_fair :: "(nat \<Rightarrow> service_main) \<Rightarrow> bool" where
  "main_fair tr \<longleftrightarrow> (\<forall>i. main_next (tr i) \<noteq> None \<longrightarrow> (\<exists>j \<ge> i. main_next (tr j) = Some (tr (Suc j))))"

lemma main_run_mono:
  assumes "main_run tr" and "i \<le> j"
  shows "steps_left (tr j) \<le> steps_left (tr i) \<and> (smDone (tr i) \<longrightarrow> smDone (tr j)) \<and> main_step\<^sup>*\<^sup>* (tr i) (tr j)"
  using assms(2)
proof (induction j rule: dec_induct)
  case (step j)
  have "main_step (tr j) (tr (Suc j)) \<or> tr (Suc j) = tr j" using assms(1) by (simp add: main_run_def)
  then show ?case
  proof
    assume s: "main_step (tr j) (tr (Suc j))"
    then show ?thesis using step.IH steps_left_step [OF s] by (auto intro: rtranclp.rtrancl_into_rtrancl)
  qed (use step.IH in simp)
qed simp

lemma reaches_return:
  assumes "main_run tr" and "main_fair tr" and "smDone (tr k)"
  shows "\<exists>n \<ge> k. smPhase (tr n) = Returned"
  using assms(3)
proof (induction "steps_left (tr k)" arbitrary: k rule: less_induct)
  case less
  show ?case
  proof (cases "steps_left (tr k) = 0")
    case True
    then show ?thesis by (auto simp: steps_left_def split: main_phase.splits)
  next
    case False
    then obtain j where j: "k \<le> j" "main_next (tr j) = Some (tr (Suc j))"
      using done_not_blocked less.prems assms(2) unfolding main_fair_def by blast
    have "steps_left (tr (Suc j)) < steps_left (tr k)"
      using steps_left_next [OF j(2)] main_run_mono [OF assms(1) j(1)] by simp
    moreover have "smDone (tr (Suc j))" using main_run_mono [OF assms(1), of k "Suc j"] j(1) less.prems by simp
    ultimately obtain n where "Suc j \<le> n" "smPhase (tr n) = Returned" using less.hyps by blast
    then show ?thesis using j(1) by (intro exI [of _ n]) simp
  qed
qed


end
