(* ===== verification/Api_Witnesses.thy ===== *)
theory Api_Witnesses
  imports Api_Commands Event_Streams
begin

text \<open>
  A small server and requests to it, at which the theorems about the Management API apply.
\<close>

section \<open>A server\<close>

definition sample_api :: managementAPI where
  "sample_api = \<lparr>apAuthorizer = \<lparr>auFingerprints = [(hex_string (replicate 32 CHR ''h''), ''rec'')],
       auServices = [(''rec'', sample_service)]\<rparr>,
     apServicesFile = ''s'', apChannelACLFile = ''c'', apGlobalPermissionsFile = ''g'', apAclReloadInterval = 0,
     apIssuer = Some sample_issuer, apEventDelivery = ''live'', apTLSMinVersion = managementAPIMinimumTLSVersion,
     apRequireClientCert = True, apListen = ''l''\<rparr>"

definition channel_event :: privateControlLifecycleEvent where
  "channel_event = sample_event\<lparr>leChannelID := Some 7\<rparr>"

definition served_hub :: managementLiveEventHub where
  "served_hub = \<lparr>hubNextEventID = 2, hubNextSubID = 1, hubSubscribers = [(1, 0)],
     hubChans = [\<lparr>chanCap = 32, chanBuf = [event_of 1 sample_event, event_of 2 channel_event], chanClosed = False\<rparr>]\<rparr>"

definition sample_server :: server where
  "sample_server = \<lparr>svState = newManagementState\<lparr>stConnected := True, stSnapshotAt := Some 3,
       stChannels := [(7, [(9, ''talking''), (8, ''idle'')])],
       stRecordingJobs := Some newManagementRecordingJobs, stLiveEvents := Some served_hub\<rparr>,
     svApi = sample_api, svRevoker = Some new_client\<rparr>"

definition sample_http :: "string \<Rightarrow> string \<Rightarrow> string \<Rightarrow> http_request" where
  "sample_http method path body = \<lparr>htMethod = method, htPath = path, htQuery = [], htPeer = Some ''cert'',
     htBody = body, htFlusher = True\<rparr>"

definition sample_env :: api_env where
  "sample_env = \<lparr>aeNow = 100 * second, aeNow' = 100 * second, aeRaw = (\<lambda>n. Some (replicate n CHR ''g'')),
     aeStore = good_env, aeMeanwhile = id, aeEnd = Some DeadlineExceeded, aePrefer = False, aeTurns = []\<rparr>"

lemma http_simps [simp]:
  "htMethod (sample_http m p b) = m" "htPath (sample_http m p b) = p" "htBody (sample_http m p b) = b"
  "htQuery (sample_http m p b) = []" "htPeer (sample_http m p b) = Some ''cert''" "htFlusher (sample_http m p b)"
  by (simp_all add: sample_http_def)

lemma sample_authenticated: "authenticate sample_crypto (sample_http m p b) sample_server = Inr sample_service"
  by (simp add: authenticate_cases sample_server_def sample_api_def serviceForRequest_def sample_crypto_def
      sample_service_def del: replicate.simps)

lemma sample_state: "stChannels (svState sample_server) = [(7, [(9, ''talking''), (8, ''idle'')])]"
    "stConnected (svState sample_server)" "stSnapshotAt (svState sample_server) = Some 3"
    "stRecordingJobs (svState sample_server) = Some newManagementRecordingJobs"
    "stLiveEvents (svState sample_server) = Some served_hub" "svApi sample_server = sample_api"
    "svRevoker sample_server = Some new_client"
  by (simp_all add: sample_server_def)

lemma sample_channels_ok: "channels_ok (stChannels (svState sample_server))"
  by (simp add: sample_state channels_ok_def gomap_ok_def)

section \<open>Reading\<close>

lemma sample_subscribed: "subscribe served_hub = (Some (1, 2), served_hub\<lparr>hubNextSubID := 2,
    hubChans := hubChans served_hub @ [make_chan managementLiveEventSubscriberBuffer], hubSubscribers := [(1, 0), (2, 1)]\<rparr>)"
  by (simp add: subscribe_def served_hub_def managementLiveEventMaximumSubscribers_def Let_def)

lemma sample_permissions: "canOpenEventStream (Some sample_service)" "canReadChannels sample_service"
    "canReadChannel sample_service 7" "canManageRecordingChannel (Some sample_service) 7"
  by (simp_all add: canOpenEventStream_def sample_service_def hasGlobalPermission_def mhas_def
      managementAPIHealthPermission_def canReadChannel_def canReadChannels_def canManageRecordingChannel_def)

lemma sample_stream:
  "\<exists>h. handleEvents sample_env (sample_http ''GET'' p []) sample_service sample_server
     = (Streaming \<lparr>rsStatus = 200, rsHeaders = event_headers, rsBody = stream_start\<rparr>, set_hub h sample_server)"
  using sample_permissions(1) sample_subscribed
  by (simp add: handleEvents_def sample_state sample_api_def eventDeliveryMode_def managementAPIEventDeliveryLive_def
      query_has_def query_key_def sample_env_def Let_def) blast

lemma only_permitted_requests_change_witness:
  "\<exists>answer sv. ServeHTTP sample_crypto sample_env (sample_http ''GET'' ''/v1/channels'' []\<lparr>htPeer := None\<rparr>) sample_server
       = (answer, sv) \<and> answer = refuse 403 \<and> sv = sample_server"
proof -
  let ?r = "sample_http ''GET'' ''/v1/channels'' []\<lparr>htPeer := None\<rparr>"
  obtain answer sv where s: "ServeHTTP sample_crypto sample_env ?r sample_server = (answer, sv)" by fastforce
  have "serviceForRequest f a (htPeer ?r) = None" for f a by (simp add: serviceForRequest_def)
  then show ?thesis using only_permitted_requests_change [OF s] s by simp
qed

lemma sample_view: "view_of [(7, [(9, ''talking''), (8, ''idle'')])] 7 p
    = (if p = 9 then Some ''talking'' else if p = 8 then Some ''idle'' else None)"
  by (simp add: view_of_def)

lemma channel_list_exact_witness:
  "\<exists>cs. ServeHTTP sample_crypto sample_env (sample_http ''GET'' ''/v1/channels'' []) sample_server
       = (Answer (writeJSON [] 200 (enc_channel_list cs)), sample_server)
     \<and> \<lparr>csChannelID = 7, csParticipantCount = 2\<rparr> \<in> set cs"
proof -
  note w = channel_list_exact [OF sample_authenticated http_simps(2) http_simps(1) sample_channels_ok]
  have "{p. view_of [(7, [(9, ''talking''), (8, ''idle'')])] 7 p \<noteq> None} = {9, 8 :: u32}"
    by (auto simp: sample_view)
  then have "int (card {p. view_of (stChannels (svState sample_server)) 7 p \<noteq> None}) = 2"
    unfolding sample_state by simp
  then show ?thesis
    using w [of sample_env "[]"] sample_permissions sample_state by (fastforce simp: mhas_def)
qed

lemma participant_list_exact_witness:
  "\<exists>ps. ServeHTTP sample_crypto sample_env
         (sample_http ''GET'' (''/v1/channels/'' @ word_to_dec (7 :: u32) @ ''/participants'') []) sample_server
       = (Answer (writeJSON [] 200 (enc_participant_list 7 ps)), sample_server)
     \<and> \<lparr>mpSenderID = 9, mpState = ''talking''\<rparr> \<in> set ps \<and> sorted_wrt (<) (map mpSenderID ps)"
  using participant_list_exact [OF sample_authenticated http_simps(1) http_simps(2) sample_channels_ok,
      of 7 sample_env "[]"] sample_permissions sample_state sample_view [of 9]
  by auto

section \<open>Streams\<close>

lemma sample_event_valid: "validPrivateControlLifecycleEvent (Some [(''channel_id'', JNum ''7'')]) channel_event"
proof -
  have "validPrivateControlUTCTimestamp ''2026-01-18T12:30:45Z''"
    unfolding validPrivateControlUTCTimestamp_def by code_simp
  then show ?thesis
    by (simp add: validPrivateControlLifecycleEvent_def channel_event_def sample_event_def
        privateControlLifecycleEventTypes_def validPrivateControlID_iff exI [of _ "replicate 16 CHR 0x00"]
        del: replicate.simps b64_encode.simps)
qed

lemma stream_roundtrip_witness:
  "sse_parse (stream_start @ concat (map writeManagementSSEEvent [event_of 2 channel_event]))
     = [(''2'', ''participant_joined'', json_print (enc_event (event_of 2 channel_event)))]"
proof -
  have "word_to_dec (2 :: u64) = ''2''" by code_simp
  then have "evEventID (event_of 2 channel_event) = ''2''" "evType (event_of 2 channel_event) = ''participant_joined''"
    by (simp_all add: event_of_def channel_event_def sample_event_def)
  then show ?thesis
    using stream_roundtrip [of "[event_of 2 channel_event]"] sample_event_valid by (auto simp del: json_print.simps)
qed


definition quiet_turn :: event_turn where
  "quiet_turn = \<lparr>etMeanwhile = id, etDone = False, etWriteFails = False\<rparr>"


section \<open>Commands\<close>

lemma body_decoded:
  assumes "json_ok 1 (JObj ms)" and "ms \<noteq> []" and "length ms \<le> 6" and "\<forall>m \<in> set ms. length (json_member m) \<le> 600"
  shows "decodeManagementAPIRequest fs zero (json_print (JObj ms)) = dec_members fs True ms zero"
proof -
  have "length (json_print (JObj ms)) \<le> 2 + 601 * length ms"
    using length_json_obj [of ms] members_sum [OF assms(4)] by linarith
  then have "\<not> 4096 < length (json_print (JObj ms))" using assms(3) by linarith
  moreover have "json_document (json_print (JObj ms)) = Some (JObj ms)"
    using json_document_print(1) [OF json_ok_mono [OF assms(1)]] by (simp add: json_depth_def)
  ultimately show ?thesis by (simp add: decodeManagementAPIRequest_def dec_struct_def del: json_print.simps)
qed

definition job_body :: string where
  "job_body = json_print (JObj [(''channel_id'', enc_word (7 :: u32))])"

lemma job_body_decoded: "decodeManagementAPIRequest fields_job_request zero_job_request job_body = Some \<lparr>jrChannelID = 7\<rparr>"
  unfolding job_body_def
  by (subst body_decoded)
    (simp_all add: small_members fields_job_request_def zero_job_request_def find_field_def field_def del: json_print.simps)

lemma stop_request_discloses_nothing_witness:
  "ServeHTTP sample_crypto sample_env
     (sample_http ''POST'' (''/v1/recording-jobs/'' @ sample_id @ ''/stop'') []) sample_server = (refuse 403, sample_server)"
proof -
  let ?r = "sample_http ''POST'' (''/v1/recording-jobs/'' @ sample_id @ ''/stop'') []"
  have v: "validPrivateControlID sample_id"
    unfolding validPrivateControlID_iff sample_id_def by (intro exI [of _ "replicate 16 CHR ''a''"]) simp
  obtain answer sv where s: "ServeHTTP sample_crypto sample_env ?r sample_server = (answer, sv)" by fastforce
  have "job_get sample_id (stRecordingJobs (svState sample_server)) = None"
    by (simp add: sample_state job_get_def newManagementRecordingJobs_def)
  then show ?thesis
    using stop_request_discloses_nothing [OF sample_authenticated v http_simps(2) http_simps(1) s] s by simp
qed

lemma start_request_creates_witness:
  "\<exists>sv. ServeHTTP sample_crypto sample_env (sample_http ''POST'' ''/v1/recording-jobs'' job_body) sample_server
       = (Answer (writeJSON no_store 201
            (enc_job_response \<lparr>jpJobID = b64_encode (replicate 16 CHR ''g''), jpState = ''starting''\<rparr>)), sv)
     \<and> job_get (b64_encode (replicate 16 CHR ''g'')) (stRecordingJobs (svState sv)) \<noteq> None"
proof -
  let ?r = "sample_http ''POST'' ''/v1/recording-jobs'' job_body"
  obtain answer sv where s: "ServeHTTP sample_crypto sample_env ?r sample_server = (answer, sv)" by fastforce
  have "stRecordingJobs (svState sv) \<noteq> stRecordingJobs (svState sample_server)"
    using s by (auto simp: serve_routes(1) [OF sample_authenticated] handleRecordingJobStart_def job_body_decoded
        sample_permissions job_create_def sample_state newManagementRecordingJobs_def newPrivateControlID_def sample_env_def
        set_jobs_def managementRecordingJobLimit_def Let_def mput_new)
  moreover have "aeRaw sample_env 16 = Some (replicate 16 CHR ''g'')" by (simp add: sample_env_def)
  ultimately show ?thesis
    using start_request_creates [OF sample_authenticated http_simps(2) s] s
    by (auto simp del: replicate.simps b64_encode.simps)
qed

definition grant_body :: string where
  "grant_body = json_print (JObj [(''channel_id'', enc_word (7 :: u32)), (''sender_id'', enc_word (9 :: u32)),
     (''role'', JStr ''recorder''), (''service_public_key'', JStr (b64_encode (replicate 32 CHR ''p'')))])"

lemma key_length: "length (b64_encode (replicate 32 CHR ''p'')) = 43"
  by (simp add: length_b64_encode del: b64_encode.simps replicate.simps)

lemma b64_utf8: "utf8_valid (b64_encode bs)"
  using b64_char_ascii b64_groups_bound
  by (intro ascii_utf8_valid) (auto simp: b64_encode_groups list_all_iff)

lemma long_member: "length k \<le> 30 \<Longrightarrow> length v \<le> 60 \<Longrightarrow> length (json_member (k, JStr v)) \<le> 600"
  using length_member(1) [of k v] by linarith

lemma grant_body_decoded:
  "decodeManagementAPIRequest fields_grant_request zero_grant_request grant_body = Some sample_grant_request"
  unfolding grant_body_def
  by (subst body_decoded)
    (simp_all add: small_members long_member b64_utf8 key_length fields_grant_request_def zero_grant_request_def find_field_def field_def
      sample_grant_request_def del: json_print.simps b64_encode.simps replicate.simps)

lemma sample_issuer_inv: "issuer_inv sample_issuer"
  using load_issuer [OF sample_issuer_loaded] by blast

lemma grant_request_answered_witness:
  "\<exists>grant sv. ServeHTTP sample_crypto sample_env (sample_http ''POST'' ''/v1/service-admission-grants'' grant_body) sample_server
       = (Answer (writeJSON no_store 201 (enc_grant_response
            \<lparr>gpGrant = grant, gpExpiresAt = format_rfc3339 (400 * second)\<rparr>)), sv)"
proof -
  let ?r = "sample_http ''POST'' ''/v1/service-admission-grants'' grant_body"
  obtain answer sv where s: "ServeHTTP sample_crypto sample_env ?r sample_server = (answer, sv)" by fastforce
  have acl: "admissionACL (Some sample_service) 7 9 = Some sample_acl"
    by (simp add: admissionACL_def sample_service_def sample_acl_def)
  obtain grant where i: "issue sample_crypto (Some sample_grant_raw) ''rec'' sample_acl sample_grant_request
      (100 * second) (Some sample_issuer) = (Inr (grant, 400 * second), Some issued_issuer)" using sample_issue by blast
  have e: "aeRaw sample_env 24 = Some sample_grant_raw" "aeNow sample_env = 100 * second" "svcID sample_service = ''rec''"
      "svcRole sample_service = ''recorder''" "apIssuer sample_api = Some sample_issuer"
      "grChannelID sample_grant_request = 7" "grSenderID sample_grant_request = 9"
    by (simp_all add: sample_env_def sample_service_def sample_api_def sample_grant_request_def del: replicate.simps)
  have "answer \<noteq> refuse n \<and> answer \<noteq> method_not_allowed m" if "n \<noteq> 201" for n m
    using s that by (auto simp: serve_routes(2) [OF sample_authenticated] handleServiceAdmissionGrant_def
        grant_body_decoded sample_state e acl i writeJSON_def writeManagementAPIError_def
        writeManagementAPIMethodNotAllowed_def simp del: replicate.simps)
  then have "answer = Answer response \<Longrightarrow> rsStatus response = 201" for response
    using s by (auto simp: serve_routes(2) [OF sample_authenticated] handleServiceAdmissionGrant_def
        grant_body_decoded sample_state e acl i simp del: replicate.simps)
  moreover have "\<And>i. apIssuer (svApi sample_server) = Some i \<Longrightarrow> issuer_inv i"
    using sample_issuer_inv by (simp add: sample_state e)
  moreover have "truncate_second (100 * second) + isLifetime sample_issuer = 400 * second"
    by (simp add: sample_times sample_issuer_def)
  ultimately show ?thesis
    using grant_request_answered [OF sample_authenticated http_simps(2) s] s e
    by (auto simp: sample_state simp del: replicate.simps)
qed

definition admin_service :: managementAPIService where
  "admin_service = \<lparr>svcID = ''adm'', svcRole = ''admin'', svcEnabled = True, svcChannels = [], svcAdmissions = [],
     svcGlobalPermissions = [(managementAPIRevokePermission, ())]\<rparr>"

definition revocation_env :: api_env where
  "revocation_env = sample_env\<lparr>aeRaw := \<lambda>_. Some (replicate 16 CHR ''a'')\<rparr>"

definition revocation_body :: string where
  "revocation_body = json_print (JObj [(''channel_id'', enc_word (7 :: u32)), (''service_id'', JStr ''rec''),
     (''reason'', JStr ''acl_removed''), (''deny_until'', enc_word (5000 :: u32))])"

lemma revocation_body_decoded: "decodeManagementAPIRequest fields_revocation_request zero_revocation_request revocation_body
    = Some sample_request"
proof -
  have "dec_int64 (enc_word (5000 :: u32)) 0 = Some 5000"
    using dec_int64_enc [of 5000 0] by (simp add: enc_word_def enc_int_def word_to_dec_int)
  then show ?thesis
    unfolding revocation_body_def
    by (subst body_decoded)
      (simp_all add: small_members fields_revocation_request_def zero_revocation_request_def find_field_def field_def
        sample_request_def del: json_print.simps)
qed

lemma sample_submitted:
  "\<exists>cl. submit_revocation good_env (Some (replicate 16 CHR ''a'')) sample_request new_client = (Inr sample_pending_command, cl)
     \<and> clPending cl = sample_pending \<and> clResults cl = [make_chan 1]"
  using sample_enqueue [of "[make_chan 1]"] sample_new
  by (auto simp: submit_revocation_def enqueuePendingCommand_def)

lemma revocation_answer_honest_witness:
  "\<exists>response sv. handleServiceAdmissionRevocation revocation_env
       (sample_http ''POST'' ''/v1/service-admission-revocations'' revocation_body) admin_service sample_server
       = (Answer response, sv)
     \<and> response = writeJSON [] 202 (enc_revocation_pending \<lparr>rpStatus = ''pending_relay_ack'',
         rpMessageID = sample_id, rpDenyUntil = 5000\<rparr>)"
proof -
  let ?r = "sample_http ''POST'' ''/v1/service-admission-revocations'' revocation_body"
  obtain cl where cl: "submit_revocation good_env (Some (replicate 16 CHR ''a'')) sample_request new_client
      = (Inr sample_pending_command, cl)" "clPending cl = sample_pending" "clResults cl = [make_chan 1]"
    using sample_submitted by blast
  have e: "aeRaw revocation_env 16 = Some (replicate 16 CHR ''a'')" "aeStore revocation_env = good_env"
      "aeMeanwhile revocation_env = id" "aeEnd revocation_env = Some DeadlineExceeded" "aeNow revocation_env = 100 * second"
      "svcRole admin_service = ''admin''" "hasGlobalPermission admin_service managementAPIRevokePermission"
    by (simp_all add: revocation_env_def sample_env_def admin_service_def hasGlobalPermission_def mhas_def)
  have v: "validateServiceAdmissionRevocation (100 * second) n sample_request i = (True, i)" for n i
    by (simp add: validateServiceAdmissionRevocation_def sample_request_def sample_times
        managementServiceAdmissionMaximumDenyWindow_def validServiceAdmissionRevocationReason_def validManagementServiceID_def
        privateControlServiceIDPattern_def service_id_char_def is_alnum_def is_digit_def is_lower_def)
  obtain messageID where "await_result True p sample_pending_command cl = (Some (zero_ack, messageID, Some RevokeContext), cl)
      \<and> messageID \<noteq> []" for p
    using cl(3) sample_message_id sample_id_length(1) by (fastforce simp: await_result_def make_chan_def chan_recv_def)
  then obtain sv response where s: "handleServiceAdmissionRevocation revocation_env ?r admin_service sample_server
      = (Answer response, sv)" "rsStatus response = 202"
    by (simp add: handleServiceAdmissionRevocation_def revocation_body_decoded e v sample_state cl(1) set_issuer_def
        revocation_answer_def del: replicate.simps)
  have "\<And>cl. svRevoker sample_server = Some cl \<Longrightarrow> queue_inv cl" using new_client_inv' by (simp add: sample_state)
  then show ?thesis
    using revocation_answer_honest [OF s(1)] s cl(1)
    by (auto simp: sample_state revocation_body_decoded e sample_request_def sample_message_id simp del: replicate.simps)
qed

end
