(* ===== verification/Queue_Durability.thy ===== *)
theory Queue_Durability
  imports Queue_Runs
begin

text \<open>
  What the file of the pending commands is worth over whole runs: from its start on, whatever is
  done with the queue, the file can be opened again and holds at least the commands that are
  pending.
\<close>

section \<open>Steps\<close>

text \<open>
  The steps of \<open>queue_step\<close>, outside Windows; where a command is completed, the directory can be
  opened, synced and closed.  (Where that fails after the rename, the file no longer has the
  command, though the queue takes it back.)  The other calls may fail in any step.
\<close>

inductive durable_step :: "privateControlClient \<Rightarrow> privateControlClient \<Rightarrow> bool" where
  submitted: "queueServiceAdmissionRevocations env raws requests cl = (e, cl') \<Longrightarrow>
     \<forall>r \<in> set requests. rqDenyUntil r < 2 ^ 63 \<Longrightarrow> \<not> envWindows env \<Longrightarrow> durable_step cl cl'"
| completed: "completePendingCommand env k result cl = (b, cl') \<Longrightarrow> sound_disk env \<Longrightarrow> durable_step cl cl'"
| acknowledged: "completePendingAcknowledgement env ack cl = (b, cl') \<Longrightarrow> sound_disk env \<Longrightarrow> durable_step cl cl'"
| sent: "send_command env now command answers sent cl = (e, out, answers', sent', cl') \<Longrightarrow>
     sound_disk env \<Longrightarrow> durable_step cl cl'"
| told: "durable_step cl (cl\<lparr>clNotify := snd (chan_recv (clNotify cl))\<rparr>)"
| permuted: "mset p = mset (clPending cl) \<Longrightarrow> durable_step cl (cl\<lparr>clPending := p\<rparr>)"

lemma durable_queue_step: "durable_step cl cl' \<Longrightarrow> queue_step cl cl'"
  by (induction rule: durable_step.induct) (blast intro: queue_step.intros)+

lemma durable_queue_run: "durable_step\<^sup>*\<^sup>* cl cl' \<Longrightarrow> queue_step\<^sup>*\<^sup>* cl cl'"
  using mono_rtranclp [of durable_step queue_step] durable_queue_step by blast

text \<open>A submission of one command, waited for or not, is one of a batch.\<close>

lemma durable_submit_one:
  assumes "queueServiceAdmissionRevocation env raw request cl = (q, cl')" and "rqDenyUntil request < 2 ^ 63"
    and "\<not> envWindows env"
  shows "durable_step cl cl'"
  using one_as_batch [OF assms(1)] assms(2,3) durable_step.submitted by fastforce

lemma durable_submit_wait:
  assumes "submit_revocation env raw request cl = (p, cl')" and "rqDenyUntil request < 2 ^ 63"
    and "\<not> envWindows env"
  shows "durable_step cl cl'"
  using wait_as_batch [OF assms(1)] assms(2,3) durable_step.submitted by fastforce

section \<open>The file covers what is pending\<close>

definition covered :: "disk \<Rightarrow> pending \<Rightarrow> bool" where
  "covered dk pend \<longleftrightarrow> (\<exists>cs. store_holds dk cs \<and> (\<forall>(k, c) \<in> set pend. pcMessage c \<in> set cs))"

definition durable :: "privateControlClient \<Rightarrow> bool" where
  "durable cl \<longleftrightarrow> queue_inv cl \<and> clStore cl \<and> covered (clDisk cl) (clPending cl)"

lemma covered_mono: "covered dk p \<Longrightarrow> set q \<subseteq> set p \<Longrightarrow> dkStore dk' = dkStore dk \<Longrightarrow> covered dk' q"
  unfolding covered_def using store_holds_same by blast

lemma covered_data:
  assumes "dkStore dk = Some (store_data p)" and "pending_ok p" and "set q \<subseteq> set p"
  shows "covered dk q"
proof -
  have "\<forall>(k, c) \<in> set p. pcMessage c \<in> set (messages_of p)" by (force simp: messages_of_def)
  then show ?thesis using store_data_holds [OF assms(2,1)] assms(3) unfolding covered_def by blast
qed

text \<open>A write of commands that contain those pending, wherever it fails and wherever it is cut off.\<close>

lemma covered_written:
  assumes "covered dk q" and "pending_ok p" and "set q \<subseteq> set p"
    and "dkStore dk' = dkStore dk \<or> dkStore dk' = Some (store_data p)"
  shows "covered dk' q"
  using assms covered_mono [of dk q q dk'] covered_data by blast

lemma enqueue_durable:
  assumes "durable cl" and "fresh_batch cl commands" and "enqueuePendingCommands env commands cl = (e, cl')"
    and "\<not> envWindows env"
  shows "durable cl'"
proof -
  have inv: "queue_inv cl" and store: "clStore cl" and cov: "covered (clDisk cl) (clPending cl)"
    using assms(1) by (simp_all add: durable_def)
  have inv': "queue_inv cl'" by (rule enqueue_inv [OF inv assms(2,3)])
  from assms(3) have "clStore cl' \<and> covered (clDisk cl') (clPending cl')"
  proof (cases rule: enqueue_cases)
    case unchanged
    then show ?thesis using store cov by simp
  next
    case (rolled_back dk x)
    let ?p = "clPending cl @ map (\<lambda>c. (command_id c, c)) commands"
    have "pending_ok ?p" by (rule pending_ok_batch [OF inv assms(2) rolled_back(3,4)])
    moreover have "dkStore dk = dkStore (clDisk cl) \<or> dkStore dk = Some (store_data ?p)"
      using rolled_back(5) store persist_either assms(4) by blast
    ultimately have "covered dk (clPending cl)" using covered_written [OF cov] by simp
    then show ?thesis using rolled_back(1) store by simp
  next
    case (queued dk)
    have "dkStore dk = Some (store_data (clPending cl'))" using queued(6) store persist_success by blast
    moreover have "pending_ok (clPending cl')" using inv' by (simp add: queue_inv_def)
    ultimately have "covered dk (clPending cl')" by (rule covered_data) simp
    then show ?thesis using queued(3) store by simp
  qed
  with inv' show ?thesis by (simp add: durable_def)
qed

lemma batch_durable:
  assumes "durable cl" and "queueServiceAdmissionRevocations env raws requests cl = (e, cl')"
    and "\<forall>r \<in> set requests. rqDenyUntil r < 2 ^ 63" and "\<not> envWindows env"
  shows "durable cl'"
proof -
  have inv: "queue_inv cl" using assms(1) by (simp add: durable_def)
  have alloc: "durable (cl\<lparr>clResults := clResults cl @ replicate k (make_chan 1)\<rparr>)" for k
    using assms(1) queue_inv_alloc [of cl k] by (simp add: durable_def)
  from assms(2) inv assms(3) show ?thesis
  proof (cases rule: queue_revocations_cases)
    case (refused k)
    then show ?thesis using alloc by simp
  next
    case (batch k commands cl1)
    then show ?thesis using enqueue_durable [OF _ batch(3,6) assms(4)] alloc by simp
  qed
qed

lemma finish_durable:
  assumes "durable cl" and "mget (clPending cl) k = Some c" and "finish_command env k c r cl = ((b, e), cl')"
    and "sound_disk env"
  shows "durable cl'"
proof -
  have inv: "queue_inv cl" and store: "clStore cl" and cov: "covered (clDisk cl) (clPending cl)"
    using assms(1) by (simp_all add: durable_def)
  have inv': "queue_inv cl'" by (rule finish_inv [OF inv assms(2,3)])
  from assms(3) have "clStore cl' \<and> covered (clDisk cl') (clPending cl')"
  proof (cases rule: finish_cases)
    case (finished dk)
    have "dkStore dk = Some (store_data (clPending cl'))" using finished(3,4) store persist_success by simp
    moreover have "pending_ok (clPending cl')" using inv' by (simp add: queue_inv_def)
    ultimately have "covered dk (clPending cl')" by (rule covered_data) simp
    then show ?thesis using finished(3) store by simp
  next
    case (kept dk)
    then have "dkStore dk = dkStore (clDisk cl)" using store persist_failed assms(4) by blast
    moreover have "set (mdel k (clPending cl) @ [(k, c)]) \<subseteq> set (clPending cl)"
      using assms(2) by (auto simp: set_mdel dest: map_of_SomeD)
    ultimately have "covered dk (mdel k (clPending cl) @ [(k, c)])" using covered_mono [OF cov] by blast
    then show ?thesis using kept(3) store by simp
  qed
  with inv' show ?thesis by (simp add: durable_def)
qed

lemma complete_durable:
  "completePendingCommand env k r cl = ((b, e), cl') \<Longrightarrow> durable cl \<Longrightarrow> sound_disk env \<Longrightarrow> durable cl'"
  by (erule complete_cases) (auto dest: finish_durable)

lemma durable_step_durable: "durable_step cl cl' \<Longrightarrow> durable cl \<Longrightarrow> durable cl'"
proof (induction rule: durable_step.induct)
  case (submitted env raws requests cl e cl')
  then show ?case using batch_durable by blast
next
  case (completed env k result cl b cl')
  then show ?case using complete_durable by (metis prod.collapse)
next
  case (acknowledged env ack cl b cl')
  then obtain b1 e where "completePendingAcknowledgement env ack cl = ((b1, e), cl')" by (metis prod.collapse)
  then show ?case using acknowledged(2,3) by (auto elim!: ack_cases dest: finish_durable)
next
  case (sent env now command answers sent cl e out answers' sent' cl')
  from sent(1) show ?case
  proof (cases rule: send_command_cases)
    case (overdue b x)
    then show ?thesis using complete_durable sent by blast
  qed (use sent in simp_all)
next
  case (told cl)
  then have "queue_inv (cl\<lparr>clNotify := snd (chan_recv (clNotify cl))\<rparr>)"
    using queue_step_inv [OF queue_step.notified] by (simp add: durable_def)
  then show ?case using told by (simp add: durable_def)
next
  case (permuted p cl)
  then have "queue_inv (cl\<lparr>clPending := p\<rparr>)"
    using queue_step_inv [OF queue_step.reordered] by (simp add: durable_def)
  then show ?case using permuted covered_mono mset_eq_setD [OF permuted(1)] by (auto simp: durable_def)
qed

interpretation durable_table: bounded_table durable_step durable clPending privateControlMaxPendingCommands
  by unfold_locales (blast intro: durable_step_durable, simp_all add: durable_def queue_inv_def pending_ok_def)

text \<open>
  Why the directory must not fail where a command is completed: if it cannot be synced after the
  rename, the queue takes the command back, but the file no longer has it.
\<close>

theorem failed_completion_leaves_file:
  assumes "envFails env = (\<lambda>c. c = SyncDir)" and "\<not> envWindows env" and "clStore cl"
    and "mget (clPending cl) k = Some c"
  shows "\<exists>cl'. completePendingCommand env k r cl = ((True, Some (QueueStore (StoreCall SyncDir))), cl')
     \<and> mget (clPending cl') k = Some c \<and> dkStore (clDisk cl') = Some (store_data (mdel k (clPending cl)))"
  using assms
  by (simp add: completePendingCommand_def finish_command_def persistPendingLocked_def persist_def
      persist_calls_def do_call_def failed_call_def mget_put)

section \<open>From the start\<close>

lemma load_store_again:
  assumes "load_store env dk = Inr cs" and "\<not> envFails env' StatStore" and "\<not> envFails env' ReadStore"
  shows "load_store env' dk = Inr cs"
  using assms by (cases "dkStore dk") (simp_all add: load_store_def split: if_splits)

lemma load_pending_unexpired:
  assumes "load_pending now cs pend False n = Inr (pend', False, n')"
  shows "pend' = pend @ entries n cs \<and> (\<forall>c \<in> set cs. validPrivateControlRevocation c)
     \<and> distinct (map rvMessageID cs) \<and> (\<forall>c \<in> set cs. \<not> mhas pend (rvMessageID c))"
  using assms
proof (induction cs arbitrary: pend n)
  case (Cons c cs)
  have stays: "load_pending now xs p True m = Inr (p', ex, m') \<Longrightarrow> ex" for xs p m p' ex m'
    by (induction now xs p True m rule: load_pending.induct) (auto split: if_splits)
  let ?p = "mput (rvMessageID c) \<lparr>pcMessage = c, pcResult = n\<rparr> pend"
  have c: "validPrivateControlRevocation c" "\<not> mhas pend (rvMessageID c)" "\<not> rvDenyUntil c \<le> now"
    using Cons.prems stays by (auto split: if_splits)
  then have "load_pending now cs ?p False (Suc n) = Inr (pend', False, n')" using Cons.prems by simp
  note IH = Cons.IH [OF this]
  have h: "mhas ?p x \<longleftrightarrow> x = rvMessageID c \<or> mhas pend x" for x by simp
  have "pend' = pend @ entries n (c # cs)" using IH c by (simp add: mput_new)
  moreover have "\<forall>d \<in> set cs. rvMessageID d \<noteq> rvMessageID c \<and> \<not> mhas pend (rvMessageID d)" using IH h by blast
  ultimately show ?case using IH c by auto
qed simp

lemma open_covered:
  assumes "openPrivateControlCommandStore env f now dk = (Inr (file, pend, n), dk')"
  shows "covered dk' pend"
proof -
  obtain cs ex where l: "load_store env dk = Inr cs" "load_pending now cs [] False 0 = Inr (pend, ex, n)"
    and len: "mlen pend \<le> privateControlMaxPendingCommands"
    and w: "if ex then persist env pend dk = (None, dk') else dk' = dk"
    using assms by (auto simp: openPrivateControlCommandStore_def Let_def
        split: if_splits sum.splits prod.splits option.splits)
  have p: "pending_ok pend" using open_inv [OF assms] by simp
  show ?thesis
  proof (cases ex)
    case True
    then show ?thesis using w persist_success covered_data [OF _ p] by auto
  next
    case False
    have e: "pend = entries 0 cs" "\<forall>c \<in> set cs. validPrivateControlRevocation c" "distinct (map rvMessageID cs)"
      using load_pending_unexpired [of now cs "[]" 0 pend n] l(2) False by simp_all
    have "\<forall>c \<in> set cs. rvDenyUntil c < 2 ^ 63" using load_store_deny [OF l(1)] by (simp add: list_all_iff)
    then have "store_holds dk cs"
      using e len load_store_again [OF l(1)] by (simp add: store_holds_def command_ok_def entries_def)
    moreover have "\<forall>(k, c) \<in> set pend. pcMessage c \<in> set cs" using entries_set e(1) by fastforce
    ultimately show ?thesis using w False by (auto simp: covered_def)
  qed
qed

lemma new_client_durable:
  assumes "newPrivateControlClient files env now config dk = (Inr cl, dk')"
  shows "durable cl"
proof -
  obtain f pend n dk1 where o: "openPrivateControlCommandStore env (cfCommandStoreFile config) now dk = (Inr (f, pend, n), dk1)"
    and cl: "clPending cl = pend" "clStore cl" "clDisk cl = dk1"
    using assms by (auto simp: newPrivateControlClient_def Let_def split: if_splits sum.splits prod.splits option.splits)
  then show ?thesis using new_client_inv [OF assms] open_covered [OF o] by (simp add: durable_def)
qed

section \<open>A command keeps its channel\<close>

text \<open>What is pending was pending before, or came with a channel made since.\<close>

definition only_fresh :: "privateControlClient \<Rightarrow> privateControlClient \<Rightarrow> bool" where
  "only_fresh cl cl' \<longleftrightarrow> length (clResults cl) \<le> length (clResults cl')
     \<and> (\<forall>(k, c) \<in> set (clPending cl'). (k, c) \<in> set (clPending cl) \<or> length (clResults cl) \<le> pcResult c)"

lemma only_fresh_trans: "only_fresh a b \<Longrightarrow> only_fresh b c \<Longrightarrow> only_fresh a c"
  unfolding only_fresh_def by fastforce

lemma only_fresh_less: "set (clPending cl') \<subseteq> set (clPending cl) \<Longrightarrow> length (clResults cl) \<le> length (clResults cl')
    \<Longrightarrow> only_fresh cl cl'"
  by (auto simp: only_fresh_def)

lemma finish_fresh:
  assumes "mget (clPending cl) k = Some c" and "finish_command env k c r cl = ((b, e), cl')"
  shows "only_fresh cl cl'"
  using assms(2)
proof (cases rule: finish_cases)
  case (finished dk)
  then show ?thesis by (intro only_fresh_less) (auto simp: set_mdel)
next
  case (kept dk)
  then show ?thesis using assms(1) by (intro only_fresh_less) (auto simp: set_mdel dest: map_of_SomeD)
qed

lemma complete_fresh: "completePendingCommand env k r cl = ((b, e), cl') \<Longrightarrow> only_fresh cl cl'"
  by (erule complete_cases) (auto intro: finish_fresh only_fresh_less)

lemma enqueue_fresh:
  assumes "enqueuePendingCommands env commands cl = (e, cl')" and "\<forall>c \<in> set commands. n \<le> pcResult c"
  shows "clResults cl' = clResults cl
     \<and> (\<forall>(k, c) \<in> set (clPending cl'). (k, c) \<in> set (clPending cl) \<or> n \<le> pcResult c)"
  using assms(1) by (cases rule: enqueue_cases) (use assms(2) in auto)

lemma batch_fresh:
  assumes "queue_inv cl" and "queueServiceAdmissionRevocations env raws requests cl = (e, cl')"
    and "\<forall>r \<in> set requests. rqDenyUntil r < 2 ^ 63"
  shows "only_fresh cl cl'"
  using assms(2,1,3)
proof (cases rule: queue_revocations_cases)
  case (refused k)
  then show ?thesis by (auto simp: only_fresh_def)
next
  case (batch k commands cl1)
  then show ?thesis using enqueue_fresh [OF batch(6,5)] by (simp add: only_fresh_def)
qed

lemma durable_step_fresh: "durable_step cl cl' \<Longrightarrow> queue_inv cl \<Longrightarrow> only_fresh cl cl'"
proof (induction rule: durable_step.induct)
  case (submitted env raws requests cl e cl')
  then show ?case using batch_fresh by blast
next
  case (completed env k result cl b cl')
  then show ?case using complete_fresh by (metis prod.collapse)
next
  case (acknowledged env ack cl b cl')
  then obtain b1 e where "completePendingAcknowledgement env ack cl = ((b1, e), cl')" by (metis prod.collapse)
  then show ?case by (auto elim!: ack_cases intro: finish_fresh only_fresh_less)
next
  case (sent env now command answers sent cl e out answers' sent' cl')
  from sent(1) show ?case
  proof (cases rule: send_command_cases)
    case (overdue b x)
    then show ?thesis using complete_fresh by blast
  qed (simp_all add: only_fresh_less)
next
  case (permuted p cl)
  then show ?case using mset_eq_setD [OF permuted(1)] by (intro only_fresh_less) simp_all
qed (auto intro: only_fresh_less)

lemma durable_run_fresh: "durable_step\<^sup>*\<^sup>* cl cl' \<Longrightarrow> queue_inv cl \<Longrightarrow> only_fresh cl cl'"
proof (induction rule: rtranclp_induct)
  case (step b c)
  then have "queue_inv b" using queue_table.run_inv [OF durable_queue_run] by blast
  then show ?case using step durable_step_fresh only_fresh_trans by blast
qed (simp add: only_fresh_less)

section \<open>A crash at any moment\<close>

text \<open>
  What an operation writes: an enqueue the pending commands and its own, the completion of a
  command (\<open>answered\<close>) all but this.  A crash finds the disk between two operations or between
  two calls of a write.
\<close>

definition written_by :: "privateControlClient \<Rightarrow> string option \<Rightarrow> pending \<Rightarrow> bool" where
  "written_by cl answered p \<longleftrightarrow>
     (case answered of
        None \<Rightarrow> pending_ok p \<and> (\<exists>commands. p = clPending cl @ map (\<lambda>c. (command_id c, c)) commands)
      | Some k \<Rightarrow> p = mdel k (clPending cl))"

definition crash_disk :: "privateControlClient \<Rightarrow> string option \<Rightarrow> disk \<Rightarrow> bool" where
  "crash_disk cl answered dk \<longleftrightarrow> dk = clDisk cl
     \<or> (\<exists>env p j. written_by cl answered p
          \<and> dk = snd (run_calls env (store_data p) (take j (persist_calls False)) (clDisk cl)))"

lemma pending_ok_mdel: "pending_ok p \<Longrightarrow> pending_ok (mdel k p)"
  using mlen_del_le [of k p] unfolding pending_ok_def set_mdel by force

lemma crash_covered:
  assumes "durable cl" and "crash_disk cl answered dk"
  shows "covered dk (case answered of None \<Rightarrow> clPending cl | Some k \<Rightarrow> mdel k (clPending cl))" (is "covered dk ?q")
proof -
  have q: "set ?q \<subseteq> set (clPending cl)" by (auto simp: set_mdel split: option.split)
  then have cov: "covered (clDisk cl) ?q" using assms(1) covered_mono durable_def by blast
  from assms(2) consider "dk = clDisk cl"
    | env p j where "written_by cl answered p" "dk = snd (run_calls env (store_data p) (take j (persist_calls False)) (clDisk cl))"
    by (auto simp: crash_disk_def)
  then show ?thesis
  proof cases
    case 1
    then show ?thesis using cov by simp
  next
    case 2
    have "pending_ok (clPending cl)" using assms(1) by (simp add: durable_def queue_inv_def)
    then have "pending_ok p" "set ?q \<subseteq> set p"
      using 2(1) pending_ok_mdel by (auto simp: written_by_def split: option.splits)
    then show ?thesis using covered_written [OF cov] cut_off_either 2(2) by blast
  qed
qed

lemma enqueued_new:
  assumes "enqueuePendingCommands env commands cl = (None, cl')"
  shows "\<forall>c \<in> set commands. (command_id c, c) \<in> set (clPending cl') \<and> mget (clPending cl) (command_id c) = None"
    and "distinct (map command_id commands)"
proof -
  from assms have "commands = [] \<or> (set (map (\<lambda>c. (command_id c, c)) commands) \<subseteq> set (clPending cl')
      \<and> check_commands (clPending cl) [] commands = None)"
    by (cases rule: enqueue_cases) simp_all
  then show "\<forall>c \<in> set commands. (command_id c, c) \<in> set (clPending cl') \<and> mget (clPending cl) (command_id c) = None"
    and "distinct (map command_id commands)"
    by (auto simp: check_commands_None mhas_iff)
qed

text \<open>A command of an accepted batch is pending until its channel has a result.\<close>

lemma command_stays:
  assumes "queue_inv cl" and "durable_step\<^sup>*\<^sup>* cl cl'" and "(k, c) \<in> set (clPending cl)"
  shows "(k, c) \<in> set (clPending cl') \<or> (\<exists>r. chanBuf (clResults cl' ! pcResult c) = [r])"
proof -
  have aw: "awaiting cl (pcResult c)" using assms(3) by (force simp: awaiting_def)
  then have n: "pcResult c < length (clResults cl)" by (rule awaiting_less [OF assms(1)])
  have "delivers cl cl'" by (rule queue_run_delivers [OF durable_queue_run [OF assms(2)] assms(1)])
  then consider "awaiting cl' (pcResult c)" | r where "chanBuf (clResults cl' ! pcResult c) = [r]"
    using aw n unfolding delivers_def by metis
  then show ?thesis
  proof cases
    case 1
    then obtain k' c' where c': "(k', c') \<in> set (clPending cl')" "pcResult c' = pcResult c" by (auto simp: awaiting_def)
    then have "(k', c') \<in> set (clPending cl)"
      using durable_run_fresh [OF assms(2,1)] n by (auto simp: only_fresh_def)
    moreover have "inj_on (pcResult \<circ> snd) (set (clPending cl))"
      using assms(1) by (simp add: queue_inv_def distinct_map)
    ultimately have "(k', c') = (k, c)" using assms(3) c'(2) by (intro inj_onD [of "pcResult \<circ> snd"]) simp_all
    then show ?thesis using c'(1) by simp
  qed blast
qed



end
