(* ===== verification/Service_Witnesses.thy ===== *)
theory Service_Witnesses
  imports Service_Safety Service_Lifecycle Api_Witnesses Queue_Durability
begin

text \<open>A process that starts, with its Management API enabled, and a step of it.\<close>

definition full_api_config :: managementAPIConfig where
  "full_api_config = sample_api_config\<lparr>acListen := '':8443'', acCertificateFile := ''cert'', acPrivateKeyFile := ''key'',
     acClientCAFile := ''ca'', acServicesFile := ''services'', acChannelACLFile := ''acl'',
     acGlobalPermissionsFile := ''permissions'', acEventDelivery := ''live''\<rparr>"

definition full_files :: tls_files where
  "full_files = \<lparr>tfKeyPair = \<lambda>c k. c = ''cert'' \<and> k = ''key'',
     tfRead = (\<lambda>name. if name = ''services'' then sample_f1 else if name = ''acl'' then sample_f2
                else if name = ''permissions'' then sample_f3 else Some ''pem''),
     tfHasCert = (\<lambda>data. data = ''pem'')\<rparr>"

definition full_config :: configuration where
  "full_config = \<lparr>cgControl = sample_config, cgHTTPListen = '':8080'', cgAPI = full_api_config\<rparr>"

lemma trim_words [simp]: "trim_space '':8443'' = '':8443''" "trim_space ''cert'' = ''cert''" "trim_space ''key'' = ''key''"
  "trim_space ''ca'' = ''ca''" "trim_space ''services'' = ''services''" "trim_space ''acl'' = ''acl''"
  "trim_space ''permissions'' = ''permissions''" "trim_space ''live'' = ''live''"
  by (rule trim_space_visible; simp add: visible_def)+

lemma full_api_made: "\<exists>api. newManagementAPI full_files sample_key_files frac full_api_config (Some st)
    = (Inr (Some api), Some (setRecordingJobs (Some newManagementRecordingJobs)
        (setLiveEvents (Some newManagementLiveEventHub) st)))"
proof -
  have g: "acGrantSigningKeyFile full_api_config = acGrantSigningKeyFile sample_api_config"
      "acGrantKeyID full_api_config = acGrantKeyID sample_api_config"
      "acGrantIssuer full_api_config = acGrantIssuer sample_api_config"
      "acGrantAudience full_api_config = acGrantAudience sample_api_config"
      "acGrantTTLSeconds full_api_config = acGrantTTLSeconds sample_api_config"
    by (simp_all add: full_api_config_def)
  have i: "loadServiceAdmissionGrantIssuer sample_key_files full_api_config = Inr (Some sample_issuer)"
    unfolding sample_issuer_loaded [symmetric] loadServiceAdmissionGrantIssuer_def g ..
  have f: "acListen full_api_config = '':8443''" "acCertificateFile full_api_config = ''cert''"
      "acPrivateKeyFile full_api_config = ''key''" "acClientCAFile full_api_config = ''ca''"
      "acServicesFile full_api_config = ''services''" "acChannelACLFile full_api_config = ''acl''"
      "acGlobalPermissionsFile full_api_config = ''permissions''" "acEventDelivery full_api_config = ''live''"
      "acAclReloadInterval full_api_config = []"
    by (simp_all add: full_api_config_def sample_api_config_def)
  have "parseManagementACLReloadInterval frac [] = Some (5 * 10 ^ 9)"
    by (simp add: parseManagementACLReloadInterval_def)
  then show ?thesis
    unfolding newManagementAPI_def f
    by (simp add: api_enabled_def f full_files_def i sample_loaded managementAPIEventDeliveryLive_def
        managementAPIEventDeliveryDisabled_def Let_def)
qed

lemma full_start: "\<exists>p. start_process full_files sample_key_files frac good_env now full_config empty_disk = Inr p
    \<and> prClient p = new_client \<and> prAPI p \<noteq> None"
proof -
  obtain api where "newManagementAPI full_files sample_key_files frac full_api_config (Some newManagementState)
      = (Inr (Some api), Some (setRecordingJobs (Some newManagementRecordingJobs)
          (setLiveEvents (Some newManagementLiveEventHub) newManagementState)))"
    using full_api_made by blast
  then show ?thesis by (simp add: start_process_def full_config_def new_client_made)
qed

lemma service_invariant_witness:
  "\<exists>p0 p. start_process full_files sample_key_files (\<lambda>_ _ _. 0) good_env 100 full_config empty_disk = Inr p0
     \<and> service_step p0 p \<and> mlen (clPending (prClient p)) \<le> 64"
proof -
  obtain p where s: "start_process full_files sample_key_files (\<lambda>_ _ _. 0) good_env 100 full_config empty_disk = Inr p"
    using full_start by blast
  let ?p = "p\<lparr>prState := markDisconnected (prState p)\<rparr>"
  have "service_step p ?p" by (rule disconnect)
  then show ?thesis using service_invariant [OF s r_into_rtranclp] s by blast
qed

lemma api_started_secured_witness:
  "\<exists>p api. start_process full_files sample_key_files (\<lambda>_ _ _. 0) good_env 100 full_config empty_disk = Inr p
     \<and> prAPI p = Some api \<and> apTLSMinVersion api = 772 \<and> apRequireClientCert api \<and> apListen api = '':8443''"
proof -
  obtain p api where s: "start_process full_files sample_key_files (\<lambda>_ _ _. 0) good_env 100 full_config empty_disk = Inr p"
      "prAPI p = Some api"
    using full_start by blast
  have "acListen (cgAPI full_config) = '':8443''" by (simp add: full_config_def full_api_config_def)
  then show ?thesis using api_started_secured [OF s(1)] s by auto
qed

lemma ready_iff_served_witness:
  "rsStatus (readyz ''GET'' (svState sample_server) (svState sample_server)) = 200
     \<and> (\<exists>cs. handleChannels sample_service sample_server = Answer (writeJSON [] 200 (enc_channel_list cs)))"
proof -
  have "managementAPIHealthStatus (svState sample_server) = ''healthy''"
    by (simp add: managementAPIHealthStatus_def sample_state)
  then show ?thesis using ready_iff_served [OF sample_permissions(2), of sample_server] by blast
qed

text \<open>A process that gets a signal and ends.\<close>

definition sample_end :: "service_main \<Rightarrow> nat \<Rightarrow> service_main" where
  "sample_end m i =
     (if i = 0 then m
      else if i = 1 then m\<lparr>smDone := True\<rparr>
      else if i = 2 then m\<lparr>smDone := True, smPhase := CloseAPI\<rparr>
      else if i = 3 then m\<lparr>smDone := True, smPhase := CloseHealth, smAPI := Some Closed\<rparr>
      else m\<lparr>smDone := True, smPhase := Returned, smAPI := Some Closed, smHealth := Closed\<rparr>)"

lemma full_main: "\<exists>m. main_start full_files sample_key_files (\<lambda>_ _ _. 0) good_env 100 full_config empty_disk = Inr m
    \<and> smPhase m = AwaitDone \<and> smHealth m = Serving \<and> smAPI m = Some Serving \<and> \<not> smDone m"
proof -
  obtain p where "start_process full_files sample_key_files (\<lambda>_ _ _. 0) good_env 100 full_config empty_disk = Inr p"
      "prAPI p \<noteq> None"
    using full_start by blast
  then show ?thesis by (simp add: main_start_def)
qed

lemma sample_end_next:
  assumes "smPhase m = AwaitDone" "smHealth m = Serving" "smAPI m = Some Serving" "\<not> smDone m"
  shows "main_next (sample_end m i) = (if i \<in> {1, 2, 3} then Some (sample_end m (Suc i)) else None)"
  using assms by (auto simp: sample_end_def main_next_def shutdown_def)

lemma sample_end_run:
  assumes "smPhase m = AwaitDone" "smHealth m = Serving" "smAPI m = Some Serving" "\<not> smDone m"
  shows "main_run (sample_end m)" and "main_fair (sample_end m)"
proof -
  have "main_step (sample_end m 0) (sample_end m 1)"
    using signalled [of m] assms(1) by (simp add: sample_end_def)
  moreover have "main_step (sample_end m i) (sample_end m (Suc i))" if "i \<in> {1, 2, 3}" for i
    using sample_end_next [OF assms, of i] that by (intro main_goes_on) simp
  moreover have "sample_end m (Suc i) = sample_end m i" if "4 \<le> i" for i
    using that by (simp add: sample_end_def)
  moreover have "i = 0 \<or> i \<in> {1, 2, 3} \<or> 4 \<le> i" for i :: nat by auto
  ultimately show "main_run (sample_end m)" unfolding main_run_def by (metis One_nat_def)
  show "main_fair (sample_end m)"
    unfolding main_fair_def using sample_end_next [OF assms] by (auto split: if_splits)
qed


lemma shutdown_orderly_witness:
  "\<exists>m. main_start full_files sample_key_files (\<lambda>_ _ _. 0) good_env 100 full_config empty_disk = Inr m
     \<and> main_step m (m\<lparr>smDone := True\<rparr>) \<and> process_inv (smProcess (m\<lparr>smDone := True\<rparr>))"
proof -
  obtain m where m: "main_start full_files sample_key_files (\<lambda>_ _ _. 0) good_env 100 full_config empty_disk = Inr m"
      "smPhase m = AwaitDone"
    using full_main by blast
  then have s: "main_step m (m\<lparr>smDone := True\<rparr>)" using signalled [of m] by simp
  show ?thesis using shutdown_orderly [OF m(1) r_into_rtranclp [of main_step, OF s]] m(1) s by blast
qed

lemma process_never_panics_witness:
  "\<exists>p. start_process full_files sample_key_files (\<lambda>_ _ _. 0) good_env 100 full_config empty_disk = Inr p
     \<and> service_step p (p\<lparr>prState := markDisconnected (prState p)\<rparr>)
     \<and> fst (handleSessionMessage good_env 6 (json_print joined_json) sample_id2
         (session_of_process (p\<lparr>prState := markDisconnected (prState p)\<rparr>))) \<noteq> Some (SessPanic SendOnClosed)"
proof -
  obtain p where s: "start_process full_files sample_key_files (\<lambda>_ _ _. 0) good_env 100 full_config empty_disk = Inr p"
    using full_start by blast
  have d: "service_step p (p\<lparr>prState := markDisconnected (prState p)\<rparr>)" by (rule disconnect)
  note n = process_never_panics [OF s r_into_rtranclp [of service_step, OF d], THEN conjunct1]
  show ?thesis by (intro exI [of _ p] conjI s d n [rule_format])
qed

end
