(* ===== verification/Spec2Isabelle.thy ===== *)
theory Spec2Isabelle
  imports Service_Witnesses
begin

text \<open>
  A model of the IncomUdon management service, a Go program of one package.

  The program.  The service stands beside a Relay.  It keeps one connection to the Relay, the
  Private Control Link, on which it learns which participants are in which channel, receives
  lifecycle events and sends revocations of service admissions.  To other services it offers
  the Management API over mutual TLS: the state of the channels, a stream of events, recording
  jobs, signed grants for admission to the Relay, and revocations.  Who may do what is said by
  three CSV files, which are read again every few seconds; what a change takes away is revoked
  at the Relay.  A revocation is kept in a file until the Relay has acknowledged it.

  How the parts interact.  \<open>main\<close> makes the state, the client and the API
  (\<open>start_process\<close>).  The goroutine of the client runs sessions (\<open>run\<close>), which change the state by
  \<open>markConnected\<close>, \<open>recordLifecycleEvent\<close>, \<open>applyRelayStateSnapshot\<close> and \<open>markDisconnected\<close>, and
  complete commands of the queue.  \<open>recordLifecycleEvent\<close> passes an event on to the job table and
  to the hub.  The handlers of the API read the state, subscribe at the hub, create and stop
  jobs, use the issuer and put commands into the queue.  The reloading replaces the authorizer
  and puts commands into the queue.  The hub and the job table, to which both the state and the
  API have pointers, are kept once, in the state.

  The theories and the files they model.
  \<^item> \<open>Go_Prelude\<close>, \<open>Go_Text\<close>, \<open>Go_Unicode\<close>, \<open>Go_Json\<close>, \<open>Go_Json_Decode\<close>: what the program uses of Go and
    its library: maps as association lists whose order is free, buffered channels with their
    panics, decimal numbers, base64url, UTF-8, white space, and \<open>encoding/json\<close> with its limit on
    nesting and its decoding into structs.  A mutex that is held for a whole operation makes it
    one step.  The locales for tables within a limit, \<open>bounded_table\<close> and \<open>growing_table\<close>, are here;
    the hub, the jobs, the queue and the issued grants are instances.
  \<^item> \<open>Pcl_Messages\<close>, \<open>Pcl_Codec\<close>, \<open>Pcl_Scan\<close>, \<open>Pcl_Frames\<close> (\<open>private_control.go\<close>): the message types with their
    validators, their JSON form, the scan that refuses repeated names, and the frames.
  \<^item> \<open>Snapshot_Reassembly\<close> (\<open>private_control.go\<close>): the snapshot of the Relay from its chunks.
  \<^item> \<open>Live_Events\<close> (\<open>management_events.go\<close>), \<open>Recording_Jobs\<close> (\<open>recording_jobs.go\<close>), \<open>Relay_State\<close> (\<open>main.go\<close>,
    \<open>management_api.go\<close>): the hub, the job table and the state kept from the Relay.
  \<^item> \<open>Go_Csv\<close>, \<open>Authorizer\<close> (\<open>management_api.go\<close>): the CSV files, what is loaded from them, and the
    decisions.
  \<^item> \<open>Command_Store\<close> (\<open>private_control_outbox.go\<close>): the file of pending commands, over a disk whose
    calls may fail and between any two of which the machine may stop.
  \<^item> \<open>Command_Queue\<close>, \<open>Queue_Properties\<close>, \<open>Queue_Runs\<close> (\<open>private_control.go\<close>): the pending commands, with
    a result channel for each.  A sending is a step for each command (\<open>send_command\<close>), because the code
    holds the lock of the queue only for the list of the commands and for each completion; between
    two of them the other goroutines may use the queue.  \<open>Queue_Durability\<close> follows the queue and its
    file together from the start of a process to a crash and the next start.
  \<^item> \<open>Acl_Reload\<close> (\<open>management_acl_reload.go\<close>): the reloading and its revocations.  The locale
    \<open>revocation_queue\<close> states what a reload needs of a queue; the queue of the client is its instance.
  \<^item> \<open>Grants\<close>, \<open>Grant_Properties\<close> (\<open>service_admission_grants.go\<close>, \<open>service_admission_api.go\<close>): the issuer and
    the check of a revocation request.
  \<^item> \<open>Pcl_Session\<close>, \<open>Session_Properties\<close>, \<open>Session_Runs\<close> (\<open>private_control.go\<close>): the handshake, the loop of a
    session, the handling of a message and the reconnection.
  \<^item> \<open>Http_Api\<close>, \<open>Management_Api\<close> (\<open>management_api.go\<close>, \<open>management_events.go\<close>, \<open>recording_jobs.go\<close>,
    \<open>service_admission_api.go\<close>): requests and answers, the paths, and the handlers.  \<open>Api_Effects\<close> has what
    each handler may change, \<open>Api_Properties\<close> who is served and what the lists say, \<open>Api_Commands\<close> the
    requests that change something, \<open>Event_Streams\<close> the streams.
  \<^item> \<open>Service\<close>, \<open>Service_Runs\<close> (\<open>main.go\<close>): the configuration, the start, the probes, and the runs of the
    whole process.  \<open>Service_Safety\<close> shows that they do not panic, and \<open>Service_Lifecycle\<close> has \<open>main\<close> itself:
    its two listeners, the context that a signal or a failed listener cancels, and the shutdown.
    \<open>Api_Witnesses\<close> and \<open>Service_Witnesses\<close> have the samples.

  What is shown.
  \<^item> Of the parts: a loaded authorizer says what the files say and is consistent; the scan accepts
    exactly a grammar; frames, the store and the event streams are read back as they were written; a
    snapshot does not depend on the order of its chunks; the hub gives each subscriber the events
    since its subscription without a gap; a command gets one result, and an accepted one survives a
    crash at any later moment until it has got it; a reload revokes exactly what is taken away; a
    grant says no more than its admission entry.
  \<^item> Of sessions: nothing is believed before the Relay has accepted the hello; the state is what the
    Relay sent; a refused message changes nothing; no command is written twice in a session; a session
    does not outlive the stream; the delays are bounded.
  \<^item> Of the API: only requests that are permitted change anything; the lists are exact; an answer to a
    revocation or a grant says what is so; a stop does not disclose what exists; a stream has only
    permitted events, in order, in frames no string can break.
  \<^item> Of the process: the invariants of all tables hold together in every interleaving of requests,
    streams, sessions and reloads (\<open>service_step\<close>); none of them panics; and once a signal has come or a
    listener has failed, \<open>main\<close> returns with both listeners closed (\<open>main_step\<close>).
  \<^item> Beside these, some lemmas show behaviour that was hardly meant: the job table fills up for good
    (\<open>recording_jobs_fill_up\<close>), sent commands never expire (proved in \<open>Queue_Runs\<close>), a large change
    of the files is never adopted (\<open>large_reload_never_adopted\<close>), an enqueue that failed may stay on the
    disk (\<open>failed_enqueue_stays_on_disk\<close>) and a completion that failed may not
    (\<open>failed_completion_leaves_file\<close>), a crash on Windows may lose the store (\<open>windows_crash_loses\<close>),
    an event can leave an empty channel (\<open>event_leaves_empty_channel\<close>), and a long issuer never issues
    (\<open>long_issuer_never_issues\<close>).

  What is an argument.  The clock (seconds or nanoseconds since 1970), random bytes, the content of
  files, the results of system calls, SHA-256 and the signature, the parsing of keys and
  certificates, the bytes the Relay sends and the answers to writes are arguments; so are the
  choices of every \<open>select\<close> and what other goroutines do while one waits.  Theorems that need it
  assume of the others only that they use the operations of the components.

  Bounds.  Nothing is cut off by fuel.  The loops that run as long as the process (a session, an event
  stream, the reloading, the reconnection) take the list of their turns and are defined for every such
  list; where a list ends, the loop is still running.  The other loops are total, by their own
  termination proofs.  The limits of the code (64 commands, 128 subscribers with 32 events each, 4096
  jobs, 4096 grants, 4096 bytes of a body, a frame of 65536 bytes) are its constants.

  Not modelled.  TLS and the HTTP server (their verified certificate, decoded path and raw query
  reach the handlers), the dialling and closing of connections and their timeouts, the parsing of
  flags, sockets and logging: they only call the standard library.  Of \<open>Shutdown\<close> it is used that it
  closes the listener and returns when its context is done; how long it takes is not.  What a
  decoder does with three members of one name up to case is simplified (\<open>Go_Json_Decode\<close>).  The header
  with which \<open>MaxBytesReader\<close> asks to close the connection, and the date of an answer, are left out.
\<close>

end
